(* ===== verification/Fs_Prelude.thy ===== *)
theory Fs_Prelude
  imports
    Main
    "HOL-Library.Word"
    "HOL-Library.AList"
    "HOL-Library.Multiset"
    "HOL-Library.Char_ord"
    "HOL-Library.List_Lexorder"
begin

text \<open>
  What every component shares.
  The types of machine words and bytes; computations that thread a state and may stop with an
  exception (\<open>io\<close>, the model of a Rust function that returns \<open>Result\<close> and uses the question-mark
  operator); the weakest-precondition calculus over them, whose equations are collected in
  \<open>wp_eqs\<close> and whose rules for database statements are in \<open>wp_rules\<close>; and facts about association
  lists seen as database tables with a primary key.
\<close>

section \<open>Machine types\<close>

type_synonym u8 = "8 word"
type_synonym u32 = "32 word"
type_synonym u64 = "64 word"
type_synonym byte = "8 word"

text \<open>Rust's \<open>saturating_sub\<close>, and an inclusive range \<open>lo..=hi\<close> of \<open>u64\<close> values.\<close>

definition saturating_sub :: "u64 \<Rightarrow> u64 \<Rightarrow> u64" where
  "saturating_sub a b = (if a < b then 0 else a - b)"

definition range_incl :: "u64 \<Rightarrow> u64 \<Rightarrow> u64 list" where
  "range_incl lo hi = map of_nat [unat lo ..< Suc (unat hi)]"

lemma unat_saturating_sub [simp]: "unat (saturating_sub a b) = unat a - unat b"
  by (auto simp: saturating_sub_def unat_sub word_less_nat_alt word_le_nat_alt not_less)

lemma unat_min [simp]: "unat (min a b :: u64) = min (unat a) (unat b)"
  by (simp add: min_def word_le_nat_alt)

lemma unat_max [simp]: "unat (max a b :: u64) = max (unat a) (unat b)"
  by (simp add: max_def word_le_nat_alt)

lemma unat_bound64: "unat (w :: u64) < 2 ^ 64"
  using unsigned_less[of w] by simp

lemma unat_of_nat64: "n < 2 ^ 64 \<Longrightarrow> unat (of_nat n :: u64) = n"
  by (simp add: unat_of_nat)

lemma sint_unat64: "unat (w :: u64) < 2 ^ 63 \<Longrightarrow> sint w = int (unat w)"
proof -
  assume "unat w < 2 ^ 63"
  then have "int (unat w) < int (2 ^ 63)" by (simp only: of_nat_less_iff)
  then have "uint w < 2 ^ 63" by simp
  moreover have "- (2 ^ 63) \<le> uint w" by (rule order_trans[OF _ uint_ge_0]) simp
  ultimately have "signed_take_bit 63 (uint w) = uint w"
    by (rule signed_take_bit_int_eq_self[rotated])
  then show ?thesis by (simp add: sint_uint)
qed

section \<open>Computations with a state and exceptions\<close>

type_synonym ('s, 'e, 'a) io = "'s \<Rightarrow> ('e + 'a) \<times> 's"

definition ret :: "'a \<Rightarrow> ('s, 'e, 'a) io" where
  "ret x s = (Inr x, s)"

definition throw :: "'e \<Rightarrow> ('s, 'e, 'a) io" where
  "throw e s = (Inl e, s)"

definition bindE :: "('s, 'e, 'a) io \<Rightarrow> ('a \<Rightarrow> ('s, 'e, 'b) io) \<Rightarrow> ('s, 'e, 'b) io" where
  "bindE m f s = (case m s of (Inl e, s') \<Rightarrow> (Inl e, s') | (Inr x, s') \<Rightarrow> f x s')"

definition gets :: "('s \<Rightarrow> 'a) \<Rightarrow> ('s, 'e, 'a) io" where
  "gets f s = (Inr (f s), s)"

definition modify :: "('s \<Rightarrow> 's) \<Rightarrow> ('s, 'e, unit) io" where
  "modify f s = (Inr (), f s)"

text \<open>A loop that runs a computation for each element of a list, in order.\<close>

primrec for_each :: "'a list \<Rightarrow> ('a \<Rightarrow> ('s, 'e, unit) io) \<Rightarrow> ('s, 'e, unit) io" where
  "for_each [] f = ret ()"
| "for_each (x # xs) f = bindE (f x) (\<lambda>_. for_each xs f)"

text \<open>A loop that collects one result per element.\<close>

primrec map_each :: "'a list \<Rightarrow> ('a \<Rightarrow> ('s, 'e, 'b) io) \<Rightarrow> ('s, 'e, 'b list) io" where
  "map_each [] f = ret []"
| "map_each (x # xs) f = bindE (f x) (\<lambda>y. bindE (map_each xs f) (\<lambda>ys. ret (y # ys)))"

section \<open>Weakest preconditions\<close>

definition wp :: "('s, 'e, 'a) io \<Rightarrow> ('a \<Rightarrow> 's \<Rightarrow> bool) \<Rightarrow> ('e \<Rightarrow> 's \<Rightarrow> bool) \<Rightarrow> 's \<Rightarrow> bool" where
  "wp m Q E s = (case m s of (Inl e, s') \<Rightarrow> E e s' | (Inr x, s') \<Rightarrow> Q x s')"

named_theorems wp_eqs "equations of wp for the combinators"
named_theorems wp_rules "introduction rules of wp for database statements and what is built on them"

lemma wp_ret [wp_eqs]: "wp (ret x) Q E = Q x"
  by (simp add: wp_def ret_def fun_eq_iff)

lemma wp_throw [wp_eqs]: "wp (throw e) Q E = E e"
  by (simp add: wp_def throw_def fun_eq_iff)

lemma wp_gets [wp_eqs]: "wp (gets f) Q E s = Q (f s) s"
  by (simp add: wp_def gets_def)

lemma wp_modify [wp_eqs]: "wp (modify f) Q E s = Q () (f s)"
  by (simp add: wp_def modify_def)

lemma wp_bindE [wp_eqs]: "wp (bindE m f) Q E = wp m (\<lambda>x. wp (f x) Q E) E"
  by (auto simp: wp_def bindE_def fun_eq_iff split: prod.split sum.split)

lemma wp_if [wp_eqs]: "wp (if b then m else n) Q E s = (if b then wp m Q E s else wp n Q E s)"
  by simp

lemma wp_case_option [wp_eqs]:
  "wp (case x of None \<Rightarrow> m | Some y \<Rightarrow> f y) Q E s
    = (case x of None \<Rightarrow> wp m Q E s | Some y \<Rightarrow> wp (f y) Q E s)"
  by (cases x) auto

lemma wp_case_prod [wp_eqs]:
  "wp (case p of (x, y) \<Rightarrow> f x y) Q E s = (case p of (x, y) \<Rightarrow> wp (f x y) Q E s)"
  by (cases p) auto

lemma wp_for_each_Nil [wp_eqs]: "wp (for_each [] f) Q E s = Q () s"
  by (simp add: wp_ret)

lemma wp_for_each_Cons [wp_eqs]:
  "wp (for_each (x # xs) f) Q E s = wp (f x) (\<lambda>_. wp (for_each xs f) Q E) E s"
  by (simp add: wp_bindE)

lemma wp_mono:
  assumes "wp m Q E s"
    and "\<And>x s'. Q x s' \<Longrightarrow> Q' x s'" and "\<And>e s'. E e s' \<Longrightarrow> E' e s'"
  shows "wp m Q' E' s"
  using assms by (auto simp: wp_def split: prod.splits sum.splits)

lemma wp_conj: "wp m Q E s \<Longrightarrow> wp m Q' E' s
    \<Longrightarrow> wp m (\<lambda>x s. Q x s \<and> Q' x s) (\<lambda>e s. E e s \<and> E' e s) s"
  by (auto simp: wp_def split: prod.splits sum.splits)

text \<open>From a weakest precondition to a fact about a run, and back.\<close>

lemma wp_run: "wp m Q E s \<Longrightarrow> m s = (r, s') \<Longrightarrow> (case r of Inl e \<Rightarrow> E e s' | Inr x \<Rightarrow> Q x s')"
  by (auto simp: wp_def split: sum.splits)

lemma wp_runE: "wp m Q E s \<Longrightarrow> m s = (Inl e, s') \<Longrightarrow> E e s'"
  by (simp add: wp_def)

lemma wp_runQ: "wp m Q E s \<Longrightarrow> m s = (Inr x, s') \<Longrightarrow> Q x s'"
  by (simp add: wp_def)

lemma wp_snd: "wp m (\<lambda>_. Q) (\<lambda>_. Q) s \<Longrightarrow> Q (snd (m s))"
  by (auto simp: wp_def split: prod.splits sum.splits)

lemma wp_returns: "wp m Q (\<lambda>_ _. False) s \<Longrightarrow> \<exists>x s'. m s = (Inr x, s') \<and> Q x s'"
  by (auto simp: wp_def split: prod.splits sum.splits)

text \<open>An invariant that each body of a loop keeps is kept by the loop.\<close>

lemma wp_for_each_inv:
  assumes "I s"
    and "\<And>x s. x \<in> set xs \<Longrightarrow> I s \<Longrightarrow> wp (f x) (\<lambda>_. I) E s"
    and "\<And>s. I s \<Longrightarrow> Q () s"
  shows "wp (for_each xs f) Q E s"
  using assms(1,2)
proof (induction xs arbitrary: s)
  case Nil
  then show ?case by (simp add: wp_eqs assms(3))
next
  case (Cons x xs)
  have "wp (f x) (\<lambda>_. I) E s" using Cons.prems by simp
  then show ?case
    unfolding wp_for_each_Cons by (rule wp_mono) (use Cons in auto)
qed

section \<open>Tables: association lists with distinct keys\<close>

abbreviation keyed :: "('k \<times> 'v) list \<Rightarrow> bool" where
  "keyed t \<equiv> distinct (map fst t)"

lemma keyed_update [simp]: "keyed t \<Longrightarrow> keyed (AList.update k v t)"
  by (rule distinct_update)

lemma keyed_delete [simp]: "keyed t \<Longrightarrow> keyed (AList.delete k t)"
  by (rule distinct_delete)

lemma keyed_map_entry [simp]: "keyed t \<Longrightarrow> keyed (AList.map_entry k f t)"
  by (simp add: distinct_map_entry)

lemma keyed_filter [simp]: "keyed t \<Longrightarrow> keyed (filter P t)"
  by (simp add: distinct_map_filter)

lemma table_update [simp]: "map_of (AList.update k v t) = (map_of t)(k \<mapsto> v)"
  by (rule update_conv')

lemma table_delete [simp]: "map_of (AList.delete k t) = (map_of t)(k := None)"
  by (rule delete_conv')

lemma table_map_entry [simp]:
  "map_of (AList.map_entry k f t) = (map_of t)(k := map_option f (map_of t k))"
  by (auto simp: fun_eq_iff map_of_map_entry split: option.splits)

lemma table_filter_key:
  "map_of (filter (\<lambda>(k, v). P k) t) k = (if P k then map_of t k else None)"
  by (induction t) auto

lemma in_table_iff: "keyed t \<Longrightarrow> (k, v) \<in> set t \<longleftrightarrow> map_of t k = Some v"
  by simp

lemma update_fresh: "map_of t k = None \<Longrightarrow> AList.update k v t = t @ [(k, v)]"
  by (induction t) (auto split: if_splits)

lemma mset_delete:
  "keyed t \<Longrightarrow> map_of t k = Some v \<Longrightarrow> mset t = add_mset (k, v) (mset (AList.delete k t))"
proof (induction t)
  case Nil
  then show ?case by simp
next
  case (Cons a t)
  show ?case
  proof (cases "fst a = k")
    case True
    with Cons.prems have "k \<notin> fst ` set t" and "a = (k, v)" by (cases a, auto)+
    then show ?thesis by simp
  next
    case False
    with Cons show ?thesis by (cases a) auto
  qed
qed

text \<open>Counting the rows that satisfy a condition.\<close>

definition count_rows :: "('k \<Rightarrow> 'v \<Rightarrow> bool) \<Rightarrow> ('k \<times> 'v) list \<Rightarrow> nat" where
  "count_rows P t = length (filter (\<lambda>(k, v). P k v) t)"

lemma count_rows_mset: "count_rows P t = size (filter_mset (\<lambda>(k, v). P k v) (mset t))"
  by (simp add: count_rows_def mset_filter[symmetric] del: mset_filter)

lemma count_rows_Nil [simp]: "count_rows P [] = 0"
  by (simp add: count_rows_def)

lemma count_rows_insert:
  "map_of t k = None \<Longrightarrow> count_rows P (AList.update k v t) = count_rows P t + (if P k v then 1 else 0)"
  by (simp add: count_rows_def update_fresh)

lemma count_rows_delete:
  "keyed t \<Longrightarrow> map_of t k = Some v
    \<Longrightarrow> count_rows P t = count_rows P (AList.delete k t) + (if P k v then 1 else 0)"
  by (simp add: count_rows_mset mset_delete[of t k v])

lemma count_rows_cong:
  "(\<And>k v. (k, v) \<in> set t \<Longrightarrow> P k v = P' k v) \<Longrightarrow> count_rows P t = count_rows P' t"
  unfolding count_rows_def by (rule arg_cong[where f = length], rule filter_cong) auto

lemma count_rows_eq_0: "count_rows P t = 0 \<longleftrightarrow> (\<forall>k v. (k, v) \<in> set t \<longrightarrow> \<not> P k v)"
  by (auto simp: count_rows_def filter_empty_conv)

end
