(* ===== verification/Fs_Types.thy ===== *)
theory Fs_Types
  imports Fs_Prelude
begin

text \<open>
  Errors, shared data types and permission checks: \<open>errors.rs\<close>, \<open>types.rs\<close> and
  \<open>perms.rs\<close>.  Error values keep the source's variants; the message text that a variant
  carries is never read by the code and is left out, except that \<open>Sqlite\<close> keeps which
  kind of database failure it wraps.  A Rust panic (which no \<open>Result\<close> carries) is the
  exception \<open>Panic\<close>, and a loop that never ends is \<open>Diverges\<close>.  Numbers of the Linux ABI (errno values, open flags) are written
  out.
\<close>

unbundle bit_operations_syntax

section \<open>Errors (errors.rs)\<close>

datatype sqlite_error =
    IoFault              \<comment> \<open>the engine failed: disk, lock timeout, read-only file\<close>
  | ConstraintViolation  \<comment> \<open>primary key or foreign key\<close>
  | DatabaseFull         \<comment> \<open>row identifiers exhausted\<close>
  | NoRows               \<comment> \<open>\<open>query_row\<close> found nothing\<close>
  | CannotOpen           \<comment> \<open>no such file, or no permission\<close>
  | NoSuchTable          \<comment> \<open>a statement on a table that is not in the schema\<close>
  | ObjectExists         \<comment> \<open>\<open>CREATE\<close> of a table or index that is in the schema\<close>

datatype error =
    PathSyntax | NameTooLong | NotFound | AlreadyExists | NotADirectory | IsADirectory
  | DirectoryNotEmpty | PermissionDenied | ReadOnlyFilesystem | InvalidXattr | LockConflict
  | BadFileDescriptor | SymlinkLoop | InvalidArgument | Sqlite sqlite_error

datatype exn = Fail error | Panic | Diverges

fun errno :: "error \<Rightarrow> int" where
  "errno PathSyntax = 22"
| "errno InvalidArgument = 22"
| "errno InvalidXattr = 22"
| "errno NameTooLong = 36"
| "errno NotFound = 2"
| "errno AlreadyExists = 17"
| "errno NotADirectory = 20"
| "errno IsADirectory = 21"
| "errno DirectoryNotEmpty = 39"
| "errno PermissionDenied = 13"
| "errno ReadOnlyFilesystem = 30"
| "errno LockConflict = 11"
| "errno BadFileDescriptor = 9"
| "errno SymlinkLoop = 40"
| "errno (Sqlite _) = 5"

lemma errno_positive: "0 < errno e"
  by (cases e) auto

text \<open>A \<open>Result\<close> of a pure function inside a computation, \<open>Err(...)\<close>, and \<open>.ok()\<close>.\<close>

definition of_result :: "error + 'a \<Rightarrow> ('s, exn, 'a) io" where
  "of_result r s = (case r of Inl e \<Rightarrow> Inl (Fail e) | Inr x \<Rightarrow> Inr x, s)"

abbreviation fail :: "error \<Rightarrow> ('s, exn, 'a) io" where
  "fail e \<equiv> throw (Fail e)"

abbreviation panic :: "('s, exn, 'a) io" where
  "panic \<equiv> throw Panic"

definition ok :: "('s, exn, 'a) io \<Rightarrow> ('s, exn, 'a option) io" where
  "ok m s = (case m s of
      (Inl (Fail e), s') \<Rightarrow> (Inr None, s')
    | (Inl e, s') \<Rightarrow> (Inl e, s')
    | (Inr x, s') \<Rightarrow> (Inr (Some x), s'))"

definition require :: "bool \<Rightarrow> error \<Rightarrow> ('s, exn, unit) io" where
  "require b e = (if b then ret () else fail e)"

lemma wp_of_result [wp_eqs]:
  "wp (of_result r) Q E s = (case r of Inl e \<Rightarrow> E (Fail e) s | Inr x \<Rightarrow> Q x s)"
  by (simp add: wp_def of_result_def split: sum.split)

lemma wp_ok [wp_eqs]:
  "wp (ok m) Q E s = wp m (\<lambda>x. Q (Some x)) (\<lambda>e s. case e of Fail _ \<Rightarrow> Q None s | _ \<Rightarrow> E e s) s"
  by (auto simp: wp_def ok_def split: prod.split sum.split exn.split)

lemma wp_require [wp_eqs]:
  "wp (require b e) Q E s = (if b then Q () s else E (Fail e) s)"
  by (simp add: require_def wp_eqs)

section \<open>Shared data (types.rs)\<close>

datatype node_kind = File | Dir | Symlink

fun as_str :: "node_kind \<Rightarrow> string" where
  "as_str File = ''file''"
| "as_str Dir = ''dir''"
| "as_str Symlink = ''symlink''"

definition from_str :: "string \<Rightarrow> node_kind option" where
  "from_str s =
     (if s = ''file'' then Some File
      else if s = ''dir'' then Some Dir
      else if s = ''symlink'' then Some Symlink
      else None)"

text \<open>\<open>kind_from_str\<close> of nodes.rs panics on any other text in the \<open>kind\<close> column.\<close>

definition kind_from_str :: "string \<Rightarrow> exn + node_kind" where
  "kind_from_str s = (case from_str s of None \<Rightarrow> Inl Panic | Some k \<Rightarrow> Inr k)"

lemma as_str_from_str: "from_str s = Some k \<longleftrightarrow> s = as_str k"
  by (cases k) (auto simp: from_str_def)

lemma as_str_inj: "as_str k = as_str k' \<longleftrightarrow> k = k'"
  by (cases k; cases k') auto

datatype lock_op = LkShared | LkExclusive | LkUnlock
datatype flock_op = FlShared | FlExclusive | FlUnlock
datatype lock_type = Shared | Exclusive

text \<open>Lock types are ordered by strength.\<close>

instantiation lock_type :: linorder
begin

definition less_eq_lock_type :: "lock_type \<Rightarrow> lock_type \<Rightarrow> bool" where
  "less_eq_lock_type a b \<longleftrightarrow> a = Shared \<or> b = Exclusive"

definition less_lock_type :: "lock_type \<Rightarrow> lock_type \<Rightarrow> bool" where
  "less_lock_type a b \<longleftrightarrow> a = Shared \<and> b = Exclusive"

instance
proof
  fix x y z :: lock_type
  show "(x < y) = (x \<le> y \<and> \<not> y \<le> x)"
    by (cases x; cases y) (auto simp: less_eq_lock_type_def less_lock_type_def)
  show "x \<le> x" by (cases x) (auto simp: less_eq_lock_type_def)
  show "x \<le> y \<Longrightarrow> y \<le> z \<Longrightarrow> x \<le> z" by (auto simp: less_eq_lock_type_def)
  show "x \<le> y \<Longrightarrow> y \<le> x \<Longrightarrow> x = y"
    by (cases x; cases y) (auto simp: less_eq_lock_type_def)
  show "x \<le> y \<or> y \<le> x" by (cases x; cases y) (auto simp: less_eq_lock_type_def)
qed

end

lemma max_Exclusive_iff: "max a b = Exclusive \<longleftrightarrow> a = Exclusive \<or> b = Exclusive"
  by (cases a; cases b) (auto simp: max_def less_eq_lock_type_def)

record lock_query =
  lq_type :: lock_type
  lq_pid :: int
  lq_start :: int
  lq_length :: int

record stat =
  st_kind :: node_kind
  st_size :: u64
  st_mode :: u32
  st_uid :: u32
  st_gid :: u32
  st_atime_ns :: int
  st_mtime_ns :: int
  st_ctime_ns :: int
  st_nlink :: u32
  st_inode :: u64

record dir_entry =
  de_name :: string
  de_kind :: node_kind
  de_inode :: u64

datatype fsck_kind =
    OrphanBlob | OrphanXattr | OrphanSymlink | Cycle | NlinkMismatch | DanglingParent

record fsck_issue =
  fi_kind :: fsck_kind
  fi_inode :: "u64 option"

datatype integrity_result = IntegrityOk | Corrupted

record fsck_report =
  integrity_check_result :: integrity_result
  issues :: "fsck_issue list"

datatype event_kind = Create | Remove | Modify | Move | Metadata

record event =
  ev_kind :: event_kind
  ev_path :: string
  ev_src_path :: "string option"
  ev_dst_path :: "string option"
  ev_node_kind :: node_kind
  ev_inode :: u64
  ev_timestamp_ns :: int

section \<open>Permission checks (perms.rs)\<close>

type_synonym access = u32

definition ACCESS_R :: access where "ACCESS_R = 4"
definition ACCESS_W :: access where "ACCESS_W = 2"
definition ACCESS_X :: access where "ACCESS_X = 1"

text \<open>\<open>bitflags\<close>: \<open>contains\<close> and \<open>from_bits_truncate\<close>.\<close>

definition access_contains :: "access \<Rightarrow> access \<Rightarrow> bool" where
  "access_contains a b \<longleftrightarrow> a AND b = b"

definition access_from_bits_truncate :: "u32 \<Rightarrow> access" where
  "access_from_bits_truncate b = b AND 7"

definition check_access :: "u32 \<Rightarrow> u32 \<Rightarrow> u32 \<Rightarrow> u32 \<Rightarrow> u32 \<Rightarrow> access \<Rightarrow> bool" where
  "check_access node_mode node_uid node_gid caller_uid caller_gid access =
     (if caller_uid = 0 then
        (if access_contains access ACCESS_X then node_mode AND 0x49 \<noteq> 0 else True)
      else
        let bits = (if caller_uid = node_uid then drop_bit 6 node_mode AND 7
                    else if caller_gid = node_gid then drop_bit 3 node_mode AND 7
                    else node_mode AND 7);
            required = access
        in bits AND required = required)"

definition require_access :: "u32 \<Rightarrow> u32 \<Rightarrow> u32 \<Rightarrow> u32 \<Rightarrow> u32 \<Rightarrow> access \<Rightarrow> error + unit" where
  "require_access node_mode node_uid node_gid caller_uid caller_gid access =
     (if check_access node_mode node_uid node_gid caller_uid caller_gid access
      then Inr () else Inl PermissionDenied)"


subsection \<open>What the checks grant\<close>

text \<open>The shift that selects the owner, group or other triad of a mode.\<close>

definition triad_shift :: "u32 \<Rightarrow> u32 \<Rightarrow> u32 \<Rightarrow> u32 \<Rightarrow> nat" where
  "triad_shift node_uid node_gid caller_uid caller_gid =
     (if caller_uid = node_uid then 6 else if caller_gid = node_gid then 3 else 0)"

lemma and_eq_iff_bits: "(b AND a = a) = ({k. bit a k} \<subseteq> {k. bit b k})" for a b :: u32
proof
  assume "b AND a = a"
  then have "bit (b AND a) k = bit a k" for k by simp
  then show "{k. bit a k} \<subseteq> {k. bit b k}" by (auto simp: bit_and_iff)
next
  assume "{k. bit a k} \<subseteq> {k. bit b k}"
  then show "b AND a = a" by (intro bit_word_eqI) (auto simp: bit_and_iff)
qed

lemma small_word_bits: "(w :: u32) = take_bit 7 w \<Longrightarrow> bit w k \<Longrightarrow> k \<in> {0, 1, 2, 3, 4, 5, 6}"
proof -
  assume "w = take_bit 7 w" and "bit w k"
  then have "k < 7" by (metis bit_take_bit_iff)
  then show ?thesis by auto
qed

lemma bit_7: "bit (7 :: u32) k \<longleftrightarrow> k < 3"
proof
  assume "bit (7 :: u32) k"
  then show "k < 3" using small_word_bits[of 7 k] by auto
next
  assume "k < 3"
  then have "k \<in> {0, 1, 2}" by auto
  then show "bit (7 :: u32) k" by auto
qed

lemma bit_0x49: "bit (0x49 :: u32) k \<longleftrightarrow> k = 0 \<or> k = 3 \<or> k = 6"
  using small_word_bits[of "0x49" k] by auto

lemma bit_low3: "bit (m AND 7) k \<longleftrightarrow> k < 3 \<and> bit m k" for m :: u32
  by (simp only: bit_and_iff bit_7) auto

lemma any_x_iff: "m AND 0x49 \<noteq> 0 \<longleftrightarrow> bit m 0 \<or> bit m 3 \<or> bit m 6" for m :: u32
proof -
  have "bit (m AND 0x49) k \<longleftrightarrow> bit m k \<and> (k = 0 \<or> k = 3 \<or> k = 6)" for k
    by (simp only: bit_and_iff bit_0x49)
  moreover have "w \<noteq> 0 \<longleftrightarrow> (\<exists>k. bit w k)" for w :: u32
    by (metis bit_0_eq bit_word_eqI bot_apply bot_bool_def)
  ultimately show ?thesis by metis
qed

lemma contains_X_iff: "access_contains a ACCESS_X \<longleftrightarrow> bit a 0"
  by (simp add: access_contains_def ACCESS_X_def and_one_eq bit_0 odd_iff_mod_2_eq_one)

lemma check_access_bits:
  "check_access m nuid ngid cuid cgid a =
     (if cuid = 0 then (if bit a 0 then bit m 0 \<or> bit m 3 \<or> bit m 6 else True)
      else {k. bit a k} \<subseteq> {k. k < 3 \<and> bit m (k + triad_shift nuid ngid cuid cgid)})"
proof (cases "cuid = 0")
  case True
  then show ?thesis
    by (simp only: check_access_def contains_X_iff any_x_iff if_True simp_thms)
next
  case False
  have "Collect (bit (drop_bit n m AND 7)) = {k. k < 3 \<and> bit m (k + n)}" for n
    by (simp only: set_eq_iff mem_Collect_eq bit_low3 bit_drop_bit_eq o_apply add.commute) blast
  moreover have "Collect (bit (m AND 7)) = {k. k < 3 \<and> bit m (k + 0)}"
    by (simp only: set_eq_iff mem_Collect_eq bit_low3 add_0_right) blast
  ultimately show ?thesis
    using False by (simp add: check_access_def Let_def and_eq_iff_bits triad_shift_def)
qed

lemma check_access_root_rw: "\<not> bit a 0 \<Longrightarrow> check_access m nuid ngid 0 cgid a"
  by (simp add: check_access_bits)

text \<open>
  A combined request is granted exactly when each of its parts is, so
  asking for write and execute at once is the same as asking for both in turn.
\<close>

theorem check_access_union:
  "check_access m nuid ngid cuid cgid (a OR b) =
     (check_access m nuid ngid cuid cgid a \<and> check_access m nuid ngid cuid cgid b)"
  by (auto simp: check_access_bits bit_or_iff)

text \<open>
  C38 (check_access): for a caller other than root, access is granted exactly when every
  requested bit lies in the three permission bits of the one triad that applies to the caller
  (owner, else group, else other); root is granted everything, except that a request for
  execute needs at least one execute bit in the mode.
\<close>

theorem check_access_spec:
  "check_access m nuid ngid cuid cgid a =
     (if cuid = 0 then (if bit a 0 then bit m 0 \<or> bit m 3 \<or> bit m 6 else True)
      else {k. bit a k} \<subseteq> {k. k < 3 \<and> bit m (k + triad_shift nuid ngid cuid cgid)})"
  by (rule check_access_bits)

end
