(* ===== verification/Fs_Paths.thy ===== *)
theory Fs_Paths
  imports Fs_Types
begin

text \<open>
  Paths: \<open>paths.rs\<close>, and the two path helpers of \<open>watch.rs\<close> and \<open>fuse/adapter.rs\<close>.  A Rust
  string is its UTF-8 bytes (a HOL \<open>char\<close> is one byte), which is what \<open>len\<close> counts and what
  the limits are about.  The separator, the dot and NUL are ASCII, so splitting and searching
  by byte is splitting and searching by character.
\<close>

section \<open>What the source uses of Rust's strings\<close>

abbreviation slash :: char where
  "slash \<equiv> CHR ''/''"

text \<open>\<open>split(c)\<close>, \<open>strip_suffix(c).unwrap_or(s)\<close>, \<open>join("/")\<close> and \<open>rfind(c)\<close>.\<close>

fun split_char :: "char \<Rightarrow> string \<Rightarrow> string list" where
  "split_char c [] = [[]]"
| "split_char c (x # xs) =
     (if x = c then [] # split_char c xs
      else (case split_char c xs of [] \<Rightarrow> [[x]] | p # ps \<Rightarrow> (x # p) # ps))"

definition strip_slash :: "string \<Rightarrow> string" where
  "strip_slash s = (if s \<noteq> [] \<and> last s = slash then butlast s else s)"

fun join_slash :: "string list \<Rightarrow> string" where
  "join_slash [] = []"
| "join_slash [x] = x"
| "join_slash (x # xs) = x @ slash # join_slash xs"

fun rfind :: "char \<Rightarrow> string \<Rightarrow> nat option" where
  "rfind c [] = None"
| "rfind c (x # xs) =
     (case rfind c xs of Some i \<Rightarrow> Some (Suc i) | None \<Rightarrow> if x = c then Some 0 else None)"

section \<open>parse_path\<close>

definition PATH_MAX :: nat where "PATH_MAX = 4096"
definition NAME_MAX :: nat where "NAME_MAX = 255"

text \<open>The loop over the parts; the first bad part decides the error.\<close>

fun parse_components :: "string list \<Rightarrow> error + string list" where
  "parse_components [] = Inr []"
| "parse_components (part # rest) =
     (if part = [] then Inl PathSyntax
      else if part = ''.'' \<or> part = ''..'' then Inl PathSyntax
      else if CHR 0x00 \<in> set part then Inl PathSyntax
      else if length part > NAME_MAX then Inl NameTooLong
      else (case parse_components rest of Inl e \<Rightarrow> Inl e | Inr cs \<Rightarrow> Inr (part # cs)))"

definition parse_path :: "string \<Rightarrow> error + string list" where
  "parse_path path =
     (if path = [] then Inl PathSyntax
      else if length path > PATH_MAX then Inl PathSyntax
      else if hd path \<noteq> slash then Inl PathSyntax
      else if path = ''/'' then Inr []
      else parse_components (split_char slash (strip_slash (tl path))))"

text \<open>The absolute path of a component list, as \<open>format!("/{}", components.join("/"))\<close>.\<close>

definition path_string :: "string list \<Rightarrow> string" where
  "path_string cs = slash # join_slash cs"

text \<open>\<open>watch.rs: parent_of_path\<close>, \<open>adapter.rs: parent_of_path\<close> and \<open>Adapter::child_path\<close>.\<close>

definition watch_parent_of_path :: "string \<Rightarrow> string" where
  "watch_parent_of_path p =
     (case rfind slash p of
        Some 0 \<Rightarrow> ''/''
      | Some idx \<Rightarrow> take idx p
      | None \<Rightarrow> ''/'')"

definition adapter_parent_of_path :: "string \<Rightarrow> string option" where
  "adapter_parent_of_path path =
     (if path = ''/'' then None
      else (case rfind slash path of
              Some 0 \<Rightarrow> Some ''/''
            | Some idx \<Rightarrow> Some (take idx path)
            | None \<Rightarrow> None))"

definition child_path :: "string \<Rightarrow> string \<Rightarrow> string" where
  "child_path parent name = (if parent = ''/'' then slash # name else parent @ slash # name)"

section \<open>Splitting and joining\<close>

lemma split_char_not_Nil [simp]: "split_char c s \<noteq> []"
  by (induction c s rule: split_char.induct) (auto split: list.splits)

lemma split_char_no_sep: "c \<notin> set s \<Longrightarrow> split_char c s = [s]"
  by (induction s) auto

lemma split_char_parts: "p \<in> set (split_char c s) \<Longrightarrow> c \<notin> set p"
  by (induction c s arbitrary: p rule: split_char.induct) (auto split: list.splits if_splits)

lemma split_char_append: "c \<notin> set a \<Longrightarrow> split_char c (a @ c # s) = a # split_char c s"
  by (induction a) auto

lemma join_Cons: "xs \<noteq> [] \<Longrightarrow> join_slash (x # xs) = x @ slash # join_slash xs"
  by (cases xs) auto

lemma join_split: "join_slash (split_char slash s) = s"
proof (induction slash s rule: split_char.induct)
  case (2 x xs)
  then show ?case
    by (cases "split_char slash xs"; cases "tl (split_char slash xs)")
      (auto simp: join_Cons)
qed simp

lemma split_join: "cs \<noteq> [] \<Longrightarrow> \<forall>p\<in>set cs. slash \<notin> set p \<Longrightarrow> split_char slash (join_slash cs) = cs"
  by (induction cs rule: join_slash.induct)
    (auto simp: split_char_no_sep split_char_append)

lemma join_snoc: "cs \<noteq> [] \<Longrightarrow> join_slash (cs @ [n]) = join_slash cs @ slash # n"
proof (induction cs)
  case (Cons x xs)
  then show ?case by (cases xs) (auto simp: join_Cons)
qed simp

section \<open>What parse_path accepts\<close>

definition valid_component :: "string \<Rightarrow> bool" where
  "valid_component p \<longleftrightarrow> p \<noteq> [] \<and> p \<noteq> ''.'' \<and> p \<noteq> ''..'' \<and> CHR 0x00 \<notin> set p
     \<and> length p \<le> NAME_MAX \<and> slash \<notin> set p"

lemma parse_components_Inr:
  "\<forall>p\<in>set ps. slash \<notin> set p \<Longrightarrow>
    parse_components ps = Inr cs \<longleftrightarrow> cs = ps \<and> (\<forall>p\<in>set ps. valid_component p)"
  by (induction ps arbitrary: cs) (auto simp: valid_component_def split: sum.splits)

lemma last_join: "cs \<noteq> [] \<Longrightarrow> last cs \<noteq> [] \<Longrightarrow> last (join_slash cs) = last (last cs)"
proof (induction cs)
  case (Cons x xs)
  then show ?case by (cases xs) (auto simp: join_Cons)
qed simp

lemma join_not_Nil: "cs \<noteq> [] \<Longrightarrow> last cs \<noteq> [] \<Longrightarrow> join_slash cs \<noteq> []"
  by (induction cs rule: join_slash.induct) auto

lemma valid_last: "cs \<noteq> [] \<Longrightarrow> \<forall>p\<in>set cs. valid_component p \<Longrightarrow> last cs \<noteq> [] \<and> last (last cs) \<noteq> slash"
  by (metis last_in_set valid_component_def)

lemma strip_slash_cases: "strip_slash s = t \<Longrightarrow> s = t \<or> s = t @ [slash]"
  by (auto simp: strip_slash_def split: if_splits) (metis append_butlast_last_id)

lemma parse_path_char:
  "parse_path p = Inr cs \<longleftrightarrow>
     length p \<le> PATH_MAX \<and> (\<forall>c\<in>set cs. valid_component c) \<and>
     (p = path_string cs \<or> cs \<noteq> [] \<and> p = path_string cs @ ''/'')"
    (is "?L \<longleftrightarrow> ?len \<and> ?valid \<and> ?shape")
proof
  assume L: ?L
  then obtain t where p: "p = slash # t" and len: ?len
    by (cases p) (auto simp: parse_path_def split: if_splits)
  show "?len \<and> ?valid \<and> ?shape"
  proof (cases "t = []")
    case True
    with L p len show ?thesis by (auto simp: parse_path_def path_string_def PATH_MAX_def)
  next
    case False
    let ?s = "strip_slash t"
    from L p len False have "parse_components (split_char slash ?s) = Inr cs"
      by (auto simp: parse_path_def split: if_splits)
    then have "cs = split_char slash ?s" and v: ?valid
      by (auto simp: parse_components_Inr split_char_parts)
    then have "?s = join_slash cs" and "cs \<noteq> []" by (simp_all add: join_split)
    with strip_slash_cases[of t ?s] v p len show ?thesis
      by (auto simp: path_string_def)
  qed
next
  assume R: "?len \<and> ?valid \<and> ?shape"
  show ?L
  proof (cases "cs = []")
    case True
    with R show ?thesis by (auto simp: parse_path_def path_string_def PATH_MAX_def)
  next
    case False
    let ?t = "tl p"
    from R False have ne: "join_slash cs \<noteq> []" and lst: "last (join_slash cs) \<noteq> slash"
      using valid_last[of cs] last_join[of cs] join_not_Nil[of cs] by auto
    from R ne lst have "strip_slash ?t = join_slash cs" and "p \<noteq> ''/''" and "hd p = slash"
      by (auto simp: path_string_def strip_slash_def)
    moreover have "split_char slash (join_slash cs) = cs"
      using R False by (intro split_join) (auto simp: valid_component_def)
    moreover have "parse_components cs = Inr cs"
      using R by (subst parse_components_Inr) (auto simp: valid_component_def)
    ultimately show ?thesis using R by (auto simp: parse_path_def path_string_def)
  qed
qed

lemma parse_path_valid: "parse_path p = Inr cs \<Longrightarrow> c \<in> set cs \<Longrightarrow> valid_component c"
  using parse_path_char by blast

lemma length_join: "length (join_slash cs) \<le> length (join_slash (cs @ ds))"
proof (cases "cs = [] \<or> ds = []")
  case False
  then show ?thesis
  proof (induction cs)
    case (Cons x xs)
    then show ?case by (cases xs; cases ds) (auto simp: join_Cons)
  qed simp
qed auto

text \<open>The parent path that \<open>resolve_parent_and_name\<close> builds parses to the leading components.\<close>

lemma parse_path_parent:
  assumes "parse_path p = Inr (cs @ ds)"
  shows "parse_path (path_string cs) = Inr cs"
proof -
  from assms have "length (path_string (cs @ ds)) \<le> PATH_MAX"
    by (auto simp: parse_path_char)
  then have "length (path_string cs) \<le> PATH_MAX"
    using length_join[of cs ds] by (simp add: path_string_def)
  with assms show ?thesis by (auto simp: parse_path_char)
qed

section \<open>Parents and children\<close>

lemma rfind_None: "rfind c s = None \<longleftrightarrow> c \<notin> set s"
  by (induction s) (auto split: option.splits)

lemma rfind_append: "c \<notin> set n \<Longrightarrow> rfind c (a @ c # n) = Some (length a)"
proof (induction a)
  case Nil
  then show ?case by (auto simp: rfind_None split: option.split)
next
  case (Cons x a)
  then show ?case by simp
qed

lemma path_string_snoc:
  "path_string (cs @ [n]) = (if cs = [] then [] else path_string cs) @ slash # n"
  by (simp add: path_string_def join_snoc)

lemma path_string_eq_root: "\<forall>c\<in>set cs. valid_component c \<Longrightarrow> path_string cs = ''/'' \<longleftrightarrow> cs = []"
  using join_not_Nil[of cs] valid_last[of cs] by (auto simp: path_string_def)

lemma split_char_app: "split_char c (a @ c # s) = split_char c a @ split_char c s"
  by (induction c a rule: split_char.induct) (auto split: list.splits)

lemma join_append: "cs \<noteq> [] \<Longrightarrow> ds \<noteq> [] \<Longrightarrow> join_slash (cs @ ds) = join_slash cs @ slash # join_slash ds"
  by (induction cs rule: join_slash.induct) (auto simp: join_Cons)

lemma split_path_string:
  "cs \<noteq> [] \<Longrightarrow> \<forall>c\<in>set cs. valid_component c \<Longrightarrow> split_char slash (tl (path_string cs)) = cs"
  by (auto simp: path_string_def valid_component_def intro!: split_join)

lemma path_string_inj:
  assumes "\<forall>c\<in>set cs. valid_component c" and "\<forall>c\<in>set ds. valid_component c"
  shows "path_string cs = path_string ds \<longleftrightarrow> cs = ds"
proof (cases "cs = [] \<or> ds = []")
  case True
  then show ?thesis
    using path_string_eq_root[OF assms(1)] path_string_eq_root[OF assms(2)]
    by (auto simp: path_string_def)
next
  case False
  then show ?thesis using split_path_string assms by metis
qed

text \<open>A string path below another is the same as a component list below another.\<close>

lemma path_string_below:
  assumes "\<forall>c\<in>set cs. valid_component c" and "\<forall>c\<in>set ws. valid_component c" and "ws \<noteq> []"
  shows "(\<exists>rest. path_string cs = path_string ws @ slash # rest) \<longleftrightarrow> (\<exists>ds. ds \<noteq> [] \<and> cs = ws @ ds)"
proof
  assume "\<exists>rest. path_string cs = path_string ws @ slash # rest"
  then obtain rest where eq: "join_slash cs = join_slash ws @ slash # rest"
    by (auto simp: path_string_def)
  then have "cs \<noteq> []" by auto
  then have "cs = split_char slash (join_slash ws) @ split_char slash rest"
    using split_path_string[of cs] assms(1) by (simp add: path_string_def eq split_char_app)
  also have "split_char slash (join_slash ws) = ws"
    using split_path_string[of ws] assms(2,3) by (simp add: path_string_def)
  finally show "\<exists>ds. ds \<noteq> [] \<and> cs = ws @ ds"
    using split_char_not_Nil[of slash rest] by blast
next
  assume "\<exists>ds. ds \<noteq> [] \<and> cs = ws @ ds"
  with assms(3) show "\<exists>rest. path_string cs = path_string ws @ slash # rest"
    by (auto simp: path_string_def join_append)
qed

lemma child_path_string:
  "\<forall>c\<in>set cs. valid_component c \<Longrightarrow> child_path (path_string cs) n = path_string (cs @ [n])"
  by (auto simp: child_path_def path_string_eq_root path_string_snoc)

lemma rfind_path_snoc:
  assumes "valid_component n"
  shows "rfind slash (path_string (cs @ [n])) = Some (if cs = [] then 0 else length (path_string cs))"
proof -
  have "slash \<notin> set n" using assms by (simp add: valid_component_def)
  then show ?thesis
    using rfind_append[of slash n "[]"] rfind_append[of slash n "path_string cs"]
    by (simp only: path_string_snoc) simp
qed

lemma take_path_snoc: "cs \<noteq> [] \<Longrightarrow> take (length (path_string cs)) (path_string (cs @ [n])) = path_string cs"
  by (simp add: path_string_snoc)

lemma length_path_string: "0 < length (path_string cs)"
  by (simp add: path_string_def)

lemma watch_parent_snoc:
  assumes "valid_component n"
  shows "watch_parent_of_path (path_string (cs @ [n])) = path_string cs"
proof (cases "cs = []")
  case True
  then show ?thesis
    using rfind_path_snoc[OF assms, of cs] by (simp add: watch_parent_of_path_def path_string_def)
next
  case False
  obtain k where k: "length (path_string cs) = Suc k" by (cases "path_string cs") (auto simp: path_string_def)
  with False show ?thesis
    using rfind_path_snoc[OF assms, of cs] take_path_snoc[of cs n]
    by (simp add: watch_parent_of_path_def)
qed

lemma adapter_parent_snoc:
  assumes "\<forall>c\<in>set cs. valid_component c" and "valid_component n"
  shows "adapter_parent_of_path (path_string (cs @ [n])) = Some (path_string cs)"
proof -
  have "path_string (cs @ [n]) \<noteq> ''/''" using assms by (subst path_string_eq_root) auto
  then have "adapter_parent_of_path (path_string (cs @ [n]))
      = Some (watch_parent_of_path (path_string (cs @ [n])))"
    using rfind_path_snoc[OF assms(2), of cs]
    by (simp add: adapter_parent_of_path_def watch_parent_of_path_def split: nat.split)
  then show ?thesis using assms(2) by (simp add: watch_parent_snoc)
qed

text \<open>
  For canonical paths the adapter's two path
  helpers are inverse, and agree with the helper of the watch module: the path built for a
  name under a directory has that directory as its parent.
\<close>

theorem parent_of_child_path:
  assumes "\<forall>c\<in>set cs. valid_component c" and "valid_component n"
  shows "adapter_parent_of_path (child_path (path_string cs) n) = Some (path_string cs)
    \<and> watch_parent_of_path (child_path (path_string cs) n) = path_string cs"
  using assms by (simp add: child_path_string watch_parent_snoc adapter_parent_snoc)

theorem parent_of_child_path_witness:
  "adapter_parent_of_path (child_path (path_string [''a'']) ''b'') = Some ''/a''"
proof -
  have "\<forall>c\<in>set [''a'']. valid_component c" and "valid_component ''b''"
    by (simp_all add: valid_component_def NAME_MAX_def)
  from parent_of_child_path[OF this] show ?thesis by (simp add: path_string_def)
qed

text \<open>
  C37 (parse_path): a string parses to a list of components exactly when it is at most
  4096 bytes long, every component is well formed (non-empty, not a dot entry, without NUL
  or slash, at most 255 bytes), and the string is the slash-joined absolute path of the
  components, with one optional trailing slash unless it is the root.
\<close>

theorem parse_path_iff:
  "parse_path p = Inr cs \<longleftrightarrow>
     length p \<le> PATH_MAX \<and> (\<forall>c\<in>set cs. valid_component c) \<and>
     (p = path_string cs \<or> cs \<noteq> [] \<and> p = path_string cs @ ''/'')"
  by (rule parse_path_char)

theorem parse_path_iff_witness:
  "parse_path ''/a/bc/'' = Inr [''a'', ''bc''] \<and> parse_path ''/a/../b'' \<noteq> Inr [''a'', ''b'']"
  using parse_path_iff[of "''/a/bc/''" "[''a'', ''bc'']"] parse_path_iff[of "''/a/../b''" "[''a'', ''b'']"]
  by (simp add: path_string_def valid_component_def PATH_MAX_def NAME_MAX_def)

end
