(* ===== verification/Fs_Fdtable.thy ===== *)
theory Fs_Fdtable
  imports Fs_Types
begin

text \<open>
  The table of open file descriptors: \<open>fdtable.rs\<close>.  The hash map is an association list with
  distinct keys; \<open>next_fd\<close> is a \<open>u64\<close> that wraps.  The locale \<open>handle_table\<close> states what a
  table that hands out fresh handles promises to its clients; the descriptor table here
  and the watch registry of \<open>Fs_Watch\<close> are its two instances.
\<close>

section \<open>The interface of a table of handles\<close>

locale handle_table =
  fixes lookup :: "'t \<Rightarrow> 'h \<Rightarrow> 'v option"
    and alloc :: "'a \<Rightarrow> 't \<Rightarrow> 'h \<times> 't"
    and entry :: "'h \<Rightarrow> 'a \<Rightarrow> 'v"
    and release :: "'h \<Rightarrow> 't \<Rightarrow> 't"
    and inv :: "'t \<Rightarrow> bool"
    and full :: "'t \<Rightarrow> bool"
  assumes alloc_fresh: "inv t \<Longrightarrow> lookup t (fst (alloc a t)) = None"
    and alloc_lookup: "inv t \<Longrightarrow> lookup (snd (alloc a t)) = (lookup t)(fst (alloc a t) \<mapsto> entry (fst (alloc a t)) a)"
    and release_lookup: "inv t \<Longrightarrow> lookup (release h t) = (lookup t)(h := None)"
    and inv_alloc: "inv t \<Longrightarrow> \<not> full t \<Longrightarrow> inv (snd (alloc a t))"
    and inv_release: "inv t \<Longrightarrow> inv (release h t)"
begin

lemma alloc_keeps: "inv t \<Longrightarrow> lookup t h = Some x \<Longrightarrow> lookup (snd (alloc a t)) h = Some x"
  using alloc_fresh[of t a] by (auto simp: alloc_lookup)

lemma alloc_distinct: "inv t \<Longrightarrow> lookup t h = Some x \<Longrightarrow> fst (alloc a t) \<noteq> h"
  using alloc_fresh by force

lemma alloc_release:
  "inv t \<Longrightarrow> \<not> full t \<Longrightarrow> lookup (release (fst (alloc a t)) (snd (alloc a t))) = lookup t"
  using alloc_fresh[of t a] by (auto simp: release_lookup inv_alloc alloc_lookup)

lemma release_twice: "inv t \<Longrightarrow> lookup (release h (release h t)) h = None"
  by (simp add: release_lookup inv_release)

text \<open>The keys in use after an allocation and after a release.\<close>

lemma alloc_dom: "inv t \<Longrightarrow> dom (lookup (snd (alloc a t))) = insert (fst (alloc a t)) (dom (lookup t))"
  by (simp add: alloc_lookup)

lemma release_dom: "inv t \<Longrightarrow> dom (lookup (release h t)) = dom (lookup t) - {h}"
  by (simp add: release_lookup)

end

section \<open>The descriptor table\<close>

record fd_entry =
  fe_fd :: u64
  fe_inode :: u64
  fe_flags :: u32
  fe_uid :: u32
  fe_gid :: u32
  fe_offset :: u64

record fd_table =
  ft_entries :: "(u64 \<times> fd_entry) list"
  ft_next_fd :: u64

definition fdtable_new :: fd_table where
  "fdtable_new = \<lparr>ft_entries = [], ft_next_fd = 1\<rparr>"

definition fdtable_open :: "u64 \<Rightarrow> u32 \<Rightarrow> u32 \<Rightarrow> u32 \<Rightarrow> fd_table \<Rightarrow> u64 \<times> fd_table" where
  "fdtable_open inode flags uid gid t =
     (let fd = ft_next_fd t;
          e = \<lparr>fe_fd = fd, fe_inode = inode, fe_flags = flags, fe_uid = uid, fe_gid = gid, fe_offset = 0\<rparr>
      in (fd, t\<lparr>ft_next_fd := ft_next_fd t + 1, ft_entries := AList.update fd e (ft_entries t)\<rparr>))"

definition fdtable_get :: "u64 \<Rightarrow> fd_table \<Rightarrow> error + fd_entry" where
  "fdtable_get fd t =
     (case map_of (ft_entries t) fd of None \<Rightarrow> Inl BadFileDescriptor | Some e \<Rightarrow> Inr e)"

text \<open>\<open>get_mut\<close>: the entry, with a function that writes back through the reference.\<close>

definition fdtable_get_mut :: "u64 \<Rightarrow> (fd_entry \<Rightarrow> fd_entry) \<Rightarrow> fd_table \<Rightarrow> error + fd_table" where
  "fdtable_get_mut fd f t =
     (case map_of (ft_entries t) fd of None \<Rightarrow> Inl BadFileDescriptor
      | Some e \<Rightarrow> Inr (t\<lparr>ft_entries := AList.map_entry fd f (ft_entries t)\<rparr>))"

definition fdtable_close :: "u64 \<Rightarrow> fd_table \<Rightarrow> (error + u64) \<times> fd_table" where
  "fdtable_close fd t =
     (case map_of (ft_entries t) fd of
        None \<Rightarrow> (Inl BadFileDescriptor, t)
      | Some e \<Rightarrow> (Inr (fe_inode e), t\<lparr>ft_entries := AList.delete fd (ft_entries t)\<rparr>))"

definition open_count :: "u64 \<Rightarrow> fd_table \<Rightarrow> nat" where
  "open_count inode t = length (filter (\<lambda>e. fe_inode e = inode) (map snd (ft_entries t)))"

definition fds_for_inode :: "u64 \<Rightarrow> fd_table \<Rightarrow> u64 list" where
  "fds_for_inode inode t = map fe_fd (filter (\<lambda>e. fe_inode e = inode) (map snd (ft_entries t)))"

section \<open>Invariant and the interface's laws\<close>

definition fdtable_inv :: "fd_table \<Rightarrow> bool" where
  "fdtable_inv t \<longleftrightarrow> keyed (ft_entries t)
     \<and> (\<forall>(fd, e)\<in>set (ft_entries t). fd < ft_next_fd t \<and> fe_fd e = fd)"

definition fdtable_full :: "fd_table \<Rightarrow> bool" where
  "fdtable_full t \<longleftrightarrow> ft_next_fd t = - 1"

lemma fdtable_inv_new: "fdtable_inv fdtable_new"
  by (simp add: fdtable_inv_def fdtable_new_def)

lemma unat_succ: "x \<noteq> - 1 \<Longrightarrow> unat (x + 1) = Suc (unat x)" for x :: u64
  using unatSuc[of x] by (metis add.commute add_eq_0_iff)

lemma word_less_succ: "x \<noteq> - 1 \<Longrightarrow> (y < x + 1) = (y \<le> x)" for x y :: u64
  by (simp add: word_less_nat_alt word_le_nat_alt unat_succ less_Suc_eq_le)

lemma fdtable_next_fresh: "fdtable_inv t \<Longrightarrow> map_of (ft_entries t) (ft_next_fd t) = None"
  by (force simp: fdtable_inv_def map_of_eq_None_iff)

lemma fdtable_inv_open:
  assumes "fdtable_inv t" and "\<not> fdtable_full t"
  shows "fdtable_inv (snd (fdtable_open inode flags uid gid t))"
proof -
  have "x < ft_next_fd t + 1" if "x \<le> ft_next_fd t" for x
    using that assms(2) by (simp add: word_less_succ fdtable_full_def)
  with assms show ?thesis
    by (auto simp: fdtable_inv_def fdtable_open_def Let_def update_fresh fdtable_next_fresh[OF assms(1)]
        intro: less_imp_le)
qed

lemma fdtable_inv_close: "fdtable_inv t \<Longrightarrow> fdtable_inv (snd (fdtable_close fd t))"
  by (auto simp: fdtable_inv_def fdtable_close_def AList.delete_eq split: option.split)


interpretation fdt: handle_table
  "\<lambda>t. map_of (ft_entries t)"
  "\<lambda>(inode, flags, uid, gid). fdtable_open inode flags uid gid"
  "\<lambda>fd (inode, flags, uid, gid).
     \<lparr>fe_fd = fd, fe_inode = inode, fe_flags = flags, fe_uid = uid, fe_gid = gid, fe_offset = 0\<rparr>"
  "\<lambda>fd t. snd (fdtable_close fd t)" fdtable_inv fdtable_full
proof unfold_locales
  fix t a h assume t: "fdtable_inv t"
  show "map_of (ft_entries t) (fst ((case a of (i, f, u, g) \<Rightarrow> fdtable_open i f u g) t)) = None"
    using fdtable_next_fresh[OF t] by (cases a) (simp add: fdtable_open_def Let_def)
  show "map_of (ft_entries (snd ((case a of (i, f, u, g) \<Rightarrow> fdtable_open i f u g) t)))
      = (map_of (ft_entries t))(fst ((case a of (i, f, u, g) \<Rightarrow> fdtable_open i f u g) t)
          \<mapsto> (case a of (i, f, u, g) \<Rightarrow> \<lparr>fe_fd = fst ((case a of (i, f, u, g) \<Rightarrow> fdtable_open i f u g) t),
              fe_inode = i, fe_flags = f, fe_uid = u, fe_gid = g, fe_offset = 0\<rparr>))"
    by (cases a) (simp add: fdtable_open_def Let_def)
  show "map_of (ft_entries (snd (fdtable_close h t))) = (map_of (ft_entries t))(h := None)"
    by (auto simp: fdtable_close_def split: option.split)
  show "fdtable_inv (snd (fdtable_close h t))" by (rule fdtable_inv_close[OF t])
  show "\<not> fdtable_full t \<Longrightarrow> fdtable_inv (snd ((case a of (i, f, u, g) \<Rightarrow> fdtable_open i f u g) t))"
    using fdtable_inv_open[OF t] by (cases a) simp
qed

section \<open>Counting the descriptors of an inode\<close>

lemma open_count_rows: "open_count i t = count_rows (\<lambda>_ e. fe_inode e = i) (ft_entries t)"
  by (simp add: open_count_def count_rows_def filter_map o_def case_prod_beta')

lemma open_count_open:
  "fdtable_inv t \<Longrightarrow> open_count i (snd (fdtable_open inode flags uid gid t))
    = open_count i t + (if inode = i then 1 else 0)"
  by (simp add: open_count_rows fdtable_open_def Let_def count_rows_insert fdtable_next_fresh)

lemma open_count_close:
  "fdtable_inv t \<Longrightarrow> fdtable_get fd t = Inr e
    \<Longrightarrow> open_count i t = open_count i (snd (fdtable_close fd t)) + (if fe_inode e = i then 1 else 0)"
  using count_rows_delete[of "ft_entries t" fd e "\<lambda>_ e. fe_inode e = i"]
  by (auto simp: open_count_rows fdtable_close_def fdtable_get_def fdtable_inv_def split: option.splits)

lemma open_count_pos: "fdtable_get fd t = Inr e \<Longrightarrow> 0 < open_count (fe_inode e) t"
  by (force simp: open_count_rows fdtable_get_def count_rows_eq_0 simp flip: neq0_conv
      split: option.splits dest: map_of_SomeD)

lemma open_count_0: "keyed (ft_entries t)
    \<Longrightarrow> open_count i t = 0 \<longleftrightarrow> (\<forall>fd e. map_of (ft_entries t) fd = Some e \<longrightarrow> fe_inode e \<noteq> i)"
  by (simp add: open_count_rows count_rows_eq_0)

lemma fdtable_get_Inr: "fdtable_get fd t = Inr e \<longleftrightarrow> map_of (ft_entries t) fd = Some e"
  by (simp add: fdtable_get_def split: option.split)

lemma fds_for_inode_set:
  assumes "fdtable_inv t"
  shows "set (fds_for_inode i t) = {fd. \<exists>e. fdtable_get fd t = Inr e \<and> fe_inode e = i}"
proof -
  have "(fd, e) \<in> set (ft_entries t) \<longleftrightarrow> fdtable_get fd t = Inr e"
    and "(fd, e) \<in> set (ft_entries t) \<Longrightarrow> fe_fd e = fd" for fd e
    using assms by (auto simp: fdtable_get_Inr fdtable_inv_def)
  then show ?thesis
    unfolding fds_for_inode_def by (force simp: image_iff)
qed

text \<open>
  (FdTable::open, get, close) while the 64-bit counter has not run out, opening hands out
  a descriptor that was not in use, records the inode and the caller under it, leaves every
  other descriptor as it was, and closing it again gives back the inode and the table as it
  was before; closing it a second time is a bad file descriptor.
\<close>

theorem fdtable_open_close:
  assumes "fdtable_inv t" and "\<not> fdtable_full t"
    and "fdtable_open inode flags uid gid t = (fd, t1)" and "fdtable_close fd t1 = (r, t2)"
  shows "fdtable_get fd t = Inl BadFileDescriptor
    \<and> (\<exists>e. fdtable_get fd t1 = Inr e \<and> fe_inode e = inode \<and> fe_flags e = flags)
    \<and> {fd'. fdtable_get fd' t1 \<noteq> fdtable_get fd' t} = {fd}
    \<and> r = Inr inode
    \<and> (\<forall>fd'. fdtable_get fd' t2 = fdtable_get fd' t)
    \<and> fst (fdtable_close fd t2) = Inl BadFileDescriptor"
proof -
  let ?a = "(inode, flags, uid, gid)"
  have new: "map_of (ft_entries t) fd = None"
    using fdt.alloc_fresh[OF assms(1), of ?a] assms(3) by simp
  have look: "map_of (ft_entries t1) = (map_of (ft_entries t))(fd \<mapsto>
      \<lparr>fe_fd = fd, fe_inode = inode, fe_flags = flags, fe_uid = uid, fe_gid = gid, fe_offset = 0\<rparr>)"
    using fdt.alloc_lookup[OF assms(1), of ?a] assms(3) by simp
  have restored: "map_of (ft_entries t2) = map_of (ft_entries t)"
    using fdt.alloc_release[OF assms(1,2), of ?a] assms(3,4) by simp
  have r: "r = fst (fdtable_close fd t1)" using assms(4) by simp
  show ?thesis
    using new look restored by (auto simp: r fdtable_get_def fdtable_close_def split: option.splits)
qed

theorem fdtable_open_close_witness:
  "fst (fdtable_close 1 (snd (fdtable_open 42 2 1000 1000 fdtable_new))) = Inr 42"
  using fdtable_open_close[OF fdtable_inv_new _ surjective_pairing surjective_pairing, of 42 2 1000 1000]
  by (simp add: fdtable_full_def fdtable_new_def fdtable_open_def Let_def)

end
