(* ===== verification/Fs_Locks.thy ===== *)
theory Fs_Locks
  imports Fs_Types
begin

text \<open>
  The advisory lock manager: \<open>locks.rs\<close>.  Three name spaces of byte-range locks share one
  list of records per inode.  Offsets are \<open>u64\<close>, a length of 0 reaches to the end of the
  file, and sums wrap as in a release build; the lemmas ask that a range's end fits in
  64 bits (\<open>ok_range\<close>), where a debug build does not panic either.  The locale
  \<open>lock_service\<close> states what a name space promises to its clients, and is interpreted on
  all three.
\<close>

section \<open>Records and ranges\<close>

datatype namespace = Posix | Ofd | Flock

record lock_rec =
  lr_namespace :: namespace
  lr_type :: lock_type
  lr_owner :: int
  lr_start :: u64
  lr_length :: u64

definition rec_end :: "lock_rec \<Rightarrow> u64 option" where
  "rec_end r = (if lr_length r = 0 then None else Some (lr_start r + lr_length r))"

definition overlaps :: "u64 \<Rightarrow> u64 option \<Rightarrow> u64 \<Rightarrow> u64 option \<Rightarrow> bool" where
  "overlaps a_start a_end b_start b_end =
     (let no_overlap =
        (if (case a_end of Some ae \<Rightarrow> ae \<le> b_start | None \<Rightarrow> False) then True
         else if (case b_end of Some be \<Rightarrow> be \<le> a_start | None \<Rightarrow> False) then True
         else False)
      in \<not> no_overlap)"

definition rec_overlaps :: "lock_rec \<Rightarrow> u64 \<Rightarrow> u64 \<Rightarrow> bool" where
  "rec_overlaps r start len =
     (let b_end = (if len = 0 then None else Some (start + len))
      in overlaps (lr_start r) (rec_end r) start b_end)"

type_synonym lock_manager = "u64 \<rightharpoonup> lock_rec list"

definition lock_manager_new :: lock_manager where
  "lock_manager_new = Map.empty"

section \<open>Locking and unlocking\<close>

text \<open>What one record becomes when its owner unlocks a range: nothing, itself, or fragments.\<close>

definition unlock_one :: "namespace \<Rightarrow> int \<Rightarrow> u64 \<Rightarrow> u64 \<Rightarrow> lock_rec \<Rightarrow> lock_rec list" where
  "unlock_one ns owner start len r =
     (if lr_namespace r \<noteq> ns \<or> lr_owner r \<noteq> owner then [r]
      else if \<not> rec_overlaps r start len then [r]
      else
        let unlock_end = (if len = 0 then None else Some (start + len));
            r_end = rec_end r
        in (if lr_start r < start then
              (let frag_end = (case r_end of Some e \<Rightarrow> min e start | None \<Rightarrow> start)
               in [r\<lparr>lr_length := frag_end - lr_start r\<rparr>])
            else [])
           @ (case unlock_end of
                None \<Rightarrow> []
              | Some ue \<Rightarrow>
                  (let frag_start_ok = (case r_end of Some e \<Rightarrow> ue < e | None \<Rightarrow> True)
                   in if frag_start_ok then
                        [r\<lparr>lr_start := ue,
                           lr_length := (case r_end of Some e \<Rightarrow> e - ue | None \<Rightarrow> 0)\<rparr>]
                      else [])))"

text \<open>The search for a conflicting record, and for a record of exactly the same range.\<close>

definition conflicts :: "(lock_rec \<Rightarrow> bool) \<Rightarrow> lock_type \<Rightarrow> u64 \<Rightarrow> u64 \<Rightarrow> lock_rec \<Rightarrow> bool" where
  "conflicts is_conflict_candidate new_type start len r =
     (is_conflict_candidate r \<and> rec_overlaps r start len
      \<and> (lr_type r = Exclusive \<or> new_type = Exclusive))"

fun retype_first :: "(lock_rec \<Rightarrow> bool) \<Rightarrow> lock_type \<Rightarrow> lock_rec list \<Rightarrow> lock_rec list option" where
  "retype_first p t [] = None"
| "retype_first p t (r # rs) =
     (if p r then Some (r\<lparr>lr_type := t\<rparr> # rs) else map_option ((#) r) (retype_first p t rs))"

definition namespace_lock ::
  "namespace \<Rightarrow> u64 \<Rightarrow> int \<Rightarrow> lock_op \<Rightarrow> u64 \<Rightarrow> u64 \<Rightarrow> (lock_rec \<Rightarrow> bool)
    \<Rightarrow> lock_manager \<Rightarrow> (error + unit) \<times> lock_manager" where
  "namespace_lock ns inode owner lk_op start len is_conflict_candidate m =
     (let records = (case m inode of Some rs \<Rightarrow> rs | None \<Rightarrow> []) in
      case lk_op of
        LkUnlock \<Rightarrow>
          (let out = concat (map (unlock_one ns owner start len) records)
           in (Inr (), if out = [] then m(inode := None) else m(inode \<mapsto> out)))
      | _ \<Rightarrow>
          (let new_type = (if lk_op = LkExclusive then Exclusive else Shared) in
           if \<exists>r\<in>set records. conflicts is_conflict_candidate new_type start len r
           then (Inl LockConflict, m(inode \<mapsto> records))
           else (case retype_first (\<lambda>r. lr_namespace r = ns \<and> lr_owner r = owner
                     \<and> lr_start r = start \<and> lr_length r = len) new_type records of
                   Some rs \<Rightarrow> (Inr (), m(inode \<mapsto> rs))
                 | None \<Rightarrow> (Inr (), m(inode \<mapsto> records @
                     [\<lparr>lr_namespace = ns, lr_type = new_type, lr_owner = owner,
                       lr_start = start, lr_length = len\<rparr>])))))"

definition posix_lock ::
  "u64 \<Rightarrow> int \<Rightarrow> int \<Rightarrow> lock_op \<Rightarrow> u64 \<Rightarrow> u64 \<Rightarrow> bool \<Rightarrow> lock_manager \<Rightarrow> (error + unit) \<times> lock_manager" where
  "posix_lock inode fd_id pid lk_op start len wait =
     namespace_lock Posix inode pid lk_op start len
       (\<lambda>r. lr_namespace r = Posix \<and> lr_owner r \<noteq> pid)"

definition ofd_lock ::
  "u64 \<Rightarrow> int \<Rightarrow> lock_op \<Rightarrow> u64 \<Rightarrow> u64 \<Rightarrow> bool \<Rightarrow> lock_manager \<Rightarrow> (error + unit) \<times> lock_manager" where
  "ofd_lock inode fd_id lk_op start len wait =
     namespace_lock Ofd inode fd_id lk_op start len
       (\<lambda>r. lr_namespace r = Ofd \<and> lr_owner r \<noteq> fd_id)"

fun flock_lock_op :: "flock_op \<Rightarrow> lock_op" where
  "flock_lock_op FlShared = LkShared"
| "flock_lock_op FlExclusive = LkExclusive"
| "flock_lock_op FlUnlock = LkUnlock"

definition flock :: "u64 \<Rightarrow> int \<Rightarrow> flock_op \<Rightarrow> bool \<Rightarrow> lock_manager \<Rightarrow> (error + unit) \<times> lock_manager" where
  "flock inode fd_id fl_op wait =
     namespace_lock Flock inode fd_id (flock_lock_op fl_op) 0 0
       (\<lambda>r. lr_namespace r = Flock \<and> lr_owner r \<noteq> fd_id)"

section \<open>Queries and release on close\<close>

definition getlk ::
  "namespace \<Rightarrow> u64 \<Rightarrow> u64 \<Rightarrow> u64 \<Rightarrow> (lock_rec \<Rightarrow> bool) \<Rightarrow> lock_manager \<Rightarrow> lock_query option" where
  "getlk ns inode start len owner_filter m =
     (case m inode of
        None \<Rightarrow> None
      | Some records \<Rightarrow>
          map_option (\<lambda>r. \<lparr>lq_type = lr_type r, lq_pid = lr_owner r,
              lq_start = sint (lr_start r), lq_length = sint (lr_length r)\<rparr>)
            (find (\<lambda>r. lr_namespace r = ns \<and> owner_filter r \<and> rec_overlaps r start len) records))"

definition posix_getlk :: "u64 \<Rightarrow> int \<Rightarrow> int \<Rightarrow> u64 \<Rightarrow> u64 \<Rightarrow> lock_manager \<Rightarrow> lock_query option" where
  "posix_getlk inode fd_id pid start len = getlk Posix inode start len (\<lambda>r. lr_owner r \<noteq> pid)"

definition ofd_getlk :: "u64 \<Rightarrow> int \<Rightarrow> u64 \<Rightarrow> u64 \<Rightarrow> lock_manager \<Rightarrow> lock_query option" where
  "ofd_getlk inode fd_id start len = getlk Ofd inode start len (\<lambda>r. lr_owner r \<noteq> fd_id)"

fun released_on_close :: "int \<Rightarrow> int \<Rightarrow> namespace \<Rightarrow> int \<Rightarrow> bool" where
  "released_on_close fd_id pid Posix owner = (owner = pid)"
| "released_on_close fd_id pid Ofd owner = (owner = fd_id)"
| "released_on_close fd_id pid Flock owner = (owner = fd_id)"

definition on_fd_close :: "u64 \<Rightarrow> int \<Rightarrow> int \<Rightarrow> lock_manager \<Rightarrow> lock_manager" where
  "on_fd_close inode fd_id pid m =
     (case m inode of
        None \<Rightarrow> m
      | Some records \<Rightarrow>
          (let rs = filter (\<lambda>r. \<not> released_on_close fd_id pid (lr_namespace r) (lr_owner r)) records
           in if rs = [] then m(inode := None) else m(inode \<mapsto> rs)))"

section \<open>Bytes covered\<close>

definition in_range :: "u64 \<Rightarrow> u64 \<Rightarrow> nat \<Rightarrow> bool" where
  "in_range start len b \<longleftrightarrow> unat start \<le> b \<and> (if len = 0 then True else b < unat start + unat len)"

definition ok_range :: "u64 \<Rightarrow> u64 \<Rightarrow> bool" where
  "ok_range start len \<longleftrightarrow> unat start + unat len < 2 ^ 64"

abbreviation covers :: "lock_rec \<Rightarrow> nat \<Rightarrow> bool" where
  "covers r \<equiv> in_range (lr_start r) (lr_length r)"

abbreviation wf_rec :: "lock_rec \<Rightarrow> bool" where
  "wf_rec r \<equiv> ok_range (lr_start r) (lr_length r)"

lemma unat_add_ok: "ok_range s l \<Longrightarrow> unat (s + l) = unat s + unat l"
  by (simp add: ok_range_def unat_word_ariths)

lemma unat_pos: "(l :: u64) \<noteq> 0 \<Longrightarrow> 0 < unat l"
  by (simp add: unat_gt_0)

lemma rec_overlaps_iff:
  assumes "wf_rec r" and "ok_range s l"
  shows "rec_overlaps r s l \<longleftrightarrow> (\<exists>b. covers r b \<and> in_range s l b)"
proof
  assume "rec_overlaps r s l"
  then have "covers r (max (unat (lr_start r)) (unat s)) \<and> in_range s l (max (unat (lr_start r)) (unat s))"
    using assms unat_pos
    by (auto simp: rec_overlaps_def overlaps_def rec_end_def in_range_def Let_def word_le_nat_alt
        unat_add_ok split: if_splits)
  then show "\<exists>b. covers r b \<and> in_range s l b" by blast
next
  assume "\<exists>b. covers r b \<and> in_range s l b"
  then show "rec_overlaps r s l"
    using assms
    by (auto simp: rec_overlaps_def overlaps_def rec_end_def in_range_def Let_def word_le_nat_alt
        unat_add_ok split: if_splits)
qed

lemma unlock_one_frame:
  "x \<in> set (unlock_one ns owner s l r)
    \<Longrightarrow> lr_namespace x = lr_namespace r \<and> lr_owner x = lr_owner r \<and> lr_type x = lr_type r"
  by (auto simp: unlock_one_def Let_def split: if_splits option.splits)


lemma rec_overlaps_nat:
  assumes "wf_rec r" and "ok_range s l"
  shows "rec_overlaps r s l \<longleftrightarrow>
     (lr_length r = 0 \<or> unat s < unat (lr_start r) + unat (lr_length r))
     \<and> (l = 0 \<or> unat (lr_start r) < unat s + unat l)"
  using assms
  by (auto simp: rec_overlaps_def overlaps_def rec_end_def Let_def word_le_nat_alt unat_add_ok
      split: if_splits)

text \<open>The two fragments of an unlocked record, on natural numbers.\<close>

lemma left_fragment:
  assumes "wf_rec r" and "ok_range s l" and "rec_overlaps r s l" and "lr_start r < s"
  defines "fe \<equiv> (case rec_end r of Some e \<Rightarrow> min e s | None \<Rightarrow> s)"
  shows "unat (fe - lr_start r) = unat s - unat (lr_start r)" and "fe - lr_start r \<noteq> 0"
proof -
  have fe: "fe = s"
    using assms by (auto simp: rec_end_def rec_overlaps_nat min_def word_le_nat_alt unat_add_ok
        split: if_splits)
  then show 1: "unat (fe - lr_start r) = unat s - unat (lr_start r)"
    using assms(4) by (simp add: unat_sub)
  show "fe - lr_start r \<noteq> 0"
    using 1 assms(4) by (auto simp: word_less_nat_alt unat_eq_zero)
qed

lemma right_fragment:
  assumes "wf_rec r" and "ok_range s l" and "l \<noteq> 0"
    and "rec_end r = Some e" and "s + l < e"
  shows "unat (e - (s + l)) = unat (lr_start r) + unat (lr_length r) - (unat s + unat l)"
    and "e - (s + l) \<noteq> 0"
proof -
  have e: "unat e = unat (lr_start r) + unat (lr_length r)"
    using assms(1,4) by (auto simp: rec_end_def unat_add_ok split: if_splits)
  show 1: "unat (e - (s + l)) = unat (lr_start r) + unat (lr_length r) - (unat s + unat l)"
    using assms(2,5) by (simp add: unat_sub e unat_add_ok)
  show "e - (s + l) \<noteq> 0"
    using assms(5) by (metis eq_iff_diff_eq_0 less_irrefl)
qed

lemma unlock_one_covers:
  assumes "wf_rec r" and "ok_range s l" and "lr_namespace r = ns" and "lr_owner r = owner"
  shows "(\<exists>x\<in>set (unlock_one ns owner s l r). covers x b) \<longleftrightarrow> covers r b \<and> \<not> in_range s l b"
proof (cases "rec_overlaps r s l")
  case False
  then show ?thesis
    using assms rec_overlaps_iff[OF assms(1,2)] by (auto simp: unlock_one_def)
next
  case True
  have sl: "unat (s + l) = unat s + unat l" using assms(2) by (simp add: unat_add_ok)
  have re: "rec_end r = Some e \<Longrightarrow> unat e = unat (lr_start r) + unat (lr_length r) \<and> lr_length r \<noteq> 0" for e
    using assms(1) by (auto simp: rec_end_def unat_add_ok split: if_splits)
  show ?thesis
    using assms(3,4) True left_fragment[OF assms(1,2) True] right_fragment[OF assms(1,2)]
      rec_overlaps_nat[OF assms(1,2)] unat_pos[of l]
    by (cases "rec_end r"; cases "l = 0"; cases "lr_start r < s")
      (auto simp: unlock_one_def Let_def in_range_def sl word_less_nat_alt unat_add_ok[OF assms(1)]
        dest!: re simp: rec_end_def split: if_splits)
qed

lemma unlock_one_wf:
  assumes "wf_rec r" and "ok_range s l" and "x \<in> set (unlock_one ns owner s l r)"
  shows "wf_rec x"
proof (cases "rec_overlaps r s l")
  case False
  then show ?thesis using assms by (auto simp: unlock_one_def split: if_splits)
next
  case True
  have sl: "unat (s + l) = unat s + unat l" using assms(2) by (simp add: unat_add_ok)
  show ?thesis
    using assms True left_fragment[OF assms(1,2) True] right_fragment[OF assms(1,2)] unat_bound64[of s]
    by (auto simp: unlock_one_def Let_def ok_range_def sl word_less_nat_alt split: if_splits option.splits)
qed


section \<open>Who holds what\<close>

definition records_of :: "lock_manager \<Rightarrow> u64 \<Rightarrow> lock_rec list" where
  "records_of m inode = (case m inode of Some rs \<Rightarrow> rs | None \<Rightarrow> [])"

definition held :: "lock_manager \<Rightarrow> u64 \<Rightarrow> namespace \<Rightarrow> int \<Rightarrow> lock_type \<Rightarrow> nat \<Rightarrow> bool" where
  "held m inode ns owner t b \<longleftrightarrow>
     (\<exists>r\<in>set (records_of m inode). lr_namespace r = ns \<and> lr_owner r = owner \<and> lr_type r = t \<and> covers r b)"

text \<open>
  The manager's invariant: no empty record lists are kept, ranges do not wrap, and a byte
  that someone holds exclusively in a name space is held by nobody else there.
\<close>

definition exclusion :: "lock_manager \<Rightarrow> bool" where
  "exclusion m \<longleftrightarrow> (\<forall>inode ns o1 o2 t b.
     held m inode ns o1 Exclusive b \<longrightarrow> held m inode ns o2 t b \<longrightarrow> o1 = o2)"

definition locks_inv :: "lock_manager \<Rightarrow> bool" where
  "locks_inv m \<longleftrightarrow> (\<forall>inode. m inode \<noteq> Some []) \<and> (\<forall>inode. \<forall>r\<in>set (records_of m inode). wf_rec r)
     \<and> exclusion m"

lemma records_of_upd: "records_of (m(i \<mapsto> rs)) j = (if j = i then rs else records_of m j)"
  by (simp add: records_of_def)

lemma records_of_None: "records_of (m(i := None)) j = (if j = i then [] else records_of m j)"
  by (simp add: records_of_def)

lemma locks_inv_new: "locks_inv lock_manager_new"
  by (simp add: locks_inv_def lock_manager_new_def records_of_def exclusion_def held_def)

lemma retype_first_None: "retype_first p t rs = None \<longleftrightarrow> (\<forall>r\<in>set rs. \<not> p r)"
  by (induction rs) auto

lemma retype_first_Some:
  "retype_first p t rs = Some rs' \<Longrightarrow> \<exists>a r c. rs = a @ r # c \<and> p r \<and> rs' = a @ r\<lparr>lr_type := t\<rparr> # c"
proof (induction rs arbitrary: rs')
  case (Cons x rs)
  show ?case
  proof (cases "p x")
    case True
    with Cons.prems show ?thesis by (intro exI[of _ "[]"]) auto
  next
    case False
    with Cons.prems obtain rs0 where "retype_first p t rs = Some rs0" and "rs' = x # rs0" by auto
    with Cons.IH obtain a r c where "x # rs = (x # a) @ r # c" "p r" "rs' = (x # a) @ r\<lparr>lr_type := t\<rparr> # c"
      by fastforce
    then show ?thesis by blast
  qed
qed simp

text \<open>The candidate filter all three callers pass.\<close>

abbreviation foreign :: "namespace \<Rightarrow> int \<Rightarrow> lock_rec \<Rightarrow> bool" where
  "foreign ns owner \<equiv> (\<lambda>r. lr_namespace r = ns \<and> lr_owner r \<noteq> owner)"

fun as_op :: "lock_type \<Rightarrow> lock_op" where
  "as_op Shared = LkShared"
| "as_op Exclusive = LkExclusive"

lemma records_unlock:
  "namespace_lock ns ino owner LkUnlock s l c m = (r, m')
    \<Longrightarrow> records_of m' i = (if i = ino then concat (map (unlock_one ns owner s l) (records_of m ino))
        else records_of m i)"
  by (auto simp: namespace_lock_def Let_def records_of_def split: if_splits option.splits)

lemma held_unlock:
  assumes inv: "locks_inv m" and ok: "ok_range s l"
    and run: "namespace_lock ns ino owner LkUnlock s l c m = (r, m')"
  shows "held m' i ns' ow t b \<longleftrightarrow>
    held m i ns' ow t b \<and> \<not> (i = ino \<and> ns' = ns \<and> ow = owner \<and> in_range s l b)"
proof -
  have cov: "(\<exists>x\<in>set (unlock_one ns owner s l r). lr_namespace x = ns' \<and> lr_owner x = ow \<and> lr_type x = t \<and> covers x b)
      \<longleftrightarrow> lr_namespace r = ns' \<and> lr_owner r = ow \<and> lr_type r = t \<and> covers r b
        \<and> \<not> (ns' = ns \<and> ow = owner \<and> in_range s l b)" if "r \<in> set (records_of m ino)" for r
  proof (cases "lr_namespace r = ns \<and> lr_owner r = owner")
    case True
    have "wf_rec r" using inv that by (simp add: locks_inv_def)
    with True unlock_one_covers[OF this ok, of ns owner b] show ?thesis
      by (auto dest: unlock_one_frame)
  next
    case False
    then show ?thesis by (auto simp: unlock_one_def)
  qed
  show ?thesis
  proof (cases "i = ino")
    case True
    with cov show ?thesis by (auto simp: held_def records_unlock[OF run])
  qed (simp add: held_def records_unlock[OF run])
qed

lemma namespace_unlock:
  assumes inv: "locks_inv m" and ok: "ok_range s l"
    and run: "namespace_lock ns ino owner LkUnlock s l c m = (r, m')"
  shows "r = Inr ()" and "locks_inv m'"
proof -
  show "r = Inr ()" using run by (auto simp: namespace_lock_def Let_def)
  have "exclusion m'"
    using inv unfolding exclusion_def locks_inv_def by (simp only: held_unlock[OF inv ok run]) blast
  moreover have "wf_rec x" if x: "x \<in> set (records_of m' i)" for x i
  proof -
    have wf: "\<forall>r\<in>set (records_of m i). wf_rec r" for i using inv by (simp add: locks_inv_def)
    from x show ?thesis
      by (auto simp: records_unlock[OF run] split: if_splits intro: unlock_one_wf[OF _ ok] wf[rule_format])
  qed
  moreover have "m' i \<noteq> Some []" for i
  proof -
    have "\<exists>out. m' = (if out = [] then m(ino := None) else m(ino \<mapsto> out))"
      using run unfolding namespace_lock_def Let_def by (simp only: lock_op.case prod.inject) blast
    with inv show ?thesis by (auto simp: locks_inv_def split: if_splits)
  qed
  ultimately show "locks_inv m'" by (auto simp: locks_inv_def)
qed


lemma lock_refused_iff:
  assumes inv: "locks_inv m" and ok: "ok_range s l" and cand: "c = foreign ns owner"
  shows "fst (namespace_lock ns ino owner (as_op t) s l c m) = Inl LockConflict \<longleftrightarrow>
    (\<exists>o' t' b. o' \<noteq> owner \<and> held m ino ns o' t' b \<and> in_range s l b \<and> max t t' = Exclusive)"
    (is "?R \<longleftrightarrow> ?H")
proof -
  have "?R \<longleftrightarrow> (\<exists>r\<in>set (records_of m ino). conflicts (foreign ns owner) t s l r)"
    unfolding cand
    by (cases t) (auto simp: namespace_lock_def Let_def records_of_def split: option.split)
  also have "\<dots> \<longleftrightarrow> (\<exists>r\<in>set (records_of m ino). foreign ns owner r \<and> (\<exists>b. covers r b \<and> in_range s l b)
      \<and> max t (lr_type r) = Exclusive)"
  proof (rule bex_cong[OF refl])
    fix r assume "r \<in> set (records_of m ino)"
    then have "wf_rec r" using inv by (simp add: locks_inv_def)
    then show "conflicts (foreign ns owner) t s l r \<longleftrightarrow> foreign ns owner r
        \<and> (\<exists>b. covers r b \<and> in_range s l b) \<and> max t (lr_type r) = Exclusive"
      by (auto simp: conflicts_def rec_overlaps_iff[OF _ ok] max_Exclusive_iff)
  qed
  also have "\<dots> \<longleftrightarrow> ?H" unfolding held_def by blast
  finally show ?thesis .
qed

lemma lock_refused_same:
  "locks_inv m \<Longrightarrow> namespace_lock ns ino owner (as_op t) s l c m = (Inl e, m') \<Longrightarrow> m' = m \<and> e = LockConflict"
  by (cases t; cases "m ino")
    (auto simp: namespace_lock_def Let_def split: if_splits option.splits)

lemma lock_granted_records:
  assumes "namespace_lock ns ino owner (as_op t) s l c m = (Inr (), m')"
  shows "\<exists>a r d. (records_of m ino = a @ r # d \<or> records_of m ino = a \<and> d = [])
    \<and> lr_namespace r = ns \<and> lr_owner r = owner \<and> lr_start r = s \<and> lr_length r = l
    \<and> m' = m(ino \<mapsto> a @ r\<lparr>lr_type := t\<rparr> # d)"
proof -
  let ?p = "\<lambda>r. lr_namespace r = ns \<and> lr_owner r = owner \<and> lr_start r = s \<and> lr_length r = l"
  let ?new = "\<lparr>lr_namespace = ns, lr_type = t, lr_owner = owner, lr_start = s, lr_length = l\<rparr>"
  let ?rs = "records_of m ino"
  have m': "m' = (case retype_first ?p t ?rs of Some rs \<Rightarrow> m(ino \<mapsto> rs) | None \<Rightarrow> m(ino \<mapsto> ?rs @ [?new]))"
    using assms by (cases t) (auto simp: namespace_lock_def Let_def records_of_def split: if_splits option.splits)
  show ?thesis
  proof (cases "retype_first ?p t ?rs")
    case None
    with m' show ?thesis by (intro exI[of _ ?rs] exI[of _ ?new] exI[of _ "[]"]) simp
  next
    case (Some rs)
    from retype_first_Some[OF this] obtain a r d where
      "?rs = a @ r # d" "?p r" "rs = a @ r\<lparr>lr_type := t\<rparr> # d" by blast
    with m' Some show ?thesis by (intro exI[of _ a] exI[of _ r] exI[of _ d]) simp
  qed
qed

lemma lock_granted:
  assumes "namespace_lock ns ino owner (as_op t) s l c m = (Inr (), m')"
  shows "in_range s l b \<Longrightarrow> held m' ino ns owner t b"
    and "(i, ns', ow) \<noteq> (ino, ns, owner) \<Longrightarrow> held m' i ns' ow t' b = held m i ns' ow t' b"
    and "held m' ino ns owner t' b \<Longrightarrow> held m ino ns owner t' b \<or> t' = t \<and> in_range s l b"
    and "locks_inv m \<Longrightarrow> ok_range s l \<Longrightarrow> x \<in> set (records_of m' i) \<Longrightarrow> wf_rec x"
    and "m' ino \<noteq> Some []" and "i \<noteq> ino \<Longrightarrow> m' i = m i"
proof -
  from lock_granted_records[OF assms] obtain a r d where
    rs: "records_of m ino = a @ r # d \<or> records_of m ino = a \<and> d = []"
    and r: "lr_namespace r = ns" "lr_owner r = owner" "lr_start r = s" "lr_length r = l"
    and m': "m' = m(ino \<mapsto> a @ r\<lparr>lr_type := t\<rparr> # d)" by blast
  have wf: "locks_inv m \<Longrightarrow> \<forall>r\<in>set (records_of m i). wf_rec r" for i by (simp add: locks_inv_def)
  show "in_range s l b \<Longrightarrow> held m' ino ns owner t b"
    using r by (simp add: held_def m' records_of_upd)
  show "(i, ns', ow) \<noteq> (ino, ns, owner) \<Longrightarrow> held m' i ns' ow t' b = held m i ns' ow t' b"
    using rs r by (auto simp: held_def m' records_of_upd)
  show "held m' ino ns owner t' b \<Longrightarrow> held m ino ns owner t' b \<or> t' = t \<and> in_range s l b"
    using rs r by (auto simp: held_def m' records_of_upd)
  show "locks_inv m \<Longrightarrow> ok_range s l \<Longrightarrow> x \<in> set (records_of m' i) \<Longrightarrow> wf_rec x"
    using rs r wf[of ino] wf[of i] by (auto simp: m' records_of_upd split: if_splits)
  show "m' ino \<noteq> Some []" and "i \<noteq> ino \<Longrightarrow> m' i = m i" by (simp_all add: m')
qed

lemma lock_granted_inv:
  assumes inv: "locks_inv m" and ok: "ok_range s l" and cand: "c = foreign ns owner"
    and run: "namespace_lock ns ino owner (as_op t) s l c m = (Inr (), m')"
  shows "locks_inv m'"
proof -
  have free: "\<not> (o' \<noteq> owner \<and> held m ino ns o' t' b \<and> in_range s l b \<and> max t t' = Exclusive)" for o' t' b
    using lock_refused_iff[OF inv ok cand, of ino t] run by auto
  have old: "held m i n o1 Exclusive b \<Longrightarrow> held m i n o2 t' b \<Longrightarrow> o1 = o2" for i n o1 o2 t' b
    using inv by (auto simp: locks_inv_def exclusion_def)
  have "o1 = o2" if h: "held m' i n o1 Exclusive b" "held m' i n o2 t' b" for i n o1 o2 t' b
  proof (rule ccontr)
    assume ne: "o1 \<noteq> o2"
    have src: "held m i n ow ty b \<or> (i, n, ow) = (ino, ns, owner) \<and> ty = t \<and> in_range s l b"
      if "held m' i n ow ty b" for ow ty
      using that lock_granted(2)[OF run, of i n ow ty b] lock_granted(3)[OF run, of ty b] by auto
    show False
      using src[OF h(1)] src[OF h(2)] ne old[of i n o1 b o2 t'] free[of o1 Exclusive b]
        free[of o2 t' b] by (auto simp: max_Exclusive_iff)
  qed
  then have "exclusion m'" by (auto simp: exclusion_def)
  moreover have "m' i \<noteq> Some []" for i
    using lock_granted(5,6)[OF run] inv by (cases "i = ino") (auto simp: locks_inv_def)
  ultimately show ?thesis
    using lock_granted(4)[OF run inv ok] by (auto simp: locks_inv_def)
qed


section \<open>The interface of a lock name space\<close>

locale lock_service =
  fixes holds :: "'m \<Rightarrow> 'o \<Rightarrow> lock_type \<Rightarrow> nat \<Rightarrow> bool"
    and acquire :: "'o \<Rightarrow> lock_type \<Rightarrow> 'r \<Rightarrow> 'm \<Rightarrow> (error + unit) \<times> 'm"
    and release :: "'o \<Rightarrow> 'r \<Rightarrow> 'm \<Rightarrow> (error + unit) \<times> 'm"
    and member :: "'r \<Rightarrow> nat \<Rightarrow> bool"
    and ok_rg :: "'r \<Rightarrow> bool"
    and inv :: "'m \<Rightarrow> bool"
  assumes exclusive: "inv m \<Longrightarrow> holds m o1 Exclusive b \<Longrightarrow> holds m o2 t b \<Longrightarrow> o1 = o2"
    and acquire_inv: "inv m \<Longrightarrow> ok_rg g \<Longrightarrow> inv (snd (acquire ow t g m))"
    and refused_iff: "inv m \<Longrightarrow> ok_rg g \<Longrightarrow> fst (acquire ow t g m) = Inl LockConflict \<longleftrightarrow>
      (\<exists>o' t' b. o' \<noteq> ow \<and> holds m o' t' b \<and> member g b \<and> max t t' = Exclusive)"
    and refused_same: "inv m \<Longrightarrow> acquire ow t g m = (Inl e, m') \<Longrightarrow> m' = m \<and> e = LockConflict"
    and granted_holds: "acquire ow t g m = (Inr (), m') \<Longrightarrow> member g b \<Longrightarrow> holds m' ow t b"
    and granted_others: "acquire ow t g m = (Inr (), m') \<Longrightarrow> o' \<noteq> ow \<Longrightarrow> holds m' o' t' b = holds m o' t' b"
    and release_ok: "inv m \<Longrightarrow> ok_rg g \<Longrightarrow> fst (release ow g m) = Inr () \<and> inv (snd (release ow g m))"
    and release_holds: "inv m \<Longrightarrow> ok_rg g \<Longrightarrow>
      holds (snd (release ow g m)) o' t b \<longleftrightarrow> holds m o' t b \<and> \<not> (o' = ow \<and> member g b)"
begin

lemma granted_or_refused: "inv m \<Longrightarrow> acquire ow t g m = (r, m') \<Longrightarrow> r = Inr () \<or> r = Inl LockConflict \<and> m' = m"
  using refused_same by (cases r) auto

lemma granted_blocks:
  assumes "inv m" and "ok_rg g" and "acquire ow t g m = (Inr (), m1)"
    and "o' \<noteq> ow" and "ok_rg g'" and "member g b" and "member g' b" and "max t' t = Exclusive"
  shows "acquire o' t' g' m1 = (Inl LockConflict, m1)"
proof -
  have inv1: "inv m1" using acquire_inv[OF assms(1,2)] assms(3) by (metis snd_conv)
  have "holds m1 ow t b" by (rule granted_holds[OF assms(3,6)])
  then have "fst (acquire o' t' g' m1) = Inl LockConflict"
    using assms(4-8)
    by (subst refused_iff[OF inv1 assms(5)]) (intro exI[of _ ow] exI[of _ t] exI[of _ b], auto)
  then show ?thesis using granted_or_refused[OF inv1, of o' t' g'] by (cases "acquire o' t' g' m1") auto
qed

text \<open>Handing a range over: once the holder of an exclusive range releases it, anyone gets it.\<close>

lemma handover:
  assumes "inv m" and "ok_rg g" and "acquire ow Exclusive g m = (Inr (), m1)"
    and "release ow g m1 = (r, m2)"
  shows "fst (acquire o' t g m2) = Inr ()"
proof (rule ccontr)
  have inv1: "inv m1" using acquire_inv[OF assms(1,2)] assms(3) by (metis snd_conv)
  have inv2: "inv m2" using release_ok[OF inv1 assms(2), of ow] assms(4) by (metis snd_conv)
  assume "fst (acquire o' t g m2) \<noteq> Inr ()"
  then have "fst (acquire o' t g m2) = Inl LockConflict"
    using granted_or_refused[OF inv2, of o' t g] by (cases "acquire o' t g m2") auto
  then obtain o'' t'' b where h: "holds m2 o'' t'' b" "member g b"
    by (subst (asm) refused_iff[OF inv2 assms(2)]) blast
  then have "holds m1 o'' t'' b" and ne: "o'' \<noteq> ow"
    using release_holds[OF inv1 assms(2), of ow o'' t'' b] assms(4) by (auto simp del: split_paired_All)
  moreover have "holds m1 ow Exclusive b" by (rule granted_holds[OF assms(3) h(2)])
  ultimately show False using exclusive[OF inv1] by blast
qed

end


section \<open>The three name spaces provide the interface\<close>

definition posix_acquire :: "u64 \<Rightarrow> int \<Rightarrow> bool \<Rightarrow> int \<Rightarrow> lock_type \<Rightarrow> u64 \<times> u64 \<Rightarrow> lock_manager \<Rightarrow> (error + unit) \<times> lock_manager" where
  "posix_acquire inode fd wait pid t g = posix_lock inode fd pid (as_op t) (fst g) (snd g) wait"

definition ofd_acquire :: "u64 \<Rightarrow> bool \<Rightarrow> int \<Rightarrow> lock_type \<Rightarrow> u64 \<times> u64 \<Rightarrow> lock_manager \<Rightarrow> (error + unit) \<times> lock_manager" where
  "ofd_acquire inode wait fd t g = ofd_lock inode fd (as_op t) (fst g) (snd g) wait"

fun as_flock_op :: "lock_type \<Rightarrow> flock_op" where
  "as_flock_op Shared = FlShared"
| "as_flock_op Exclusive = FlExclusive"

lemma flock_lock_as_op [simp]: "flock_lock_op (as_flock_op t) = as_op t"
  by (cases t) auto

lemmas name_space_lock_defs = posix_lock_def ofd_lock_def flock_def posix_acquire_def ofd_acquire_def

lemma snd_lock_inv: "locks_inv m \<Longrightarrow> ok_range s l
    \<Longrightarrow> locks_inv (snd (namespace_lock ns ino owner (as_op t) s l (foreign ns owner) m))"
  using lock_granted_inv[of m s l "foreign ns owner" ns owner ino t]
    lock_refused_same[of m ns ino owner t s l "foreign ns owner"]
  by (cases "namespace_lock ns ino owner (as_op t) s l (foreign ns owner) m";
      cases "fst (namespace_lock ns ino owner (as_op t) s l (foreign ns owner) m)") auto

text \<open>One name space, as \<open>namespace_lock\<close> implements it; the three public entry points follow.\<close>

interpretation nslock: lock_service
  "\<lambda>m. held m inode ns"
  "\<lambda>ow t g. namespace_lock ns inode ow (as_op t) (fst g) (snd g) (foreign ns ow)"
  "\<lambda>ow g. namespace_lock ns inode ow LkUnlock (fst g) (snd g) (foreign ns ow)"
  "\<lambda>g. in_range (fst g) (snd g)" "\<lambda>g. ok_range (fst g) (snd g)" locks_inv
  for inode ns
proof unfold_locales
  fix m m' o1 o2 ow o' t t' b e and g :: "u64 \<times> u64"
  show "locks_inv m \<Longrightarrow> held m inode ns o1 Exclusive b \<Longrightarrow> held m inode ns o2 t b \<Longrightarrow> o1 = o2"
    by (auto simp: locks_inv_def exclusion_def)
  let ?acq = "namespace_lock ns inode ow (as_op t) (fst g) (snd g) (foreign ns ow) m"
  let ?rel = "namespace_lock ns inode ow LkUnlock (fst g) (snd g) (foreign ns ow) m"
  show "locks_inv m \<Longrightarrow> ok_range (fst g) (snd g) \<Longrightarrow> locks_inv (snd ?acq)"
    by (rule snd_lock_inv)
  show "locks_inv m \<Longrightarrow> ok_range (fst g) (snd g) \<Longrightarrow> fst ?acq = Inl LockConflict \<longleftrightarrow>
      (\<exists>o' t' b. o' \<noteq> ow \<and> held m inode ns o' t' b \<and> in_range (fst g) (snd g) b \<and> max t t' = Exclusive)"
    by (rule lock_refused_iff) auto
  show "locks_inv m \<Longrightarrow> ?acq = (Inl e, m') \<Longrightarrow> m' = m \<and> e = LockConflict"
    by (rule lock_refused_same)
  show "?acq = (Inr (), m') \<Longrightarrow> in_range (fst g) (snd g) b \<Longrightarrow> held m' inode ns ow t b"
    by (rule lock_granted(1))
  show "?acq = (Inr (), m') \<Longrightarrow> o' \<noteq> ow \<Longrightarrow> held m' inode ns o' t' b = held m inode ns o' t' b"
    by (rule lock_granted(2)) auto
  show "locks_inv m \<Longrightarrow> ok_range (fst g) (snd g) \<Longrightarrow> fst ?rel = Inr () \<and> locks_inv (snd ?rel)"
    using namespace_unlock(1)[OF _ _ surjective_pairing, of m "fst g" "snd g" ns inode ow]
      namespace_unlock(2)[OF _ _ surjective_pairing, of m "fst g" "snd g" ns inode ow] by blast
  show "locks_inv m \<Longrightarrow> ok_range (fst g) (snd g) \<Longrightarrow>
      held (snd ?rel) inode ns o' t b = (held m inode ns o' t b \<and> \<not> (o' = ow \<and> in_range (fst g) (snd g) b))"
    using held_unlock[OF _ _ surjective_pairing, of m "fst g" "snd g" ns inode ow _ inode ns o' t b]
    by simp
qed

interpretation posix: lock_service
  "\<lambda>m. held m inode Posix" "posix_acquire inode fd wait"
  "\<lambda>pid g. posix_lock inode fd pid LkUnlock (fst g) (snd g) wait"
  "\<lambda>g. in_range (fst g) (snd g)" "\<lambda>g. ok_range (fst g) (snd g)" locks_inv
  for inode fd wait
  using nslock.lock_service_axioms[of inode Posix]
  by (simp add: name_space_lock_defs[abs_def])

interpretation ofd: lock_service
  "\<lambda>m. held m inode Ofd" "ofd_acquire inode wait"
  "\<lambda>fd g. ofd_lock inode fd LkUnlock (fst g) (snd g) wait"
  "\<lambda>g. in_range (fst g) (snd g)" "\<lambda>g. ok_range (fst g) (snd g)" locks_inv
  for inode wait
  using nslock.lock_service_axioms[of inode Ofd]
  by (simp add: name_space_lock_defs[abs_def])


lemma in_range_whole [simp]: "in_range 0 0 b"
  by (simp add: in_range_def)

lemma ok_range_whole [simp]: "ok_range 0 0"
  by (simp add: ok_range_def)

interpretation bsd: lock_service
  "\<lambda>m. held m inode Flock"
  "\<lambda>fd t _. flock inode fd (as_flock_op t) wait"
  "\<lambda>fd _. flock inode fd FlUnlock wait"
  "\<lambda>_ _. True" "\<lambda>_. True" locks_inv
  for inode wait
  apply unfold_locales
  subgoal by (erule (1) nslock.exclusive)
  subgoal for m g ow t using nslock.acquire_inv[of m "(0, 0)" Flock inode ow t] by (simp add: flock_def)
  subgoal for m g ow t using nslock.refused_iff[of m "(0, 0)" Flock inode ow t] by (simp add: flock_def)
  subgoal for m ow t g e m' using nslock.refused_same[of m Flock inode ow t "(0, 0)" e m'] by (simp add: flock_def)
  subgoal for ow t g m m' b using nslock.granted_holds[of Flock inode ow t "(0, 0)" m m' b] by (simp add: flock_def)
  subgoal for ow t g m m' o' t' b
    using nslock.granted_others[of Flock inode ow t "(0, 0)" m m' o' t' b] by (simp add: flock_def)
  subgoal for m g ow using nslock.release_ok[of m "(0, 0)" Flock inode ow] by (simp add: flock_def)
  subgoal for m g ow o' t b using nslock.release_holds[of m "(0, 0)" Flock inode ow o' t b] by (simp add: flock_def)
  done

section \<open>What the lock manager guarantees\<close>

text \<open>
  C30 (LockManager::posix_lock, LkUnlock): unlocking a byte range always succeeds and takes
  away exactly the bytes of the range from exactly the caller's own locks of the name space:
  every other byte, owner, name space and inode keeps what it held, whatever the records were
  split into, and the manager's invariant is kept.
\<close>

theorem posix_unlock_exact:
  assumes "locks_inv m" and "ok_range start len"
    and "posix_lock inode fd pid LkUnlock start len wait m = (r, m')"
  shows "r = Inr () \<and> locks_inv m' \<and>
    held m' i ns ow t b = (if i = inode \<and> ns = Posix \<and> ow = pid \<and> in_range start len b then False
                           else held m i ns ow t b)"
  using assms(3) namespace_unlock[OF assms(1,2)] held_unlock[OF assms(1,2)]
  unfolding posix_lock_def by (metis (no_types, lifting))

text \<open>
  C29 (LockManager::posix_lock): a POSIX lock on a byte range is refused exactly when another
  process holds a byte of the range and one of the two locks is exclusive; a refused request
  changes nothing, a granted one gives the caller every byte of the range, changes no other
  process's locks, and keeps the invariant that exclusively held bytes have one holder.
\<close>

theorem posix_lock_correct:
  assumes "locks_inv m" and "ok_range start len"
    and "posix_lock inode fd pid (as_op t) start len wait m = (r, m')"
  shows "if \<exists>o' t' b. o' \<noteq> pid \<and> held m inode Posix o' t' b \<and> in_range start len b \<and> max t t' = Exclusive
    then r = Inl LockConflict \<and> m' = m
    else r = Inr () \<and> locks_inv m' \<and> {b. in_range start len b} \<subseteq> {b. held m' inode Posix pid t b}
      \<and> (\<forall>i ns o' t' b. (if (i, ns, o') = (inode, Posix, pid) then True else held m' i ns o' t' b = held m i ns o' t' b))"
proof -
  let ?g = "(start, len)"
  have run: "posix_acquire inode fd wait pid t ?g m = (r, m')"
    using assms(3) by (simp add: posix_acquire_def)
  have ref: "r = Inl LockConflict \<longleftrightarrow>
      (\<exists>o' t' b. o' \<noteq> pid \<and> held m inode Posix o' t' b \<and> in_range start len b \<and> max t t' = Exclusive)"
    using posix.refused_iff[OF assms(1), of ?g inode fd wait pid t] assms(2) run by simp
  show ?thesis
  proof (cases "r = Inl LockConflict")
    case True
    then show ?thesis using ref posix.refused_same[OF assms(1), of inode fd wait pid t ?g] run by auto
  next
    case False
    then have r: "r = Inr ()" using posix.granted_or_refused[OF assms(1) run] by auto
    have g: "namespace_lock Posix inode pid (as_op t) start len (foreign Posix pid) m = (Inr (), m')"
      using assms(3) r by (simp add: posix_lock_def)
    show ?thesis
      using False ref r posix.acquire_inv[OF assms(1), of ?g inode fd wait pid t] assms(2) run
        lock_granted(1)[OF g] lock_granted(2)[OF g] by (auto split: if_splits)
  qed
qed

lemma find_SomeD: "find P xs = Some x \<Longrightarrow> x \<in> set xs \<and> P x"
  by (induction xs) (auto split: if_splits)

text \<open>
  C31 (LockManager::posix_getlk): the query reports a lock exactly when an exclusive request
  for the same range would be refused, and what it reports is the type and the owner of a lock
  another process really holds on a byte of the range.
\<close>

theorem posix_getlk_correct:
  assumes "locks_inv m" and "ok_range start len"
  shows "case posix_getlk inode fd pid start len m of
      None \<Rightarrow> fst (posix_lock inode fd pid LkExclusive start len wait m) = Inr ()
    | Some q \<Rightarrow> fst (posix_lock inode fd pid LkExclusive start len wait m) = Inl LockConflict
        \<and> lq_pid q \<noteq> pid \<and> (\<exists>b. in_range start len b \<and> held m inode Posix (lq_pid q) (lq_type q) b)"
proof (cases "posix_getlk inode fd pid start len m")
  case None
  then have "\<not> (\<exists>r\<in>set (records_of m inode). conflicts (foreign Posix pid) Exclusive start len r)"
    by (auto simp: posix_getlk_def getlk_def conflicts_def records_of_def find_None_iff split: option.splits)
  then have "fst (posix_lock inode fd pid LkExclusive start len wait m) = Inr ()"
    by (auto simp: posix_lock_def namespace_lock_def Let_def records_of_def split: option.splits)
  with None show ?thesis by simp
next
  case (Some q)
  then obtain r where r: "r \<in> set (records_of m inode)" "lr_namespace r = Posix" "lr_owner r \<noteq> pid"
      "rec_overlaps r start len" "lq_pid q = lr_owner r" "lq_type q = lr_type r"
    by (auto simp: posix_getlk_def getlk_def records_of_def split: option.splits dest!: find_SomeD)
  then have c: "conflicts (foreign Posix pid) Exclusive start len r" by (simp add: conflicts_def)
  then have "fst (posix_lock inode fd pid LkExclusive start len wait m) = Inl LockConflict"
    using r(1) by (cases "m inode") (auto simp: posix_lock_def namespace_lock_def Let_def records_of_def)
  moreover have "\<exists>b. in_range start len b \<and> held m inode Posix (lq_pid q) (lq_type q) b"
    using r rec_overlaps_iff[OF _ assms(2), of r] assms(1) unfolding held_def locks_inv_def by metis
  ultimately show ?thesis using Some r by simp
qed

lemma held_on_fd_close:
  "held (on_fd_close inode fd pid m) i ns ow t b \<longleftrightarrow>
    held m i ns ow t b \<and> \<not> (i = inode \<and> released_on_close fd pid ns ow)"
  by (auto simp: on_fd_close_def held_def records_of_def Let_def filter_empty_conv split: option.splits if_splits)

lemma locks_inv_on_fd_close: "locks_inv m \<Longrightarrow> locks_inv (on_fd_close inode fd pid m)"
proof -
  assume inv: "locks_inv m"
  have "exclusion (on_fd_close inode fd pid m)"
    using inv by (auto simp: locks_inv_def exclusion_def held_on_fd_close)
  moreover have "set (records_of (on_fd_close inode fd pid m) i) \<subseteq> set (records_of m i)" for i
    by (auto simp: on_fd_close_def records_of_def Let_def split: option.splits if_splits)
  moreover have "on_fd_close inode fd pid m i \<noteq> Some []" for i
    using inv by (auto simp: locks_inv_def on_fd_close_def Let_def split: option.splits)
  ultimately show ?thesis using inv unfolding locks_inv_def by blast
qed

text \<open>
  C34 (LockManager::on_fd_close): closing a descriptor drops exactly the POSIX locks of the
  given process and the OFD and flock locks of the descriptor on that inode.
\<close>

theorem on_fd_close_exact:
  "held (on_fd_close inode fd pid m) i ns ow t b =
     (if i = inode \<and> ow = (case ns of Posix \<Rightarrow> pid | Ofd \<Rightarrow> fd | Flock \<Rightarrow> fd) then False
      else held m i ns ow t b)"
  by (cases ns) (auto simp: held_on_fd_close)


section \<open>Every history of the lock manager\<close>

text \<open>
  One step is one call of a public operation, by any process, on any inode; a range that
  would wrap around 64 bits is the only thing excluded.
\<close>

inductive lock_step :: "lock_manager \<Rightarrow> lock_manager \<Rightarrow> bool" where
  posix_step: "ok_range s l \<Longrightarrow> lock_step m (snd (posix_lock inode fd pid lk_op s l wait m))"
| ofd_step: "ok_range s l \<Longrightarrow> lock_step m (snd (ofd_lock inode fd lk_op s l wait m))"
| flock_step: "lock_step m (snd (flock inode fd fl_op wait m))"
| close_step: "lock_step m (on_fd_close inode fd pid m)"

inductive lock_reachable :: "lock_manager \<Rightarrow> bool" where
  lock_start: "lock_reachable lock_manager_new"
| lock_next: "lock_reachable m \<Longrightarrow> lock_step m m' \<Longrightarrow> lock_reachable m'"

inductive_cases lock_stepE: "lock_step m m'"

lemma namespace_lock_inv:
  "locks_inv m \<Longrightarrow> ok_range s l
    \<Longrightarrow> locks_inv (snd (namespace_lock ns inode ow lk_op s l (foreign ns ow) m))"
  using snd_lock_inv[of m s l ns inode ow Shared] snd_lock_inv[of m s l ns inode ow Exclusive]
    namespace_unlock(2)[OF _ _ surjective_pairing, of m s l ns inode ow]
  by (cases lk_op) auto

lemma lock_step_inv: "lock_step m m' \<Longrightarrow> locks_inv m \<Longrightarrow> locks_inv m'"
  by (erule lock_stepE)
    (simp_all add: posix_lock_def ofd_lock_def flock_def namespace_lock_inv locks_inv_on_fd_close)

lemma lock_reachable_inv: "lock_reachable m \<Longrightarrow> locks_inv m"
  by (induction rule: lock_reachable.induct) (auto intro: locks_inv_new lock_step_inv)

text \<open>
  C28 (LockManager): in every history of lock, unlock and close calls, a byte that somebody
  holds exclusively is held by nobody else in the same name space of the same inode.
\<close>

theorem lock_mutual_exclusion:
  assumes "lock_reachable m" and "held m inode ns o1 Exclusive b" and "held m inode ns o2 t b"
  shows "o1 = o2"
  using lock_reachable_inv[OF assms(1)] assms(2,3) by (auto simp: locks_inv_def exclusion_def)

text \<open>
  C33 (LockManager::flock): after its holder unlocks an exclusive flock, any descriptor gets
  the lock, and until then every other request for it is refused.
\<close>

theorem flock_handover:
  assumes "lock_reachable m" and "flock inode fd FlExclusive wait m = (Inr (), m1)"
    and "flock inode fd FlUnlock wait m1 = (r, m2)"
  shows "fst (flock inode fd' (as_flock_op t) wait m2) = Inr ()
    \<and> (if fd' = fd then True else flock inode fd' (as_flock_op t) wait m1 = (Inl LockConflict, m1))"
proof -
  have inv: "locks_inv m" by (rule lock_reachable_inv[OF assms(1)])
  have acq: "flock inode fd (as_flock_op Exclusive) wait m = (Inr (), m1)" using assms(2) by simp
  have max: "max t Exclusive = Exclusive" by (simp add: max_Exclusive_iff)
  show ?thesis
    using bsd.handover[OF inv _ acq assms(3)] bsd.granted_blocks[OF inv _ acq _ _ _ _ max] by auto
qed

section \<open>Concrete histories\<close>

definition demo_locks :: lock_manager where
  "demo_locks = snd (posix_lock 1 10 100 LkExclusive 0 100 False lock_manager_new)"

lemma demo_locks_eq: "demo_locks =
    [1 \<mapsto> [\<lparr>lr_namespace = Posix, lr_type = Exclusive, lr_owner = 100, lr_start = 0, lr_length = 100\<rparr>]]"
  by (simp add: demo_locks_def posix_lock_def namespace_lock_def lock_manager_new_def)

lemma demo_locks_reachable: "lock_reachable demo_locks"
  unfolding demo_locks_def
  by (rule lock_next[OF lock_start]) (rule posix_step, simp add: ok_range_def)

lemma held_demo: "held demo_locks 1 Posix o' t b \<longleftrightarrow> o' = 100 \<and> t = Exclusive \<and> b < 100"
  by (auto simp: demo_locks_eq held_def records_of_def in_range_def)

theorem posix_unlock_exact_witness:
  "\<not> held (snd (posix_lock 1 10 100 LkUnlock 40 20 False demo_locks)) 1 Posix 100 Exclusive 50
    \<and> held (snd (posix_lock 1 10 100 LkUnlock 40 20 False demo_locks)) 1 Posix 100 Exclusive 39"
proof -
  have "ok_range 40 20" by (simp add: ok_range_def)
  note u = posix_unlock_exact[OF lock_reachable_inv[OF demo_locks_reachable] this surjective_pairing,
      where inode = 1 and fd = 10 and pid = 100 and wait = False
        and i = 1 and ns = Posix and ow = 100 and t = Exclusive]
  show ?thesis using u[where b = 50] u[where b = 39] by (simp add: held_demo in_range_def)
qed

theorem posix_lock_correct_witness:
  "posix_lock 1 11 200 (as_op Shared) 99 1 False demo_locks = (Inl LockConflict, demo_locks)"
proof -
  have ok: "ok_range 99 1" by (simp add: ok_range_def)
  have "\<exists>o' t' b. o' \<noteq> 200 \<and> held demo_locks 1 Posix o' t' b \<and> in_range 99 1 b \<and> max Shared t' = Exclusive"
    by (intro exI[of _ 100] exI[of _ Exclusive] exI[of _ 99]) (simp add: held_demo in_range_def max_Exclusive_iff)
  then show ?thesis
    using posix_lock_correct[OF lock_reachable_inv[OF demo_locks_reachable] ok surjective_pairing,
        where inode = 1 and fd = 11 and pid = 200 and t = Shared and wait = False]
    by (simp add: prod_eq_iff)
qed

theorem posix_getlk_correct_witness:
  "posix_getlk 1 11 200 50 0 demo_locks \<noteq> None"
proof -
  have "fst (posix_lock 1 11 200 LkExclusive 50 0 False demo_locks) = Inl LockConflict"
    by (simp add: posix_lock_def namespace_lock_def demo_locks_eq conflicts_def
        rec_overlaps_def overlaps_def rec_end_def)
  then show ?thesis
    using posix_getlk_correct[OF lock_reachable_inv[OF demo_locks_reachable], of 50 0 1 11 200 False]
    by (cases "posix_getlk 1 11 200 50 0 demo_locks") (simp_all add: ok_range_def)
qed

theorem lock_mutual_exclusion_witness:
  "held demo_locks 1 Posix 100 Exclusive 7 \<and> (100 :: int) = 100"
  using lock_mutual_exclusion[OF demo_locks_reachable, of 1 Posix 100 7 100 Exclusive]
  by (simp add: held_demo)

theorem flock_handover_witness:
  "fst (flock 1 11 (as_flock_op Shared) False
      (snd (flock 1 10 FlUnlock False (snd (flock 1 10 FlExclusive False demo_locks))))) = Inr ()"
proof -
  have "fst (flock 1 10 FlExclusive False demo_locks) = Inr ()"
    by (simp add: flock_def namespace_lock_def demo_locks_eq conflicts_def)
  then have "flock 1 10 FlExclusive False demo_locks = (Inr (), snd (flock 1 10 FlExclusive False demo_locks))"
    by (simp add: prod_eq_iff)
  from flock_handover[OF demo_locks_reachable this surjective_pairing, of 11 Shared]
  show ?thesis by simp
qed

text \<open>
  What the record table does not do: a process that asks for a shared lock on part of a range
  it holds exclusively gets a second record, and still holds the part exclusively.
\<close>

lemma partial_downgrade_keeps_exclusive:
  "fst (posix_lock 1 10 100 LkShared 0 50 False demo_locks) = Inr ()
    \<and> held (snd (posix_lock 1 10 100 LkShared 0 50 False demo_locks)) 1 Posix 100 Exclusive 10"
  by (auto simp: posix_lock_def namespace_lock_def demo_locks_eq conflicts_def held_def records_of_def in_range_def)

end
