(* ===== verification/Fs_Watch.thy ===== *)
theory Fs_Watch
  imports Fs_Paths Fs_Fdtable "HOL-Library.Sublist"
begin

text \<open>
  Directory watching: \<open>watch.rs\<close>.  A subscription is a slot of the registry with an unbounded
  channel; the channel's queue is kept with the slot, and a \<open>Watcher\<close> is the slot's
  identifier.  The locale \<open>event_channel\<close> is the interface of a channel; the registry also
  provides \<open>handle_table\<close>.  A \<open>recv\<close> that waits returns no answer here; the mutex is not modelled.
\<close>

section \<open>Matching events to subscriptions\<close>

record watch_slot =
  ws_id :: u64
  ws_path :: string
  ws_recursive :: bool
  ws_queue :: "event list"

record watch_registry =
  wr_next_id :: u64
  wr_slots :: "watch_slot list"

definition starts_with :: "string \<Rightarrow> string \<Rightarrow> bool" where
  "starts_with s p \<longleftrightarrow> take (length p) s = p"

definition path_matches :: "string \<Rightarrow> string \<Rightarrow> bool \<Rightarrow> bool" where
  "path_matches event_path watched recursive =
     (let parent = watch_parent_of_path event_path in
      if recursive then
        starts_with event_path watched
        \<and> (length event_path = length watched
           \<or> (length watched < length event_path \<and> event_path ! length watched = slash)
           \<or> watched = ''/'')
        \<and> event_path \<noteq> watched
      else parent = watched)"

definition event_paths :: "event \<Rightarrow> string list" where
  "event_paths ev =
     (if ev_kind ev = Move then
        (let v = (case ev_src_path ev of Some s \<Rightarrow> [s] | None \<Rightarrow> [])
               @ (case ev_dst_path ev of Some s \<Rightarrow> [s] | None \<Rightarrow> [])
         in if v = [] then [ev_path ev] else v)
      else [ev_path ev])"

definition matches_slot :: "watch_slot \<Rightarrow> event \<Rightarrow> bool" where
  "matches_slot slot ev =
     list_ex (\<lambda>p. path_matches p (ws_path slot) (ws_recursive slot)) (event_paths ev)"

section \<open>The registry\<close>

definition watch_registry_new :: watch_registry where
  "watch_registry_new = \<lparr>wr_next_id = 1, wr_slots = []\<rparr>"

definition subscribe :: "string \<Rightarrow> bool \<Rightarrow> watch_registry \<Rightarrow> u64 \<times> watch_registry" where
  "subscribe path recursive reg =
     (let sid = wr_next_id reg in
      (sid, reg\<lparr>wr_next_id := wr_next_id reg + 1,
               wr_slots := wr_slots reg @
                 [\<lparr>ws_id = sid, ws_path = path, ws_recursive = recursive, ws_queue = []\<rparr>]\<rparr>))"

definition watch_emit :: "event \<Rightarrow> watch_registry \<Rightarrow> watch_registry" where
  "watch_emit ev reg =
     reg\<lparr>wr_slots := map (\<lambda>slot. if \<not> matches_slot slot ev then slot
                              else slot\<lparr>ws_queue := ws_queue slot @ [ev]\<rparr>) (wr_slots reg)\<rparr>"

text \<open>\<open>Watcher::try_recv\<close> and \<open>Drop for Watcher\<close>.\<close>

definition slot_of :: "watch_registry \<Rightarrow> u64 \<Rightarrow> watch_slot option" where
  "slot_of reg sid = map_of (map (\<lambda>s. (ws_id s, s)) (wr_slots reg)) sid"

definition watcher_try_recv :: "u64 \<Rightarrow> watch_registry \<Rightarrow> event option \<times> watch_registry" where
  "watcher_try_recv sid reg =
     (case slot_of reg sid of
        None \<Rightarrow> (None, reg)
      | Some s \<Rightarrow> (case ws_queue s of
            [] \<Rightarrow> (None, reg)
          | ev # q \<Rightarrow> (Some ev, reg\<lparr>wr_slots :=
              map (\<lambda>s. if ws_id s = sid then s\<lparr>ws_queue := q\<rparr> else s) (wr_slots reg)\<rparr>)))"

text \<open>
  \<open>Watcher::recv\<close>: the next event, \<open>Some None\<close> when the sender is gone, \<open>None\<close> while it waits.  The sender is
  part of the slot, so it goes with the slot.
\<close>

definition watcher_recv :: "u64 \<Rightarrow> watch_registry \<Rightarrow> event option option \<times> watch_registry" where
  "watcher_recv sid reg =
     (case slot_of reg sid of
        None \<Rightarrow> (Some None, reg)
      | Some s \<Rightarrow> if ws_queue s = [] then (None, reg)
          else (case watcher_try_recv sid reg of (ev, reg') \<Rightarrow> (Some ev, reg')))"

definition watcher_drop :: "u64 \<Rightarrow> watch_registry \<Rightarrow> watch_registry" where
  "watcher_drop sid reg = reg\<lparr>wr_slots := filter (\<lambda>s. ws_id s \<noteq> sid) (wr_slots reg)\<rparr>"

section \<open>Which paths match\<close>

lemma starts_with_slash:
  "starts_with s p \<and> length p < length s \<and> s ! length p = slash \<longleftrightarrow> (\<exists>rest. s = p @ slash # rest)"
proof
  assume "starts_with s p \<and> length p < length s \<and> s ! length p = slash"
  then have "s = p @ slash # drop (Suc (length p)) s"
    using id_take_nth_drop[of "length p" s] by (simp add: starts_with_def)
  then show "\<exists>rest. s = p @ slash # rest" by blast
qed (auto simp: starts_with_def)

lemma starts_with_same_length: "starts_with s p \<Longrightarrow> length s = length p \<Longrightarrow> s = p"
  by (simp add: starts_with_def)

lemma path_matches_recursive:
  assumes "\<forall>c\<in>set cs. valid_component c" and "\<forall>c\<in>set ws. valid_component c"
  shows "path_matches (path_string cs) (path_string ws) True \<longleftrightarrow> strict_prefix ws cs"
proof (cases "ws = []")
  case True
  then show ?thesis
    using path_string_inj[OF assms]
    by (cases cs) (auto simp: path_matches_def starts_with_def path_string_def)
next
  case False
  then have "path_string ws \<noteq> ''/''" using path_string_eq_root[OF assms(2)] by simp
  then have "path_matches (path_string cs) (path_string ws) True \<longleftrightarrow>
      (\<exists>rest. path_string cs = path_string ws @ slash # rest)"
    using starts_with_slash[of "path_string cs" "path_string ws"]
      starts_with_same_length[of "path_string cs" "path_string ws"]
    by (auto simp: path_matches_def)
  also have "\<dots> \<longleftrightarrow> strict_prefix ws cs"
    using path_string_below[OF assms False] by (auto simp: strict_prefix_def prefix_def)
  finally show ?thesis .
qed

lemma watch_parent_butlast:
  assumes "\<forall>c\<in>set cs. valid_component c"
  shows "watch_parent_of_path (path_string cs) = path_string (butlast cs)"
proof (cases cs rule: rev_cases)
  case Nil
  then show ?thesis by (simp add: watch_parent_of_path_def path_string_def)
next
  case (snoc ds d)
  with assms show ?thesis by (simp add: watch_parent_snoc)
qed

text \<open>
  C39 (path_matches): between canonical paths, a recursive watch matches exactly the paths
  strictly below the watched directory, and a plain watch exactly the paths whose parent
  directory is the watched one (the root counting as its own parent); a path that merely
  begins with the same letters does not match.
\<close>

theorem path_matches_correct:
  assumes "\<forall>c\<in>set cs. valid_component c" and "\<forall>c\<in>set ws. valid_component c"
  shows "path_matches (path_string cs) (path_string ws) recursive =
    (if recursive then strict_prefix ws cs else butlast cs = ws)"
proof (cases recursive)
  case True
  then show ?thesis using path_matches_recursive[OF assms] by simp
next
  case False
  have "\<forall>c\<in>set (butlast cs). valid_component c" using assms(1) by (meson in_set_butlastD)
  then show ?thesis
    using False watch_parent_butlast[OF assms(1)] path_string_inj[OF _ assms(2)]
    by (simp add: path_matches_def)
qed

theorem path_matches_correct_witness:
  "path_matches ''/data/sub/x'' ''/data'' True \<and> \<not> path_matches ''/database'' ''/data'' True"
proof -
  have v: "\<forall>c\<in>set [''data'', ''sub'', ''x'']. valid_component c" "\<forall>c\<in>set [''data'']. valid_component c"
    "\<forall>c\<in>set [''database'']. valid_component c"
    by (simp_all add: valid_component_def NAME_MAX_def)
  show ?thesis
    using path_matches_correct[OF v(1,2), of True] path_matches_correct[OF v(3,2), of True]
    by (simp add: path_string_def)
qed

text \<open>
  A watched path is kept as it was given; one with a trailing slash, which \<open>parse_path\<close>
  accepts for the same directory, never matches a canonical path.
\<close>

lemma trailing_slash_never_matches:
  assumes "\<forall>c\<in>set cs. valid_component c" and "\<forall>c\<in>set ws. valid_component c" and "ws \<noteq> []"
  shows "\<not> path_matches (path_string cs) (path_string ws @ ''/'') recursive"
proof
  let ?w = "path_string ws @ ''/''"
  assume m: "path_matches (path_string cs) ?w recursive"
  have not_root: "?w \<noteq> ''/''" by (simp add: path_string_def)
  show False
  proof (cases recursive)
    case True
    with m not_root have "\<exists>rest. path_string cs = ?w @ slash # rest"
      using starts_with_slash[of "path_string cs" ?w] starts_with_same_length[of "path_string cs" ?w]
      by (auto simp: path_matches_def)
    then obtain rest where eq: "join_slash cs = join_slash ws @ slash # slash # rest"
      by (auto simp: path_string_def)
    then have "cs = split_char slash (join_slash ws) @ [] # split_char slash rest"
      using split_path_string[of cs] assms(1) split_char_app[of slash "[]" rest]
      by (cases "cs = []") (auto simp: path_string_def split_char_app)
    with assms(1) show False by (auto simp: valid_component_def)
  next
    case False
    with m have "path_string (butlast cs) = ?w"
      using watch_parent_butlast[OF assms(1)] by (simp add: path_matches_def)
    moreover have "\<forall>c\<in>set (butlast cs). valid_component c" using assms(1) by (meson in_set_butlastD)
    ultimately show False
      using valid_last[of "butlast cs"] last_join[of "butlast cs"] not_root join_not_Nil[of "butlast cs"]
      by (cases "butlast cs = []") (auto simp: path_string_def dest!: arg_cong[where f = last])
  qed
qed


section \<open>The interface of an event channel\<close>

locale event_channel =
  fixes queue :: "'r \<Rightarrow> 'e list"
    and send :: "'e \<Rightarrow> 'r \<Rightarrow> 'r"
    and recv :: "'r \<Rightarrow> 'e option \<times> 'r"
    and wanted :: "'e \<Rightarrow> bool"
    and open_ch :: "'r \<Rightarrow> bool"
  assumes queue_send: "open_ch r \<Longrightarrow> queue (send e r) = queue r @ (if wanted e then [e] else [])"
    and open_send: "open_ch r \<Longrightarrow> open_ch (send e r)"
    and recv_empty: "open_ch r \<Longrightarrow> queue r = [] \<Longrightarrow> recv r = (None, r)"
    and recv_head: "open_ch r \<Longrightarrow> queue r = e # q \<Longrightarrow> fst (recv r) = Some e \<and> queue (snd (recv r)) = q"
    and open_recv: "open_ch r \<Longrightarrow> open_ch (snd (recv r))"
begin

primrec send_all :: "'e list \<Rightarrow> 'r \<Rightarrow> 'r" where
  "send_all [] r = r"
| "send_all (e # es) r = send_all es (send e r)"

primrec recv_n :: "nat \<Rightarrow> 'r \<Rightarrow> 'e option list" where
  "recv_n 0 r = []"
| "recv_n (Suc n) r = fst (recv r) # recv_n n (snd (recv r))"

lemma send_all_open: "open_ch r \<Longrightarrow> open_ch (send_all es r)"
  by (induction es arbitrary: r) (auto intro: open_send)

lemma send_all_queue: "open_ch r \<Longrightarrow> queue (send_all es r) = queue r @ filter wanted es"
  by (induction es arbitrary: r) (auto simp: queue_send open_send)

lemma recv_n_queue:
  "open_ch r \<Longrightarrow> recv_n n r = map Some (take n (queue r)) @ replicate (n - length (queue r)) None"
proof (induction n arbitrary: r)
  case (Suc n)
  show ?case
  proof (cases "queue r")
    case Nil
    with Suc show ?thesis by (simp add: recv_empty)
  next
    case (Cons e q)
    with Suc recv_head[OF Suc.prems Cons] show ?thesis by (simp add: open_recv)
  qed
qed simp

lemma fifo: "open_ch r \<Longrightarrow> queue r = [] \<Longrightarrow>
    recv_n (Suc (length (filter wanted es))) (send_all es r) = map Some (filter wanted es) @ [None]"
  by (simp add: recv_n_queue send_all_open send_all_queue del: recv_n.simps)

end

section \<open>The registry provides both interfaces\<close>

definition watch_inv :: "watch_registry \<Rightarrow> bool" where
  "watch_inv reg \<longleftrightarrow> distinct (map ws_id (wr_slots reg)) \<and> (\<forall>s\<in>set (wr_slots reg). ws_id s < wr_next_id reg)"

definition watch_full :: "watch_registry \<Rightarrow> bool" where
  "watch_full reg \<longleftrightarrow> wr_next_id reg = - 1"

lemma watch_inv_new: "watch_inv watch_registry_new"
  by (simp add: watch_inv_def watch_registry_new_def)

lemma slot_of_id: "slot_of reg sid = Some s \<Longrightarrow> ws_id s = sid \<and> s \<in> set (wr_slots reg)"
  by (auto simp: slot_of_def dest!: map_of_SomeD)

lemma slot_of_map:
  assumes "\<And>s. ws_id (f s) = ws_id s"
  shows "slot_of (reg\<lparr>wr_slots := map f (wr_slots reg)\<rparr>) sid = map_option f (slot_of reg sid)"
proof -
  have "map_of (map (\<lambda>s. (ws_id s, s)) (map f ss)) sid
      = map_option f (map_of (map (\<lambda>s. (ws_id s, s)) ss) sid)" for ss
    by (induction ss) (auto simp: assms)
  then show ?thesis by (simp add: slot_of_def)
qed

lemma slot_of_next: "watch_inv reg \<Longrightarrow> slot_of reg (wr_next_id reg) = None"
  by (force simp: slot_of_def watch_inv_def map_of_eq_None_iff)

lemma slot_of_drop: "slot_of (watcher_drop sid reg) sid' = (if sid' = sid then None else slot_of reg sid')"
proof -
  have "map_of (map (\<lambda>s. (ws_id s, s)) (filter (\<lambda>s. ws_id s \<noteq> sid) ss)) sid'
      = (if sid' = sid then None else map_of (map (\<lambda>s. (ws_id s, s)) ss) sid')" for ss
    by (induction ss) auto
  from this[of "wr_slots reg"] show ?thesis by (simp add: slot_of_def watcher_drop_def)
qed

lemma slot_of_subscribe:
  assumes "watch_inv reg"
  shows "slot_of (snd (subscribe path rc reg)) sid = (if sid = wr_next_id reg
      then Some \<lparr>ws_id = sid, ws_path = path, ws_recursive = rc, ws_queue = []\<rparr> else slot_of reg sid)"
  using slot_of_next[OF assms] by (auto simp: slot_of_def subscribe_def Let_def map_add_def split: option.split)

interpretation wreg: handle_table
  slot_of "\<lambda>(path, rc). subscribe path rc"
  "\<lambda>sid (path, rc). \<lparr>ws_id = sid, ws_path = path, ws_recursive = rc, ws_queue = []\<rparr>"
  watcher_drop watch_inv watch_full
proof unfold_locales
  fix t h and a :: "string \<times> bool" assume t: "watch_inv t"
  obtain path rc where a: "a = (path, rc)" by (cases a)
  have fst_a: "fst (subscribe path rc t) = wr_next_id t" by (simp add: subscribe_def Let_def)
  show "slot_of t (fst ((case a of (path, rc) \<Rightarrow> subscribe path rc) t)) = None"
    using slot_of_next[OF t] by (simp add: a fst_a)
  show "slot_of (snd ((case a of (path, rc) \<Rightarrow> subscribe path rc) t)) =
      (slot_of t)(fst ((case a of (path, rc) \<Rightarrow> subscribe path rc) t) \<mapsto>
        (case a of (path, rc) \<Rightarrow> \<lparr>ws_id = fst ((case a of (path, rc) \<Rightarrow> subscribe path rc) t),
           ws_path = path, ws_recursive = rc, ws_queue = []\<rparr>))"
    by (auto simp: a fst_a slot_of_subscribe[OF t] fun_eq_iff)
  show "slot_of (watcher_drop h t) = (slot_of t)(h := None)"
    by (auto simp: slot_of_drop fun_eq_iff)
  show "watch_inv (watcher_drop h t)"
    using t by (auto simp: watch_inv_def watcher_drop_def distinct_map inj_on_def)
  have "x < wr_next_id t + 1" if "\<not> watch_full t" "x \<le> wr_next_id t" for x
    using that by (simp add: watch_full_def word_less_succ)
  then show "\<not> watch_full t \<Longrightarrow> watch_inv (snd ((case a of (path, rc) \<Rightarrow> subscribe path rc) t))"
    using t by (auto simp: a watch_inv_def subscribe_def Let_def intro: less_imp_le)
qed

definition slot_queue :: "u64 \<Rightarrow> watch_registry \<Rightarrow> event list" where
  "slot_queue sid reg = (case slot_of reg sid of Some s \<Rightarrow> ws_queue s | None \<Rightarrow> [])"

definition slot_wants :: "u64 \<Rightarrow> string \<Rightarrow> bool \<Rightarrow> watch_registry \<Rightarrow> bool" where
  "slot_wants sid path rc reg \<longleftrightarrow>
     (case slot_of reg sid of Some s \<Rightarrow> ws_path s = path \<and> ws_recursive s = rc | None \<Rightarrow> False)"

definition wanted_by :: "string \<Rightarrow> bool \<Rightarrow> event \<Rightarrow> bool" where
  "wanted_by path rc ev \<longleftrightarrow> (\<exists>p\<in>set (event_paths ev). path_matches p path rc)"

lemma slot_of_emit: "slot_of (watch_emit ev reg) sid
    = map_option (\<lambda>slot. if \<not> matches_slot slot ev then slot else slot\<lparr>ws_queue := ws_queue slot @ [ev]\<rparr>)
        (slot_of reg sid)"
  unfolding watch_emit_def by (rule slot_of_map) simp

lemma slot_of_recv: "slot_of (snd (watcher_try_recv sid reg)) sid'
    = map_option (\<lambda>s. if sid' = sid then s\<lparr>ws_queue := tl (ws_queue s)\<rparr> else s) (slot_of reg sid')"
proof (cases "slot_of reg sid")
  case None
  then show ?thesis by (cases "slot_of reg sid'") (auto simp: watcher_try_recv_def)
next
  case (Some s)
  have "slot_of (reg\<lparr>wr_slots := map (\<lambda>s. if ws_id s = sid then s\<lparr>ws_queue := q\<rparr> else s) (wr_slots reg)\<rparr>) sid'
      = map_option (\<lambda>s. if ws_id s = sid then s\<lparr>ws_queue := q\<rparr> else s) (slot_of reg sid')" for q
    by (rule slot_of_map) simp
  with Some show ?thesis
    by (cases "ws_queue s"; cases "slot_of reg sid'")
      (auto simp: watcher_try_recv_def option.map_ident dest: slot_of_id)
qed

interpretation chan: event_channel
  "slot_queue sid" watch_emit "watcher_try_recv sid" "wanted_by path rc" "slot_wants sid path rc"
  for sid path rc
proof unfold_locales
  fix r e q assume w: "slot_wants sid path rc r"
  then obtain s where s: "slot_of r sid = Some s" "ws_path s = path" "ws_recursive s = rc"
    by (auto simp: slot_wants_def split: option.splits)
  show "slot_queue sid (watch_emit e r) = slot_queue sid r @ (if wanted_by path rc e then [e] else [])"
    using s by (auto simp: slot_queue_def slot_of_emit matches_slot_def list_ex_iff wanted_by_def)
  show "slot_wants sid path rc (watch_emit e r)"
    using s by (simp add: slot_wants_def slot_of_emit)
  show "slot_wants sid path rc (snd (watcher_try_recv sid r))"
    using s by (simp add: slot_wants_def slot_of_recv)
  show "slot_queue sid r = [] \<Longrightarrow> watcher_try_recv sid r = (None, r)"
    using s by (simp add: slot_queue_def watcher_try_recv_def)
  assume "slot_queue sid r = e # q"
  with s show "fst (watcher_try_recv sid r) = Some e \<and> slot_queue sid (snd (watcher_try_recv sid r)) = q"
    by (simp add: slot_queue_def slot_of_recv) (simp add: watcher_try_recv_def)
qed

text \<open>
  A \<open>Watcher\<close> keeps the registry, and with it its own sender, alive: as long as it is not dropped,
  \<open>recv\<close> waits for an event for ever and never returns \<open>None\<close>.
\<close>

lemma recv_never_none:
  assumes "slot_wants sid path rc reg"
  shows "fst (watcher_recv sid reg) \<noteq> Some None"
    and "fst (watcher_recv sid reg) = None \<longleftrightarrow> slot_queue sid reg = []"
    and "slot_queue sid reg = ev # q \<Longrightarrow> watcher_recv sid reg = (Some (Some ev), snd (watcher_try_recv sid reg))"
  using assms by (auto simp: slot_wants_def slot_queue_def watcher_recv_def watcher_try_recv_def neq_Nil_conv split: option.splits)

text \<open>The results of \<open>n\<close> polls in a row, and a run of emissions.\<close>

primrec try_recv_n :: "u64 \<Rightarrow> nat \<Rightarrow> watch_registry \<Rightarrow> event option list" where
  "try_recv_n sid 0 reg = []"
| "try_recv_n sid (Suc n) reg =
     fst (watcher_try_recv sid reg) # try_recv_n sid n (snd (watcher_try_recv sid reg))"

lemma try_recv_n_chan: "try_recv_n sid n reg = chan.recv_n sid n reg"
  by (induction n arbitrary: reg) auto

lemma emit_all_chan: "fold watch_emit evs reg = chan.send_all evs reg"
  by (induction evs arbitrary: reg) auto

text \<open>
  C40 (WatchRegistry::emit, Watcher::try_recv): a new subscription receives, in the order of
  emission and nothing else, exactly the emitted events one of whose paths it matches; after
  them its channel is empty.
\<close>

theorem watch_fifo:
  assumes "watch_inv reg" and "subscribe path rc reg = (sid, reg1)"
  shows "try_recv_n sid (Suc (length (filter (wanted_by path rc) evs))) (fold watch_emit evs reg1)
    = map Some (filter (wanted_by path rc) evs) @ [None]"
proof -
  have s: "slot_of reg1 sid = Some \<lparr>ws_id = sid, ws_path = path, ws_recursive = rc, ws_queue = []\<rparr>"
    using slot_of_subscribe[OF assms(1), of path rc sid] assms(2) by (auto simp: subscribe_def Let_def)
  show ?thesis
    unfolding try_recv_n_chan emit_all_chan
    by (rule chan.fifo) (simp_all add: s slot_wants_def slot_queue_def)
qed

definition demo_event :: "string \<Rightarrow> event" where
  "demo_event p = \<lparr>ev_kind = Create, ev_path = p, ev_src_path = None, ev_dst_path = None,
     ev_node_kind = File, ev_inode = 1, ev_timestamp_ns = 0\<rparr>"

theorem watch_fifo_witness:
  "try_recv_n 1 2 (fold watch_emit [demo_event ''/d/x'', demo_event ''/e'']
      (snd (subscribe ''/d'' False watch_registry_new))) = [Some (demo_event ''/d/x''), None]"
proof -
  have "filter (wanted_by ''/d'' False) [demo_event ''/d/x'', demo_event ''/e''] = [demo_event ''/d/x'']"
    by (simp add: wanted_by_def event_paths_def demo_event_def path_matches_def watch_parent_of_path_def)
  then show ?thesis
    using watch_fifo[OF watch_inv_new surjective_pairing, of "''/d''" False
        "[demo_event ''/d/x'', demo_event ''/e'']"]
    by (simp add: subscribe_def watch_registry_new_def numeral_2_eq_2 Let_def del: filter.simps fold.simps try_recv_n.simps)
qed

end
