(* ===== verification/Fs_Sql.thy ===== *)
theory Fs_Sql
  imports Fs_Types
begin

text \<open>
  The database: the schema of \<open>schema.rs\<close> as tables, and connections.
  A table is an association list from its primary key to the other columns.  The SQL text
  of the sources is translated, statement by statement, to the operation on the tables that
  it denotes, with the primary keys and foreign keys of the DDL (both ways of opening a
  database turn \<open>foreign_keys\<close> on).  What the engine decides and the SQL does not is
  a parameter, carried by the connection: \<open>c_fault\<close> says which statement, counted by
  \<open>c_tick\<close>, fails with an engine error (disk, lock timeout, a file opened read-only);
  \<open>c_pick\<close> says which row an unordered \<open>LIMIT 1\<close> returns; \<open>c_integrity\<close> is the
  answer of \<open>PRAGMA integrity_check\<close>.  Nothing is assumed of them, so a theorem that
  mentions no \<open>reliable\<close> hypothesis holds for every pattern of failures.
\<close>

section \<open>Tables\<close>

type_synonym inode = u64

record node_cols =
  n_kind :: node_kind
  n_mode :: u32
  n_uid :: u32
  n_gid :: u32
  n_size :: u64
  n_atime_ns :: int
  n_mtime_ns :: int
  n_ctime_ns :: int
  n_nlink :: int

record db =
  t_version :: "(int \<times> int) list"
  t_nodes :: "(inode \<times> node_cols) list"
  t_entries :: "((inode \<times> string) \<times> inode) list"
  t_blobs :: "((inode \<times> u64) \<times> byte list) list"
  t_xattrs :: "((inode \<times> string) \<times> byte list) list"
  t_symlinks :: "(inode \<times> byte list) list"
  t_seq :: int  \<comment> \<open>the AUTOINCREMENT counter of \<open>nodes\<close>\<close>

definition SCHEMA_VERSION :: int where "SCHEMA_VERSION = 2"
definition DEFAULT_CHUNK_SIZE :: int where "DEFAULT_CHUNK_SIZE = 65536"
definition ROOT_INODE :: inode where "ROOT_INODE = 1"
definition MAXSYMLINKS :: u32 where "MAXSYMLINKS = 40"

definition empty_tables :: db where
  "empty_tables = \<lparr>t_version = [], t_nodes = [], t_entries = [], t_blobs = [], t_xattrs = [],
     t_symlinks = [], t_seq = 0\<rparr>"

definition node_of :: "db \<Rightarrow> inode \<Rightarrow> node_cols option" where
  "node_of d = map_of (t_nodes d)"

definition entry_of :: "db \<Rightarrow> inode \<Rightarrow> string \<Rightarrow> inode option" where
  "entry_of d p n = map_of (t_entries d) (p, n)"

definition blob_of :: "db \<Rightarrow> inode \<Rightarrow> u64 \<Rightarrow> byte list option" where
  "blob_of d i c = map_of (t_blobs d) (i, c)"

section \<open>Connections, statements and transactions\<close>

record conn =
  c_db :: db
  c_tick :: nat
  c_fault :: "nat \<Rightarrow> bool"
  c_pick :: "nat \<Rightarrow> nat"
  c_integrity :: "db \<Rightarrow> string"

definition reliable :: "conn \<Rightarrow> bool" where
  "reliable c \<longleftrightarrow> (\<forall>t. \<not> c_fault c t)"

text \<open>A statement: it may fail; a statement that fails has no effect.\<close>

definition stmt :: "(db \<Rightarrow> sqlite_error + 'a \<times> db) \<Rightarrow> (conn, exn, 'a) io" where
  "stmt f c =
     (let c' = c\<lparr>c_tick := Suc (c_tick c)\<rparr> in
      if c_fault c (c_tick c) then (Inl (Fail (Sqlite IoFault)), c')
      else (case f (c_db c) of
              Inl e \<Rightarrow> (Inl (Fail (Sqlite e)), c')
            | Inr (x, d) \<Rightarrow> (Inr x, c'\<lparr>c_db := d\<rparr>)))"

definition query :: "(db \<Rightarrow> 'a) \<Rightarrow> (conn, exn, 'a) io" where
  "query f = stmt (\<lambda>d. Inr (f d, d))"

definition update_db :: "(db \<Rightarrow> db) \<Rightarrow> (conn, exn, unit) io" where
  "update_db f = stmt (\<lambda>d. Inr ((), f d))"

text \<open>\<open>SELECT ... LIMIT 1\<close> without \<open>ORDER BY\<close>: some row of the result, chosen by the engine.\<close>

definition query_limit1 :: "(db \<Rightarrow> 'a list) \<Rightarrow> (conn, exn, 'a option) io" where
  "query_limit1 f c =
     (let c' = c\<lparr>c_tick := Suc (c_tick c)\<rparr>; xs = f (c_db c) in
      if c_fault c (c_tick c) then (Inl (Fail (Sqlite IoFault)), c')
      else (Inr (if xs = [] then None else Some (xs ! (c_pick c (c_tick c) mod length xs))), c'))"

text \<open>
  \<open>conn.transaction()?\<close>, a body, \<open>tx.commit()?\<close>: the transaction object rolls back when it is
  dropped without a commit, on an error and on a panic alike.
\<close>

definition transaction :: "(conn, exn, 'a) io \<Rightarrow> (conn, exn, 'a) io" where
  "transaction body c =
     (case stmt (\<lambda>d. Inr ((), d)) c of
        (Inl e, c1) \<Rightarrow> (Inl e, c1)
      | (Inr _, c1) \<Rightarrow>
          (case body c1 of
             (Inl e, c2) \<Rightarrow> (Inl e, c2\<lparr>c_db := c_db c\<rparr>)
           | (Inr x, c2) \<Rightarrow>
               (case stmt (\<lambda>d. Inr ((), d)) c2 of
                  (Inl e, c3) \<Rightarrow> (Inl e, c3\<lparr>c_db := c_db c\<rparr>)
                | (Inr _, c3) \<Rightarrow> (Inr x, c3))))"

text \<open>
  The rules of the weakest-precondition calculus.  The case of an engine fault has the premise
  that the connection is not reliable, so that one set of rules serves both the theorems about
  every pattern of failures and the ones about a connection without any.
\<close>

lemma reliable_update [simp]:
  "reliable (c\<lparr>c_tick := t\<rparr>) = reliable c" "reliable (c\<lparr>c_db := d\<rparr>) = reliable c"
  by (simp_all add: reliable_def)

lemma conn_update_order [simp]: "c\<lparr>c_db := d, c_tick := t\<rparr> = c\<lparr>c_tick := t, c_db := d\<rparr>"
  by (rule conn.equality) simp_all

lemma fault_unreliable: "c_fault c t \<Longrightarrow> \<not> reliable c"
  by (auto simp: reliable_def)

lemma wp_stmt [wp_rules]:
  assumes "\<And>t. \<not> reliable c \<Longrightarrow> E (Fail (Sqlite IoFault)) (c\<lparr>c_tick := t\<rparr>)"
    and "\<And>t e. f (c_db c) = Inl e \<Longrightarrow> E (Fail (Sqlite e)) (c\<lparr>c_tick := t\<rparr>)"
    and "\<And>t x d. f (c_db c) = Inr (x, d) \<Longrightarrow> Q x (c\<lparr>c_tick := t, c_db := d\<rparr>)"
  shows "wp (stmt f) Q E c"
  using assms by (auto simp: wp_def stmt_def Let_def fault_unreliable split: sum.split)

lemma wp_query [wp_rules]:
  assumes "\<And>t. \<not> reliable c \<Longrightarrow> E (Fail (Sqlite IoFault)) (c\<lparr>c_tick := t\<rparr>)"
    and "\<And>t. Q (f (c_db c)) (c\<lparr>c_tick := t\<rparr>)"
  shows "wp (query f) Q E c"
  using assms by (auto simp: wp_def query_def stmt_def Let_def fault_unreliable)

lemma wp_update_db [wp_rules]:
  assumes "\<And>t. \<not> reliable c \<Longrightarrow> E (Fail (Sqlite IoFault)) (c\<lparr>c_tick := t\<rparr>)"
    and "\<And>t. Q () (c\<lparr>c_tick := t, c_db := f (c_db c)\<rparr>)"
  shows "wp (update_db f) Q E c"
  using assms by (auto simp: wp_def update_db_def stmt_def Let_def fault_unreliable)

lemma nth_mod_in_set: "xs \<noteq> [] \<Longrightarrow> xs ! (k mod length xs) \<in> set xs"
  by (rule nth_mem) simp

lemma wp_query_limit1 [wp_rules]:
  assumes "\<And>t. \<not> reliable c \<Longrightarrow> E (Fail (Sqlite IoFault)) (c\<lparr>c_tick := t\<rparr>)"
    and "\<And>t x. x \<in> set (f (c_db c)) \<Longrightarrow> Q (Some x) (c\<lparr>c_tick := t\<rparr>)"
    and "\<And>t. f (c_db c) = [] \<Longrightarrow> Q None (c\<lparr>c_tick := t\<rparr>)"
  shows "wp (query_limit1 f) Q E c"
  using assms by (auto simp: wp_def query_limit1_def Let_def nth_mod_in_set fault_unreliable)

lemma wp_transaction [wp_rules]:
  assumes "\<And>t. \<not> reliable c \<Longrightarrow> E (Fail (Sqlite IoFault)) (c\<lparr>c_tick := t\<rparr>)"
    and "\<And>t. wp body
      (\<lambda>x c'. (\<forall>t. Q x (c'\<lparr>c_tick := t\<rparr>))
        \<and> (\<not> reliable c' \<longrightarrow> (\<forall>t. E (Fail (Sqlite IoFault)) (c'\<lparr>c_tick := t, c_db := c_db c\<rparr>))))
      (\<lambda>e c'. E e (c'\<lparr>c_db := c_db c\<rparr>)) (c\<lparr>c_tick := t\<rparr>)"
  shows "wp (transaction body) Q E c"
proof (cases "c_fault c (c_tick c)")
  case True
  then show ?thesis
    using assms(1) fault_unreliable[OF True] by (simp add: wp_def transaction_def stmt_def Let_def)
next
  case False
  obtain r c2 where r: "body (c\<lparr>c_tick := Suc (c_tick c)\<rparr>) = (r, c2)" by fastforce
  show ?thesis
    using False wp_run[OF assms(2) r]
    by (cases r) (auto simp: wp_def transaction_def stmt_def Let_def r fault_unreliable)
qed

text \<open>Whatever happens inside, a transaction that returns an error leaves the tables alone.\<close>

lemma transaction_atomic:
  "transaction body c = (Inl e, c') \<Longrightarrow> c_db c' = c_db c"
  by (auto simp: transaction_def stmt_def Let_def split: prod.splits sum.splits if_splits)

text \<open>A connection to given tables that never fails.\<close>

definition connect :: "db \<Rightarrow> conn" where
  "connect d = \<lparr>c_db = d, c_tick = 0, c_fault = (\<lambda>_. False), c_pick = (\<lambda>_. 0),
     c_integrity = (\<lambda>_. ''ok'')\<rparr>"

lemma connect_simps [simp]: "c_db (connect d) = d" "reliable (connect d)"
  by (simp_all add: connect_def reliable_def)

section \<open>schema.rs\<close>

datatype sync_mode = Full | Normal | Off

fun pragma_value :: "sync_mode \<Rightarrow> int" where
  "pragma_value Full = 2"
| "pragma_value Normal = 1"
| "pragma_value Off = 0"

definition default_sync_mode :: sync_mode where
  "default_sync_mode = Normal"

definition load_chunk_size :: "(conn, exn, int) io" where
  "load_chunk_size =
     bindE (query_limit1 (\<lambda>d. map snd (t_version d)))
       (\<lambda>r. case r of None \<Rightarrow> fail (Sqlite NoRows) | Some sz \<Rightarrow> ret sz)"

end
