(* ===== verification/Fs_Nodes.thy ===== *)
theory Fs_Nodes
  imports Fs_Sql
begin

text \<open>
  The node table, \<open>nodes.rs\<close>, and the effects of statements that \<open>entries.rs\<close> shares with it.  Each statement is the effect it has
  on the tables; \<open>add_node\<close>, \<open>map_node\<close>, \<open>del_node\<close>, \<open>add_entry\<close>, \<open>del_entry\<close> and \<open>move_entry\<close>
  name these effects, and the \<open>wp_rules\<close> of this theory reduce the source's functions to them.
  The statements that are no longer than their SQL are followed by what they do to the lookups.
\<close>

section \<open>Effects on the tables\<close>

definition add_node :: "inode \<Rightarrow> node_cols \<Rightarrow> db \<Rightarrow> db" where
  "add_node i n d =
     d\<lparr>t_nodes := AList.update i n (t_nodes d), t_seq := max (t_seq d) (sint i)\<rparr>"

definition map_node :: "inode \<Rightarrow> (node_cols \<Rightarrow> node_cols) \<Rightarrow> db \<Rightarrow> db" where
  "map_node i f d = d\<lparr>t_nodes := AList.map_entry i f (t_nodes d)\<rparr>"

text \<open>\<open>DELETE FROM nodes\<close> with the \<open>ON DELETE CASCADE\<close> clauses of the other tables.\<close>

definition del_node :: "inode \<Rightarrow> db \<Rightarrow> db" where
  "del_node i d = d\<lparr>
     t_nodes := AList.delete i (t_nodes d),
     t_entries := filter (\<lambda>((p, n), c). p \<noteq> i) (t_entries d),
     t_blobs := filter (\<lambda>((j, k), b). j \<noteq> i) (t_blobs d),
     t_xattrs := filter (\<lambda>((j, n), v). j \<noteq> i) (t_xattrs d),
     t_symlinks := AList.delete i (t_symlinks d)\<rparr>"

definition add_entry :: "inode \<Rightarrow> string \<Rightarrow> inode \<Rightarrow> db \<Rightarrow> db" where
  "add_entry p n i d = d\<lparr>t_entries := AList.update (p, n) i (t_entries d)\<rparr>"

definition del_entry :: "inode \<Rightarrow> string \<Rightarrow> db \<Rightarrow> db" where
  "del_entry p n d = d\<lparr>t_entries := AList.delete (p, n) (t_entries d)\<rparr>"

lemma keyed_filter_fst: "map_of (filter (\<lambda>((a, b), v). P a b) t) (x, y)
    = (if P x y then map_of t (x, y) else None)"
  by (induction t) auto

lemma node_of_simps [simp]:
  "node_of (add_node i n d) = (node_of d)(i \<mapsto> n)"
  "node_of (map_node i f d) = (node_of d)(i := map_option f (node_of d i))"
  "node_of (del_node i d) = (node_of d)(i := None)"
  "node_of (add_entry p m j d) = node_of d"
  "node_of (del_entry p m d) = node_of d"
  by (simp_all add: node_of_def add_node_def map_node_def del_node_def add_entry_def del_entry_def)

lemma entry_of_simps [simp]:
  "entry_of (add_node i n d) = entry_of d"
  "entry_of (map_node i f d) = entry_of d"
  "entry_of (del_node i d) = (entry_of d)(i := Map.empty)"
  "entry_of (add_entry p m j d) = (entry_of d)(p := (entry_of d p)(m \<mapsto> j))"
  "entry_of (del_entry p m d) = (entry_of d)(p := (entry_of d p)(m := None))"
  by (auto simp: entry_of_def fun_eq_iff add_node_def map_node_def del_node_def add_entry_def
      del_entry_def keyed_filter_fst)

lemma blob_of_simps [simp]:
  "blob_of (add_node i n d) = blob_of d"
  "blob_of (map_node i f d) = blob_of d"
  "blob_of (del_node i d) = (blob_of d)(i := Map.empty)"
  "blob_of (add_entry p m j d) = blob_of d"
  "blob_of (del_entry p m d) = blob_of d"
  by (auto simp: blob_of_def fun_eq_iff add_node_def map_node_def del_node_def add_entry_def
      del_entry_def keyed_filter_fst)

section \<open>nodes.rs\<close>

record node_row =
  nr_inode :: inode
  nr_kind :: node_kind
  nr_mode :: u32
  nr_uid :: u32
  nr_gid :: u32
  nr_size :: u64
  nr_atime_ns :: int
  nr_mtime_ns :: int
  nr_ctime_ns :: int
  nr_nlink :: u32

text \<open>The closure of \<open>nodes::get\<close>: the row as it is read, the link count cast \<open>as u32\<close>.\<close>

definition node_row :: "inode \<Rightarrow> node_cols \<Rightarrow> node_row" where
  "node_row i n = \<lparr>nr_inode = i, nr_kind = n_kind n, nr_mode = n_mode n, nr_uid = n_uid n,
     nr_gid = n_gid n, nr_size = n_size n, nr_atime_ns = n_atime_ns n, nr_mtime_ns = n_mtime_ns n,
     nr_ctime_ns = n_ctime_ns n, nr_nlink = word_of_int (n_nlink n)\<rparr>"

lemma node_row_simps [simp]:
  "nr_inode (node_row i n) = i" "nr_kind (node_row i n) = n_kind n"
  "nr_mode (node_row i n) = n_mode n" "nr_uid (node_row i n) = n_uid n"
  "nr_gid (node_row i n) = n_gid n" "nr_size (node_row i n) = n_size n"
  "nr_nlink (node_row i n) = word_of_int (n_nlink n)"
  by (simp_all add: node_row_def)

definition fresh_node :: "node_kind \<Rightarrow> u32 \<Rightarrow> u32 \<Rightarrow> u32 \<Rightarrow> int \<Rightarrow> node_cols" where
  "fresh_node kind mode uid gid now_ns = \<lparr>n_kind = kind, n_mode = mode, n_uid = uid, n_gid = gid,
     n_size = 0, n_atime_ns = now_ns, n_mtime_ns = now_ns, n_ctime_ns = now_ns,
     n_nlink = (if kind = Dir then 2 else 1)\<rparr>"

lemma fresh_node_simps [simp]:
  "n_kind (fresh_node k m u g t) = k" "n_mode (fresh_node k m u g t) = m"
  "n_uid (fresh_node k m u g t) = u" "n_gid (fresh_node k m u g t) = g"
  "n_size (fresh_node k m u g t) = 0" "n_nlink (fresh_node k m u g t) = (if k = Dir then 2 else 1)"
  by (simp_all add: fresh_node_def)

text \<open>
  \<open>AUTOINCREMENT\<close> gives a new row the identifier after the largest that was ever in use;
  there is none after the largest \<open>i64\<close>.
\<close>

definition next_inode :: "db \<Rightarrow> inode" where
  "next_inode d = word_of_int (t_seq d + 1)"

definition nodes_insert :: "node_kind \<Rightarrow> u32 \<Rightarrow> u32 \<Rightarrow> u32 \<Rightarrow> int \<Rightarrow> (conn, exn, inode) io" where
  "nodes_insert kind mode uid gid now_ns =
     stmt (\<lambda>d. if t_seq d \<ge> 2 ^ 63 - 1 then Inl DatabaseFull
       else Inr (next_inode d, add_node (next_inode d) (fresh_node kind mode uid gid now_ns) d))"

definition insert_with_inode ::
  "inode \<Rightarrow> node_kind \<Rightarrow> u32 \<Rightarrow> u32 \<Rightarrow> u32 \<Rightarrow> int \<Rightarrow> (conn, exn, unit) io" where
  "insert_with_inode i kind mode uid gid now_ns =
     stmt (\<lambda>d. if node_of d i \<noteq> None then Inl ConstraintViolation
       else Inr ((), add_node i (fresh_node kind mode uid gid now_ns) d))"

definition nodes_get :: "inode \<Rightarrow> (conn, exn, node_row) io" where
  "nodes_get i =
     bindE (query (\<lambda>d. map_option (node_row i) (node_of d i)))
       (\<lambda>row. case row of None \<Rightarrow> fail NotFound | Some r \<Rightarrow> ret r)"

definition set_if :: "('a \<Rightarrow> node_cols \<Rightarrow> node_cols) \<Rightarrow> 'a option \<Rightarrow> node_cols \<Rightarrow> node_cols" where
  "set_if f x n = (case x of None \<Rightarrow> n | Some y \<Rightarrow> f y n)"

lemma set_if_simps [simp]: "set_if f None n = n" "set_if f (Some x) n = f x n"
  by (simp_all add: set_if_def)

definition set_owner_cols ::
  "u32 option \<Rightarrow> u32 option \<Rightarrow> u32 option \<Rightarrow> int \<Rightarrow> node_cols \<Rightarrow> node_cols" where
  "set_owner_cols mode uid gid ctime_ns n =
     (set_if (\<lambda>g n. n\<lparr>n_gid := g\<rparr>) gid
       (set_if (\<lambda>u n. n\<lparr>n_uid := u\<rparr>) uid
         (set_if (\<lambda>m n. n\<lparr>n_mode := m\<rparr>) mode n)))\<lparr>n_ctime_ns := ctime_ns\<rparr>"

definition update_mode_uid_gid ::
  "inode \<Rightarrow> u32 option \<Rightarrow> u32 option \<Rightarrow> u32 option \<Rightarrow> int \<Rightarrow> (conn, exn, unit) io" where
  "update_mode_uid_gid i mode uid gid ctime_ns =
     update_db (map_node i (set_owner_cols mode uid gid ctime_ns))"

definition set_time_cols :: "int option \<Rightarrow> int option \<Rightarrow> int option \<Rightarrow> node_cols \<Rightarrow> node_cols" where
  "set_time_cols atime_ns mtime_ns ctime_ns n =
     set_if (\<lambda>t n. n\<lparr>n_ctime_ns := t\<rparr>) ctime_ns
       (set_if (\<lambda>t n. n\<lparr>n_mtime_ns := t\<rparr>) mtime_ns
         (set_if (\<lambda>t n. n\<lparr>n_atime_ns := t\<rparr>) atime_ns n))"

definition update_times ::
  "inode \<Rightarrow> int option \<Rightarrow> int option \<Rightarrow> int option \<Rightarrow> (conn, exn, unit) io" where
  "update_times i atime_ns mtime_ns ctime_ns =
     (if atime_ns = None \<and> mtime_ns = None \<and> ctime_ns = None then ret ()
      else update_db (map_node i (set_time_cols atime_ns mtime_ns ctime_ns)))"

definition set_size_cols :: "u64 \<Rightarrow> int \<Rightarrow> int \<Rightarrow> node_cols \<Rightarrow> node_cols" where
  "set_size_cols sz mtime_ns ctime_ns n =
     n\<lparr>n_size := sz, n_mtime_ns := mtime_ns, n_ctime_ns := ctime_ns\<rparr>"

definition update_size :: "inode \<Rightarrow> u64 \<Rightarrow> int \<Rightarrow> int \<Rightarrow> (conn, exn, unit) io" where
  "update_size i sz mtime_ns ctime_ns = update_db (map_node i (set_size_cols sz mtime_ns ctime_ns))"

definition add_nlink_cols :: "int \<Rightarrow> int \<Rightarrow> node_cols \<Rightarrow> node_cols" where
  "add_nlink_cols delta ctime_ns n =
     n\<lparr>n_nlink := n_nlink n + delta, n_ctime_ns := ctime_ns\<rparr>"

definition change_nlink :: "inode \<Rightarrow> int \<Rightarrow> int \<Rightarrow> (conn, exn, u32) io" where
  "change_nlink i delta ctime_ns =
     bindE (update_db (map_node i (add_nlink_cols delta ctime_ns))) (\<lambda>_.
     bindE (query (\<lambda>d. map_option n_nlink (node_of d i))) (\<lambda>row.
     case row of None \<Rightarrow> fail (Sqlite NoRows) | Some k \<Rightarrow> ret (word_of_int k)))"

text \<open>
  Deleting a node that is not there does nothing.  The reference \<open>entries.inode\<close> has no
  \<open>CASCADE\<close>: an entry left pointing at the node is a constraint violation.
\<close>

definition referenced :: "db \<Rightarrow> inode \<Rightarrow> bool" where
  "referenced d i \<longleftrightarrow> (\<exists>((p, n), c) \<in> set (t_entries d). c = i \<and> p \<noteq> i)"

definition nodes_delete :: "inode \<Rightarrow> (conn, exn, unit) io" where
  "nodes_delete i =
     stmt (\<lambda>d. if node_of d i = None then Inr ((), d)
       else if referenced d i then Inl ConstraintViolation
       else Inr ((), del_node i d))"

lemma cols_simps [simp]:
  "n_kind (set_owner_cols m u g t n) = n_kind n" "n_nlink (set_owner_cols m u g t n) = n_nlink n"
  "n_size (set_owner_cols m u g t n) = n_size n"
  "n_kind (set_time_cols a b c n) = n_kind n" "n_nlink (set_time_cols a b c n) = n_nlink n"
  "n_size (set_time_cols a b c n) = n_size n" "n_mode (set_time_cols a b c n) = n_mode n"
  "n_uid (set_time_cols a b c n) = n_uid n" "n_gid (set_time_cols a b c n) = n_gid n"
  "n_kind (set_size_cols s x y n) = n_kind n" "n_nlink (set_size_cols s x y n) = n_nlink n"
  "n_size (set_size_cols s x y n) = s" "n_mode (set_size_cols s x y n) = n_mode n"
  "n_uid (set_size_cols s x y n) = n_uid n" "n_gid (set_size_cols s x y n) = n_gid n"
  "n_kind (add_nlink_cols k t n) = n_kind n" "n_nlink (add_nlink_cols k t n) = n_nlink n + k"
  "n_size (add_nlink_cols k t n) = n_size n" "n_mode (add_nlink_cols k t n) = n_mode n"
  "n_uid (add_nlink_cols k t n) = n_uid n" "n_gid (add_nlink_cols k t n) = n_gid n"
  by (auto simp: set_owner_cols_def set_time_cols_def set_size_cols_def add_nlink_cols_def set_if_def
      split: option.split)

lemma set_owner_mode [simp]: "n_mode (set_owner_cols m u g t n) = (case m of None \<Rightarrow> n_mode n | Some x \<Rightarrow> x)"
  and set_owner_uid [simp]: "n_uid (set_owner_cols m u g t n) = (case u of None \<Rightarrow> n_uid n | Some x \<Rightarrow> x)"
  and set_owner_gid [simp]: "n_gid (set_owner_cols m u g t n) = (case g of None \<Rightarrow> n_gid n | Some x \<Rightarrow> x)"
  by (auto simp: set_owner_cols_def set_if_def split: option.split)

text \<open>The rules.\<close>

lemma wp_nodes_insert [wp_rules]:
  assumes "\<And>t. \<not> reliable c \<Longrightarrow> E (Fail (Sqlite IoFault)) (c\<lparr>c_tick := t\<rparr>)"
    and "\<And>t. 2 ^ 63 - 1 \<le> t_seq (c_db c) \<Longrightarrow> E (Fail (Sqlite DatabaseFull)) (c\<lparr>c_tick := t\<rparr>)"
    and "\<And>t i. t_seq (c_db c) < 2 ^ 63 - 1 \<Longrightarrow> i = next_inode (c_db c) \<Longrightarrow>
      Q i (c\<lparr>c_tick := t, c_db := add_node i (fresh_node k m u g now) (c_db c)\<rparr>)"
  shows "wp (nodes_insert k m u g now) Q E c"
  unfolding nodes_insert_def by (rule wp_stmt) (use assms in \<open>auto split: if_splits\<close>)

lemma wp_insert_with_inode [wp_rules]:
  assumes "\<And>t. \<not> reliable c \<Longrightarrow> E (Fail (Sqlite IoFault)) (c\<lparr>c_tick := t\<rparr>)"
    and "\<And>t. node_of (c_db c) i \<noteq> None \<Longrightarrow> E (Fail (Sqlite ConstraintViolation)) (c\<lparr>c_tick := t\<rparr>)"
    and "\<And>t. node_of (c_db c) i = None \<Longrightarrow>
      Q () (c\<lparr>c_tick := t, c_db := add_node i (fresh_node k m u g now) (c_db c)\<rparr>)"
  shows "wp (insert_with_inode i k m u g now) Q E c"
  unfolding insert_with_inode_def by (rule wp_stmt) (use assms in \<open>auto split: if_splits\<close>)

lemma wp_nodes_get [wp_rules]:
  assumes "\<And>t. \<not> reliable c \<Longrightarrow> E (Fail (Sqlite IoFault)) (c\<lparr>c_tick := t\<rparr>)"
    and "\<And>t. node_of (c_db c) i = None \<Longrightarrow> E (Fail NotFound) (c\<lparr>c_tick := t\<rparr>)"
    and "\<And>t n. node_of (c_db c) i = Some n \<Longrightarrow> Q (node_row i n) (c\<lparr>c_tick := t\<rparr>)"
  shows "wp (nodes_get i) Q E c"
  unfolding nodes_get_def wp_bindE
  by (rule wp_query) (use assms in \<open>auto simp: wp_eqs split: option.split\<close>)

lemma wp_update_mode_uid_gid [wp_rules]:
  assumes "\<And>t. \<not> reliable c \<Longrightarrow> E (Fail (Sqlite IoFault)) (c\<lparr>c_tick := t\<rparr>)"
    and "\<And>t. Q () (c\<lparr>c_tick := t, c_db := map_node i (set_owner_cols m u g now) (c_db c)\<rparr>)"
  shows "wp (update_mode_uid_gid i m u g now) Q E c"
  unfolding update_mode_uid_gid_def by (rule wp_update_db) (use assms in auto)

lemma map_entry_same: "AList.map_entry k (\<lambda>x. x) t = t"
  by (induction t) auto

lemma map_node_same [simp]: "map_node i (\<lambda>n. n) d = d"
  by (simp add: map_node_def map_entry_same)

lemma wp_update_times [wp_rules]:
  assumes "\<And>t. \<not> reliable c \<Longrightarrow> E (Fail (Sqlite IoFault)) (c\<lparr>c_tick := t\<rparr>)"
    and "\<And>t. Q () (c\<lparr>c_tick := t, c_db := map_node i (set_time_cols a b k) (c_db c)\<rparr>)"
  shows "wp (update_times i a b k) Q E c"
proof (cases "a = None \<and> b = None \<and> k = None")
  case True
  then have *: "set_time_cols a b k = (\<lambda>n. n)" by (auto simp: set_time_cols_def)
  have "Q () c" using assms(2)[of "c_tick c"] by (simp only: * map_node_same) simp
  then show ?thesis using True by (simp add: update_times_def wp_eqs)
next
  case False
  then show ?thesis
    unfolding update_times_def if_not_P[OF False] by (intro wp_update_db) (use assms in auto)
qed

lemma wp_update_size [wp_rules]:
  assumes "\<And>t. \<not> reliable c \<Longrightarrow> E (Fail (Sqlite IoFault)) (c\<lparr>c_tick := t\<rparr>)"
    and "\<And>t. Q () (c\<lparr>c_tick := t, c_db := map_node i (set_size_cols s x y) (c_db c)\<rparr>)"
  shows "wp (update_size i s x y) Q E c"
  unfolding update_size_def by (rule wp_update_db) (use assms in auto)

lemma wp_change_nlink [wp_rules]:
  assumes "\<And>t d. \<not> reliable c \<Longrightarrow> d \<in> {c_db c, map_node i (add_nlink_cols k now) (c_db c)}
      \<Longrightarrow> E (Fail (Sqlite IoFault)) (c\<lparr>c_tick := t, c_db := d\<rparr>)"
    and "\<And>t. node_of (c_db c) i = None \<Longrightarrow> E (Fail (Sqlite NoRows))
      (c\<lparr>c_tick := t, c_db := map_node i (add_nlink_cols k now) (c_db c)\<rparr>)"
    and "\<And>t n. node_of (c_db c) i = Some n \<Longrightarrow> Q (word_of_int (n_nlink n + k))
      (c\<lparr>c_tick := t, c_db := map_node i (add_nlink_cols k now) (c_db c)\<rparr>)"
  shows "wp (change_nlink i k now) Q E c"
  unfolding change_nlink_def wp_bindE
proof (rule wp_update_db)
  fix t assume "\<not> reliable c"
  then show "E (Fail (Sqlite IoFault)) (c\<lparr>c_tick := t\<rparr>)" using assms(1)[of "c_db c" t] by simp
next
  fix t
  show "wp (query (\<lambda>d. map_option n_nlink (node_of d i)))
          (\<lambda>x. wp (case x of None \<Rightarrow> fail (Sqlite NoRows) | Some k \<Rightarrow> ret (word_of_int k)) Q E) E
          (c\<lparr>c_tick := t, c_db := map_node i (add_nlink_cols k now) (c_db c)\<rparr>)"
    by (rule wp_query) (use assms in \<open>auto simp: wp_eqs split: option.split\<close>)
qed

lemma wp_nodes_delete [wp_rules]:
  assumes "\<And>t. \<not> reliable c \<Longrightarrow> E (Fail (Sqlite IoFault)) (c\<lparr>c_tick := t\<rparr>)"
    and "\<And>t. node_of (c_db c) i = None \<Longrightarrow> Q () (c\<lparr>c_tick := t\<rparr>)"
    and "\<And>t. node_of (c_db c) i \<noteq> None \<Longrightarrow> referenced (c_db c) i
      \<Longrightarrow> E (Fail (Sqlite ConstraintViolation)) (c\<lparr>c_tick := t\<rparr>)"
    and "\<And>t. node_of (c_db c) i \<noteq> None \<Longrightarrow> \<not> referenced (c_db c) i
      \<Longrightarrow> Q () (c\<lparr>c_tick := t, c_db := del_node i (c_db c)\<rparr>)"
  shows "wp (nodes_delete i) Q E c"
  unfolding nodes_delete_def
  by (rule wp_stmt) (use assms in \<open>auto split: if_splits\<close>)

end
