(* ===== verification/Fs_Blobs.thy ===== *)
theory Fs_Blobs
  imports Fs_Nodes
begin

text \<open>
  File contents in fixed-size chunks: \<open>blobs.rs\<close>.  Offsets, sizes and chunk numbers are 64-bit
  words with the wrap-around of a release build; the panics of the source (division by a zero
  chunk size, capacity overflow, a slice out of range) are \<open>Panic\<close>.  SQLite compares
  chunk numbers as signed integers, and so does \<open>between\<close>.  The specification is a file as a
  function from positions to bytes that is zero where nothing was written (\<open>file_byte\<close>):
  \<open>read_range\<close> returns a piece of it, \<open>write_range\<close> replaces a piece, \<open>truncate_to\<close> zeroes the rest.
  Memory exhaustion is not modelled.
\<close>

section \<open>blobs.rs\<close>

definition put_blob :: "inode \<Rightarrow> u64 \<Rightarrow> byte list \<Rightarrow> db \<Rightarrow> db" where
  "put_blob i k b d = d\<lparr>t_blobs := AList.update (i, k) b (t_blobs d)\<rparr>"

definition del_blobs :: "inode \<Rightarrow> (u64 \<Rightarrow> bool) \<Rightarrow> db \<Rightarrow> db" where
  "del_blobs i P d = d\<lparr>t_blobs := filter (\<lambda>((j, k), b). \<not> (j = i \<and> P k)) (t_blobs d)\<rparr>"

definition set_blob :: "inode \<Rightarrow> u64 \<Rightarrow> byte list \<Rightarrow> db \<Rightarrow> db" where
  "set_blob i k b d = d\<lparr>t_blobs := AList.map_entry (i, k) (\<lambda>_. b) (t_blobs d)\<rparr>"

text \<open>\<open>chunk_id BETWEEN first AND last\<close>, on signed integers.\<close>

definition between :: "u64 \<Rightarrow> u64 \<Rightarrow> u64 \<Rightarrow> bool" where
  "between first_id last_id k \<longleftrightarrow> sint first_id \<le> sint k \<and> sint k \<le> sint last_id"

definition chunks_between :: "db \<Rightarrow> inode \<Rightarrow> u64 \<Rightarrow> u64 \<Rightarrow> (u64 \<times> byte list) list" where
  "chunks_between d i first_id last_id =
     map (\<lambda>((j, k), b). (k, b))
       (filter (\<lambda>((j, k), b). j = i \<and> between first_id last_id k) (t_blobs d))"

definition read_chunk ::
  "(u64 \<rightharpoonup> byte list) \<Rightarrow> u64 \<Rightarrow> u64 \<Rightarrow> u64 \<Rightarrow> u64 \<Rightarrow> (conn, exn, byte list) io" where
  "read_chunk present offset stop chunk_size cid =
     (let chunk_start = cid * chunk_size;
          lo = min (saturating_sub offset chunk_start) chunk_size;
          hi = min (stop - chunk_start) chunk_size;
          want = hi - lo
      in case present cid of
           Some data \<Rightarrow>
             let slice_lo = min (unat lo) (length data);
                 slice_hi = min (unat hi) (length data)
             in if slice_hi < slice_lo then panic
                else ret (take (slice_hi - slice_lo) (drop slice_lo data)
                          @ replicate (unat want - (slice_hi - slice_lo)) 0)
         | None \<Rightarrow> ret (replicate (unat want) 0))"

definition read_range ::
  "inode \<Rightarrow> u64 \<Rightarrow> u64 \<Rightarrow> u64 \<Rightarrow> u64 \<Rightarrow> (conn, exn, byte list) io" where
  "read_range i offset len file_size chunk_size =
     (if file_size \<le> offset \<or> len = 0 then ret []
      else
        let stop = min (offset + len) file_size;
            actual = stop - offset
        in if chunk_size = 0 then panic
           else
             let first_id = offset div chunk_size; last_id = (stop - 1) div chunk_size
             in bindE (query (\<lambda>d. sort_key (\<lambda>(k, b). sint k) (chunks_between d i first_id last_id)))
                  (\<lambda>rows.
                bindE (if unat actual < 2 ^ 63 then ret () else panic) (\<lambda>_.
                bindE (map_each (range_incl first_id last_id)
                         (read_chunk (map_of rows) offset stop chunk_size))
                  (\<lambda>pieces. ret (concat pieces)))))"

definition upsert_blob :: "inode \<Rightarrow> u64 \<Rightarrow> byte list \<Rightarrow> (conn, exn, unit) io" where
  "upsert_blob i k b =
     stmt (\<lambda>d. if node_of d i = None then Inl ConstraintViolation else Inr ((), put_blob i k b d))"

text \<open>A chunk after the bytes from \<open>lo\<close> to \<open>hi\<close> were replaced, padded with zeroes up to \<open>lo\<close>.\<close>

definition splice_chunk :: "nat \<Rightarrow> nat \<Rightarrow> byte list \<Rightarrow> byte list \<Rightarrow> byte list" where
  "splice_chunk lo hi piece old =
     (let old' = (if length old < lo then old @ replicate (lo - length old) 0 else old);
          tail_start = min hi (length old')
      in take lo old' @ piece @ drop tail_start old')"

primrec write_chunks ::
  "u64 list \<Rightarrow> inode \<Rightarrow> byte list \<Rightarrow> u64 \<Rightarrow> u64 \<Rightarrow> (u64 \<rightharpoonup> byte list) \<Rightarrow> nat \<Rightarrow> (conn, exn, unit) io"
where
  "write_chunks [] i data offset chunk_size existing cursor = ret ()"
| "write_chunks (cid # cids) i data offset chunk_size existing cursor =
     (let n = of_nat (length data);
          chunk_start = cid * chunk_size;
          lo = min (saturating_sub offset chunk_start) chunk_size;
          hi = min ((offset + n) - chunk_start) chunk_size;
          slice_len = hi - lo;
          old = (case existing cid of None \<Rightarrow> [] | Some b \<Rightarrow> b)
      in if length data < cursor + unat slice_len then panic
         else
           bindE (upsert_blob i cid
                    (splice_chunk (unat lo) (unat hi) (take (unat slice_len) (drop cursor data)) old))
             (\<lambda>_. write_chunks cids i data offset chunk_size (existing(cid := None))
                    (cursor + unat slice_len)))"

definition write_range ::
  "inode \<Rightarrow> byte list \<Rightarrow> u64 \<Rightarrow> u64 \<Rightarrow> u64 \<Rightarrow> (conn, exn, u64) io" where
  "write_range i data offset file_size chunk_size =
     (if data = [] then ret file_size
      else if chunk_size = 0 then panic
      else
        let n = of_nat (length data);
            first_id = offset div chunk_size; last_id = (offset + n - 1) div chunk_size
        in bindE (query (\<lambda>d. chunks_between d i first_id last_id)) (\<lambda>rows.
           bindE (write_chunks (range_incl first_id last_id) i data offset chunk_size (map_of rows) 0)
             (\<lambda>_. ret (max file_size (offset + n)))))"

definition truncate_to :: "inode \<Rightarrow> u64 \<Rightarrow> u64 \<Rightarrow> u64 \<Rightarrow> (conn, exn, unit) io" where
  "truncate_to i new_size old_size chunk_size =
     (if old_size \<le> new_size then ret ()
      else if chunk_size = 0 then panic
      else
        let boundary = new_size div chunk_size;
            boundary_off = unat (new_size mod chunk_size)
        in bindE (update_db (del_blobs i (\<lambda>k. sint boundary < sint k))) (\<lambda>_.
           if boundary_off = 0 then update_db (del_blobs i (\<lambda>k. k = boundary))
           else
             bindE (ok (query (\<lambda>d. blob_of d i boundary))) (\<lambda>row.
             case row of
               Some (Some b) \<Rightarrow> update_db (set_blob i boundary (take boundary_off b))
             | _ \<Rightarrow> ret ())))"

definition chunk_rows :: "db \<Rightarrow> inode \<Rightarrow> byte list list" where
  "chunk_rows d i = map snd (filter (\<lambda>((j, k), b). j = i) (t_blobs d))"

definition count_chunks :: "inode \<Rightarrow> (conn, exn, u64) io" where
  "count_chunks i = query (\<lambda>d. of_nat (length (chunk_rows d i)))"

definition total_bytes :: "inode \<Rightarrow> (conn, exn, u64) io" where
  "total_bytes i = query (\<lambda>d. of_nat (sum_list (map length (chunk_rows d i))))"

section \<open>Lookups after the effects\<close>

lemma blob_effects [simp]:
  "blob_of (put_blob i k b d) = (blob_of d)(i := (blob_of d i)(k \<mapsto> b))"
  "blob_of (set_blob i k b d) = (blob_of d)(i := (blob_of d i)(k := map_option (\<lambda>_. b) (blob_of d i k)))"
  "node_of (put_blob i k b d) = node_of d" "node_of (del_blobs i P d) = node_of d"
  "node_of (set_blob i k b d) = node_of d"
  "entry_of (put_blob i k b d) = entry_of d" "entry_of (del_blobs i P d) = entry_of d"
  "entry_of (set_blob i k b d) = entry_of d"
  by (auto simp: blob_of_def fun_eq_iff put_blob_def set_blob_def del_blobs_def node_of_def entry_of_def)

lemma blob_of_del_blobs [simp]:
  "blob_of (del_blobs i P d) j k = (if j = i \<and> P k then None else blob_of d j k)"
proof -
  have "blob_of (del_blobs i P d) j k = (if \<not> (j = i \<and> P k) then blob_of d j k else None)"
    using keyed_filter_fst[where P = "\<lambda>j k. \<not> (j = i \<and> P k)" and t = "t_blobs d" and x = j and y = k]
    by (simp only: blob_of_def del_blobs_def) simp
  then show ?thesis by auto
qed

text \<open>Effects that change nothing but rows of \<open>blobs\<close>, and keep its key.\<close>

definition blobs_only :: "db \<Rightarrow> db \<Rightarrow> bool" where
  "blobs_only d d' \<longleftrightarrow> (\<exists>bs. d' = d\<lparr>t_blobs := bs\<rparr>) \<and> (keyed (t_blobs d) \<longrightarrow> keyed (t_blobs d'))"

lemma blobs_only_refl [simp]: "blobs_only d d"
  unfolding blobs_only_def by (rule conjI[OF exI[where x = "t_blobs d"]]) simp_all

lemma blobs_only_trans: "blobs_only d d1 \<Longrightarrow> blobs_only d1 d2 \<Longrightarrow> blobs_only d d2"
  by (auto simp: blobs_only_def)

lemma blobs_only_effects [simp]:
  "blobs_only d (put_blob i k b d)" "blobs_only d (del_blobs i P d)" "blobs_only d (set_blob i k b d)"
  by (auto simp: blobs_only_def put_blob_def del_blobs_def set_blob_def)

lemma blobs_only_same:
  "blobs_only d d' \<Longrightarrow> node_of d' = node_of d \<and> entry_of d' = entry_of d \<and> t_nodes d' = t_nodes d
    \<and> t_entries d' = t_entries d \<and> t_xattrs d' = t_xattrs d \<and> t_symlinks d' = t_symlinks d
    \<and> t_seq d' = t_seq d \<and> t_version d' = t_version d"
  by (auto simp: blobs_only_def node_of_def entry_of_def fun_eq_iff)

lemma map_of_chunks_between:
  "map_of (chunks_between d i a b) k = (if between a b k then blob_of d i k else None)"
proof -
  have "map_of (map (\<lambda>((j, k), b). (k, b)) (filter (\<lambda>((j, k), b). j = i \<and> P k) t)) k
      = (if P k then map_of t (i, k) else None)" for t :: "((inode \<times> u64) \<times> byte list) list" and P
    by (induction t) auto
  then show ?thesis by (simp add: chunks_between_def blob_of_def)
qed

lemma keyed_chunks_between:
  assumes "keyed (t_blobs d)"
  shows "keyed (chunks_between d i a b)"
proof -
  let ?m = "\<lambda>P t. map (\<lambda>((j, k), b). (k, b)) (filter (\<lambda>((j, k), b). j = i \<and> P k) t)"
  have sub: "k \<in> fst ` set (?m P t) \<Longrightarrow> (i, k) \<in> fst ` set t"
    for k and t :: "((inode \<times> u64) \<times> byte list) list" and P by force
  have "keyed t \<Longrightarrow> keyed (?m P t)" for t :: "((inode \<times> u64) \<times> byte list) list" and P
  proof (induction t)
    case (Cons x t)
    obtain j k b where x: "x = ((j, k), b)" by (metis prod.collapse)
    show ?case
    proof (cases "j = i \<and> P k")
      case True
      then have "(i, k) \<notin> fst ` set t" using Cons.prems x by simp
      then have "k \<notin> fst ` set (?m P t)" using sub[of k P t] by blast
      moreover have "keyed (?m P t)" using Cons by simp
      moreover have "?m P (x # t) = (k, b) # ?m P t" using True x by simp
      ultimately show ?thesis by (simp only: list.map(2) distinct.simps(2) fst_conv list.set_map simp_thms)
    next
      case False
      then have "?m P (x # t) = ?m P t" using x by auto
      then show ?thesis using Cons by simp
    qed
  qed simp
  from this[OF assms] show ?thesis unfolding chunks_between_def .
qed

lemma map_of_sort_key: "keyed xs \<Longrightarrow> map_of (sort_key f xs) = map_of xs"
proof -
  assume "keyed xs"
  moreover have "mset (map fst (sort_key f xs)) = mset (map fst xs)" by simp
  ultimately have "keyed (sort_key f xs)" using mset_eq_imp_distinct_iff by blast
  with \<open>keyed xs\<close> show ?thesis by (simp add: map_of_inject_set)
qed

lemma map_of_sorted_chunks:
  "keyed (t_blobs d)
    \<Longrightarrow> map_of (sort_key f (chunks_between d i a b)) k = (if between a b k then blob_of d i k else None)"
  by (simp add: map_of_sort_key keyed_chunks_between map_of_chunks_between)

lemma wp_upsert_blob [wp_rules]:
  assumes "\<And>t. \<not> reliable c \<Longrightarrow> E (Fail (Sqlite IoFault)) (c\<lparr>c_tick := t\<rparr>)"
    and "\<And>t. node_of (c_db c) i = None \<Longrightarrow> E (Fail (Sqlite ConstraintViolation)) (c\<lparr>c_tick := t\<rparr>)"
    and "\<And>t. node_of (c_db c) i \<noteq> None \<Longrightarrow> Q () (c\<lparr>c_tick := t, c_db := put_blob i k b (c_db c)\<rparr>)"
  shows "wp (upsert_blob i k b) Q E c"
  unfolding upsert_blob_def by (rule wp_stmt) (use assms in \<open>auto split: if_splits\<close>)

section \<open>Bytes of a chunk and of a file\<close>

definition byte_at :: "byte list \<Rightarrow> nat \<Rightarrow> byte" where
  "byte_at b t = (if t < length b then b ! t else 0)"

definition file_byte :: "db \<Rightarrow> inode \<Rightarrow> nat \<Rightarrow> nat \<Rightarrow> byte" where
  "file_byte d i C x = (case blob_of d i (of_nat (x div C)) of
     None \<Rightarrow> 0 | Some b \<Rightarrow> byte_at b (x mod C))"

definition file_range :: "db \<Rightarrow> inode \<Rightarrow> nat \<Rightarrow> nat \<Rightarrow> nat \<Rightarrow> byte list" where
  "file_range d i C lo hi = map (file_byte d i C) [lo ..< hi]"

lemma splice_length: "length piece = hi - lo \<Longrightarrow> lo \<le> hi \<Longrightarrow>
    length (splice_chunk lo hi piece old) = max hi (length old)"
  by (auto simp: splice_chunk_def Let_def)

lemma splice_byte:
  assumes "length piece = hi - lo" and "lo \<le> hi"
  shows "byte_at (splice_chunk lo hi piece old) t
    = (if lo \<le> t \<and> t < hi then piece ! (t - lo) else byte_at old t)"
  using assms
  by (auto simp: splice_chunk_def Let_def byte_at_def nth_append min_def not_less)

lemma upt_split: "a \<le> b \<Longrightarrow> b \<le> c \<Longrightarrow> [a ..< c] = [a ..< b] @ [b ..< c]"
  using upt_add_eq_append[of a b "c - b"] by simp

text \<open>The pieces of consecutive chunks make up the whole range.\<close>

lemma chunk_ranges_concat:
  assumes "0 < C" and "a < b" and "a div C < m"
  shows "concat (map (\<lambda>j. map f [max a (j * C) ..< min b (Suc j * C)]) [a div C ..< m])
    = map f [a ..< min b (m * C)]"
  using assms(3)
proof (induction m)
  case 0
  then show ?case by simp
next
  case (Suc m)
  show ?case
  proof (cases "m = a div C")
    case True
    have "m * C \<le> a" using True by simp
    then show ?thesis using True by (simp add: max_absorb1)
  next
    case False
    then have m: "a div C < m" using Suc.prems by simp
    have "a < m * C" using m assms(1) by (simp add: div_less_iff_less_mult)
    then have "[a ..< min b (Suc m * C)] = [a ..< min b (m * C)] @ [max a (m * C) ..< min b (Suc m * C)]"
      using assms(2) upt_split[of a "m * C" "min b (Suc m * C)"]
      by (cases "b \<le> m * C") (auto simp: min_def max_def)
    then show ?thesis using Suc.IH[OF m] m by (simp del: upt_Suc mult_Suc add: upt_Suc_append)
  qed
qed

lemma file_byte_chunk:
  "t < C \<Longrightarrow> file_byte d i C (j * C + t)
    = (case blob_of d i (of_nat j) of None \<Rightarrow> 0 | Some b \<Rightarrow> byte_at b t)"
proof -
  assume "t < C"
  then have "(j * C + t) div C = j" and "(j * C + t) mod C = t" by auto
  then show ?thesis by (simp only: file_byte_def)
qed

section \<open>Words and the natural numbers they stand for\<close>

lemma unat_chunk_start:
  assumes "j * unat cs < 2 ^ 64" shows "unat (of_nat j * cs :: u64) = j * unat cs"
proof -
  have "of_nat j * cs = (of_nat (j * unat cs) :: u64)" by simp
  then show ?thesis using unat_of_nat64[OF assms] by simp
qed

lemma unat_add64: "unat a + unat b < 2 ^ 64 \<Longrightarrow> unat (a + b :: u64) = unat a + unat b"
  by (simp add: unat_word_ariths)

lemma unat_sub64: "unat b \<le> unat a \<Longrightarrow> unat (a - b :: u64) = unat a - unat b"
  by (rule unat_sub) (simp add: word_le_nat_alt)

lemma unat_pos64: "a \<noteq> 0 \<Longrightarrow> 0 < unat (a :: u64)"
  by (simp add: unat_gt_0)

lemma unat_dec64: "a \<noteq> 0 \<Longrightarrow> unat (a - 1 :: u64) = unat a - 1"
  using unat_pos64[of a] unat_sub64[of 1 a] by simp

text \<open>The bounds of a piece inside chunk \<open>j\<close>, as the source computes them on words.\<close>

lemma chunk_bounds:
  fixes offset stop cs :: u64
  assumes "0 < unat cs" and "j * unat cs < unat stop" and "unat offset < unat stop"
    and "unat offset < Suc j * unat cs"
  defines "start \<equiv> of_nat j * cs"
  defines "lo \<equiv> min (saturating_sub offset start) cs" and "hi \<equiv> min (stop - start) cs"
  shows "unat lo = max (unat offset) (j * unat cs) - j * unat cs"
    and "unat hi = min (unat stop) (Suc j * unat cs) - j * unat cs"
    and "unat (hi - lo) = min (unat stop) (Suc j * unat cs) - max (unat offset) (j * unat cs)"
    and "unat lo < unat hi"
proof -
  have start: "unat start = j * unat cs"
    unfolding start_def by (rule unat_chunk_start) (use assms(2) unat_bound64[of stop] in linarith)
  show lo: "unat lo = max (unat offset) (j * unat cs) - j * unat cs"
    unfolding lo_def using assms(4) by (simp add: start)
  show hi: "unat hi = min (unat stop) (Suc j * unat cs) - j * unat cs"
    unfolding hi_def using assms(2) by (simp add: unat_sub64 start)
  show lt: "unat lo < unat hi" unfolding lo hi using assms by auto
  show "unat (hi - lo) = min (unat stop) (Suc j * unat cs) - max (unat offset) (j * unat cs)"
    using lt assms(2,3,4) by (subst unat_sub64) (auto simp: lo hi)
qed

lemma chunk_id_bounds:
  fixes offset stop cs :: u64
  assumes "cs \<noteq> 0" and "unat offset < unat stop"
  shows "range_incl (offset div cs) ((stop - 1) div cs)
      = map of_nat [unat offset div unat cs ..< Suc ((unat stop - 1) div unat cs)]"
proof -
  have "stop \<noteq> 0" using assms(2) by auto
  then show ?thesis by (simp add: range_incl_def unat_div unat_dec64 del: upt_Suc)
qed

lemma chunk_id_small:
  fixes j C e :: nat
  assumes "j * C < e" and "0 < C" and "e \<le> 2 ^ 63"
  shows "j < 2 ^ 63"
proof -
  have "j \<le> j * C" using assms(2) by (cases C) auto
  then show ?thesis using assms by linarith
qed

lemma sint_of_nat_small: "j < 2 ^ 63 \<Longrightarrow> sint (of_nat j :: u64) = int j"
  by (subst sint_unat64) (simp_all add: unat_of_nat64)

lemma chunk_between:
  fixes offset stop cs :: u64
  assumes "cs \<noteq> 0" and "unat offset < unat stop" and "unat stop \<le> 2 ^ 63"
    and "unat offset div unat cs \<le> j" and "j \<le> (unat stop - 1) div unat cs"
  shows "between (offset div cs) ((stop - 1) div cs) (of_nat j)"
proof -
  have C: "0 < unat cs" using assms(1) by (rule unat_pos64)
  have b: "(unat stop - 1) div unat cs \<le> unat stop - 1" by (rule div_le_dividend)
  have a: "unat offset div unat cs \<le> unat offset" by (rule div_le_dividend)
  have "stop \<noteq> 0" using assms(2) by auto
  note dec = unat_dec64[OF this]
  have a63: "unat offset div unat cs < 2 ^ 63" using a assms(2,3) by linarith
  have b63: "(unat stop - 1) div unat cs < 2 ^ 63" using b assms(2,3) by linarith
  have "sint (offset div cs) = int (unat offset div unat cs)"
    using a63 by (subst sint_unat64) (simp_all only: unat_div)
  moreover have "sint ((stop - 1) div cs) = int ((unat stop - 1) div unat cs)"
    using b63 by (subst sint_unat64) (simp_all only: unat_div dec)
  moreover have "sint (of_nat j :: u64) = int j"
    by (rule sint_of_nat_small) (use assms(5) b63 in linarith)
  ultimately show ?thesis
    using assms(4,5) by (simp only: between_def of_nat_le_iff)
qed

section \<open>Reading\<close>

lemma chunk_slice:
  assumes "lo \<le> hi"
  shows "take (min hi (length x) - min lo (length x)) (drop (min lo (length x)) x)
      @ replicate (hi - lo - (min hi (length x) - min lo (length x))) 0
    = map (\<lambda>t. byte_at x (lo + t)) [0 ..< hi - lo]"
proof (cases "length x \<le> lo")
  case True
  then show ?thesis using assms by (intro nth_equalityI) (auto simp: byte_at_def)
next
  case False
  then show ?thesis using assms
    by (intro nth_equalityI) (auto simp: nth_append byte_at_def min_def)
qed

text \<open>The bytes of the file between two offsets of one chunk are those of the chunk between its local bounds.\<close>

lemma chunk_window:
  assumes len: "e - a = h - l" and start: "a = j * C + l" and hi: "h \<le> C"
  shows "file_range d i C a e = map (\<lambda>t. case blob_of d i (of_nat j) of None \<Rightarrow> 0 | Some x \<Rightarrow> byte_at x (l + t)) [0 ..< h - l]"
proof (rule nth_equalityI)
  fix t assume "t < length (file_range d i C a e)"
  then have t: "t < e - a" by (simp add: file_range_def)
  then have nth: "[a ..< e] ! t = a + t" by (intro nth_upt) linarith
  have "l + t < C" using t len hi by linarith
  then have "file_byte d i C (a + t) = (case blob_of d i (of_nat j) of None \<Rightarrow> 0 | Some x \<Rightarrow> byte_at x (l + t))"
    unfolding start add.assoc by (simp only: file_byte_chunk)
  with t nth len show "file_range d i C a e ! t
      = map (\<lambda>t. case blob_of d i (of_nat j) of None \<Rightarrow> 0 | Some x \<Rightarrow> byte_at x (l + t)) [0 ..< h - l] ! t"
    by (simp add: file_range_def split: option.split)
qed (use len in \<open>simp add: file_range_def\<close>)

lemma read_chunk_value:
  fixes offset stop cs :: u64
  assumes "0 < unat cs" and "j * unat cs < unat stop" and "unat offset < unat stop"
    and "unat offset < Suc j * unat cs"
    and "present (of_nat j) = blob_of d i (of_nat j)"
  shows "read_chunk present offset stop cs (of_nat j) c
    = (Inr (file_range d i (unat cs) (max (unat offset) (j * unat cs))
              (min (unat stop) (Suc j * unat cs))), c)"
proof -
  define lo hi where "lo = min (saturating_sub offset (of_nat j * cs)) cs"
    and "hi = min (stop - of_nat j * cs) cs"
  note b = chunk_bounds[OF assms(1-4), folded lo_def hi_def]
  have len: "min (unat stop) (Suc j * unat cs) - max (unat offset) (j * unat cs) = unat hi - unat lo" using b by auto
  have goal: "file_range d i (unat cs) (max (unat offset) (j * unat cs)) (min (unat stop) (Suc j * unat cs))
      = map (\<lambda>t. case blob_of d i (of_nat j) of None \<Rightarrow> 0 | Some x \<Rightarrow> byte_at x (unat lo + t)) [0 ..< unat hi - unat lo]"
    by (rule chunk_window[OF len]) (simp_all add: b(1) max_def hi_def)
  show ?thesis
  proof (cases "blob_of d i (of_nat j)")
    case None
    then show ?thesis
      using goal b(3) len assms(5)
      by (simp add: read_chunk_def Let_def ret_def map_replicate_const flip: lo_def hi_def)
  next
    case (Some x)
    let ?sl = "min (unat lo) (length x)" and ?sh = "min (unat hi) (length x)"
    have "take (?sh - ?sl) (drop ?sl x) @ replicate (unat (hi - lo) - (?sh - ?sl)) 0
        = map (\<lambda>t. byte_at x (unat lo + t)) [0 ..< unat hi - unat lo]"
      using chunk_slice[of "unat lo" "unat hi" x] b(3,4) len by (simp only: less_imp_le)
    moreover have "\<not> ?sh < ?sl" using b(4) by simp
    moreover have "read_chunk present offset stop cs (of_nat j) c
        = (if ?sh < ?sl then panic
           else ret (take (?sh - ?sl) (drop ?sl x) @ replicate (unat (hi - lo) - (?sh - ?sl)) 0)) c"
      by (simp only: read_chunk_def Let_def lo_def hi_def assms(5) Some option.case)
    ultimately show ?thesis using goal Some by (simp only: if_False option.case ret_def)
  qed
qed

lemma map_each_values:
  "(\<And>x. x \<in> set xs \<Longrightarrow> f (h x) s = (Inr (g x), s))
    \<Longrightarrow> map_each (map h xs) f s = (Inr (map g xs), s)"
  by (induction xs) (auto simp: ret_def bindE_def)

lemma wp_of_run: "m s = (Inr x, s') \<Longrightarrow> Q x s' \<Longrightarrow> wp m Q E s"
  by (simp add: wp_def)

text \<open>The chunks that \<open>read_range\<close> selects, one piece of the range from each, and the pieces together.\<close>

lemma read_pieces:
  fixes offset stop cs :: u64
  assumes cs: "cs \<noteq> 0" and keys: "keyed (t_blobs d)" and lt: "unat offset < unat stop" and small: "unat stop < 2 ^ 63"
  shows "map_each (range_incl (offset div cs) ((stop - 1) div cs))
      (read_chunk (map_of (sort_key (\<lambda>(k, b). sint k) (chunks_between d i (offset div cs) ((stop - 1) div cs)))) offset stop cs) c
    = (Inr (map (\<lambda>j. file_range d i (unat cs) (max (unat offset) (j * unat cs)) (min (unat stop) (Suc j * unat cs)))
             [unat offset div unat cs ..< Suc ((unat stop - 1) div unat cs)]), c)"
  unfolding chunk_id_bounds[OF cs lt]
proof (rule map_each_values)
  have C: "0 < unat cs" using cs by (rule unat_pos64)
  fix j assume j: "j \<in> set [unat offset div unat cs ..< Suc ((unat stop - 1) div unat cs)]"
  show "read_chunk (map_of (sort_key (\<lambda>(k, b). sint k) (chunks_between d i (offset div cs) ((stop - 1) div cs)))) offset stop cs (of_nat j) c
      = (Inr (file_range d i (unat cs) (max (unat offset) (j * unat cs)) (min (unat stop) (Suc j * unat cs))), c)"
  proof (rule read_chunk_value[OF C _ lt])
    have "j \<le> (unat stop - 1) div unat cs" using j by auto
    then have "j * unat cs \<le> unat stop - 1" using C by (simp add: less_eq_div_iff_mult_less_eq)
    then show "j * unat cs < unat stop" using lt by linarith
    have "unat offset div unat cs < Suc j" using j by auto
    then show "unat offset < Suc j * unat cs" using C by (simp only: div_less_iff_less_mult)
    have "between (offset div cs) ((stop - 1) div cs) (of_nat j)"
      by (rule chunk_between[OF cs lt]) (use j small in auto)
    then show "map_of (sort_key (\<lambda>(k, b). sint k) (chunks_between d i (offset div cs) ((stop - 1) div cs))) (of_nat j)
        = blob_of d i (of_nat j)" by (simp add: map_of_sorted_chunks[OF keys])
  qed
qed

lemma pieces_concat:
  assumes C: "0 < C" and lt: "off < (e :: nat)"
  shows "concat (map (\<lambda>j. file_range d i C (max off (j * C)) (min e (Suc j * C))) [off div C ..< Suc ((e - 1) div C)])
    = file_range d i C off e"
proof -
  let ?b = "Suc ((e - 1) div C)"
  have "(e - 1) div C < ?b" by simp
  then have "e - 1 < ?b * C" using C by (simp only: div_less_iff_less_mult)
  then have e: "e \<le> ?b * C" by linarith
  have ab: "off div C < ?b" using lt by (simp add: less_Suc_eq_le div_le_mono)
  show ?thesis
    unfolding file_range_def chunk_ranges_concat[OF C lt ab] using e by (simp only: min_absorb1)
qed

lemma wp_read_range [wp_rules]:
  assumes "cs \<noteq> 0" and "keyed (t_blobs (c_db c))"
    and "unat offset + unat len < 2 ^ 64" and "unat fsz < 2 ^ 63"
    and "\<And>t. \<not> reliable c \<Longrightarrow> E (Fail (Sqlite IoFault)) (c\<lparr>c_tick := t\<rparr>)"
    and Q: "\<And>t. Q (file_range (c_db c) i (unat cs) (unat offset)
        (min (unat offset + unat len) (unat fsz))) (c\<lparr>c_tick := t\<rparr>)"
  shows "wp (read_range i offset len fsz cs) Q E c"
proof (cases "fsz \<le> offset \<or> len = 0")
  case True
  then have "min (unat offset + unat len) (unat fsz) \<le> unat offset" by (auto simp: word_le_nat_alt)
  then have "Q [] c" using Q[of "c_tick c"] by (simp add: file_range_def)
  then show ?thesis using True by (simp add: read_range_def wp_eqs)
next
  case False
  define stop where "stop = min (offset + len) fsz"
  have stop: "unat stop = min (unat offset + unat len) (unat fsz)"
    unfolding stop_def using assms(3) by (simp add: unat_add64)
  have lt: "unat offset < unat stop"
    using False unat_pos64[of len] by (auto simp: stop word_less_nat_alt not_le)
  have small: "unat stop < 2 ^ 63" using stop assms(4) by simp
  have cap: "unat (stop - offset) < 2 ^ 63" using lt small by (simp add: unat_sub64)
  have pieces: "concat (map (\<lambda>j. file_range (c_db c) i (unat cs) (max (unat offset) (j * unat cs)) (min (unat stop) (Suc j * unat cs)))
      [unat offset div unat cs ..< Suc ((unat stop - 1) div unat cs)])
    = file_range (c_db c) i (unat cs) (unat offset) (min (unat offset + unat len) (unat fsz))"
    unfolding stop[symmetric] by (rule pieces_concat[OF unat_pos64[OF assms(1)] lt])
  show ?thesis
    unfolding read_range_def if_not_P[OF False] Let_def if_not_P[OF assms(1)] wp_bindE
      stop_def[symmetric]
  proof (rule wp_query)
    fix t
    show "wp (if unat (stop - offset) < 2 ^ 63 then ret () else panic)
       (\<lambda>_. wp (map_each (range_incl (offset div cs) ((stop - 1) div cs))
          (read_chunk (map_of (sort_key (\<lambda>(k, b). sint k)
            (chunks_between (c_db c) i (offset div cs) ((stop - 1) div cs)))) offset stop cs))
          (\<lambda>x. wp (ret (concat x)) Q E) E) E (c\<lparr>c_tick := t\<rparr>)"
      unfolding wp_if if_P[OF cap] wp_ret
      by (rule wp_of_run, rule read_pieces[OF assms(1,2) lt small])
        (unfold wp_ret pieces, rule Q)
  qed (fact assms(5))
qed

section \<open>Writing\<close>

text \<open>Chunk \<open>j\<close> after \<open>data\<close> was written at \<open>off\<close>, and the tables after some chunks were.\<close>

definition new_chunk :: "nat \<Rightarrow> nat \<Rightarrow> byte list \<Rightarrow> nat \<Rightarrow> byte list option \<Rightarrow> byte list" where
  "new_chunk C off data j old =
     (let lo = max off (j * C) - j * C; hi = min (off + length data) (Suc j * C) - j * C
      in splice_chunk lo hi (take (hi - lo) (drop (max off (j * C) - off) data))
           (case old of None \<Rightarrow> [] | Some b \<Rightarrow> b))"

definition blobs_written :: "db \<Rightarrow> inode \<Rightarrow> nat \<Rightarrow> nat \<Rightarrow> byte list \<Rightarrow> nat \<Rightarrow> nat \<Rightarrow> db \<Rightarrow> bool" where
  "blobs_written d i C off data a b d' \<longleftrightarrow>
     blobs_only d d'
     \<and> (\<forall>j k. blob_of d' j k =
          (if j = i \<and> a \<le> unat k \<and> unat k < b
           then Some (new_chunk C off data (unat k) (blob_of d i k)) else blob_of d j k))"

lemma blobs_written_refl: "b \<le> a \<Longrightarrow> blobs_written d i C off data a b d"
  by (auto simp: blobs_written_def)

lemma unat_eq_of_nat64: "a < 2 ^ 64 \<Longrightarrow> unat (k :: u64) = a \<longleftrightarrow> k = of_nat a"
  by (auto simp: unat_of_nat64)

lemma blobs_written_step:
  assumes "a < b" and "a < 2 ^ 64"
    and "blobs_written (put_blob i (of_nat a) (new_chunk C off data a (blob_of d i (of_nat a))) d)
        i C off data (Suc a) b d'"
  shows "blobs_written d i C off data a b d'"
proof -
  let ?d1 = "put_blob i (of_nat a) (new_chunk C off data a (blob_of d i (of_nat a))) d"
  have "blobs_only d d'"
    using assms(3) blobs_only_trans[OF blobs_only_effects(1)] unfolding blobs_written_def by blast
  moreover have "blob_of d' j k = (if j = i \<and> a \<le> unat k \<and> unat k < b
       then Some (new_chunk C off data (unat k) (blob_of d i k)) else blob_of d j k)" for j k
  proof -
    have "blob_of d' j k = (if j = i \<and> Suc a \<le> unat k \<and> unat k < b
       then Some (new_chunk C off data (unat k) (blob_of ?d1 i k)) else blob_of ?d1 j k)"
      using assms(3) unfolding blobs_written_def by blast
    then show ?thesis
      using assms(1) unat_eq_of_nat64[OF assms(2), of k] by (auto simp: less_eq_Suc_le[symmetric])
  qed
  ultimately show ?thesis unfolding blobs_written_def by blast
qed

text \<open>
  The arithmetic of one step of the loop over chunks: the part of chunk \<open>a\<close> that is written, where it lies in the data,
  and where the next part starts.
\<close>

lemma write_step:
  fixes offset cs :: u64
  assumes C: "cs \<noteq> 0" and range: "unat offset + length data \<le> 2 ^ 63" and data: "data \<noteq> []"
    and a: "unat offset div unat cs \<le> a" and hi: "a * unat cs < unat offset + length data"
    and stop: "stop = offset + of_nat (length data)"
    and lo_def: "lo = min (saturating_sub offset (of_nat a * cs)) cs" and hi_def: "h = min (stop - of_nat a * cs) cs"
    and cur: "cursor = max (unat offset) (a * unat cs) - unat offset"
  shows "\<not> length data < cursor + unat (h - lo)"
    and "Suc a * unat cs < unat offset + length data \<Longrightarrow>
      cursor + unat (h - lo) = max (unat offset) (Suc a * unat cs) - unat offset"
    and "splice_chunk (unat lo) (unat h) (take (unat (h - lo)) (drop cursor data)) (case blob of None \<Rightarrow> [] | Some b \<Rightarrow> b)
      = new_chunk (unat cs) (unat offset) data a blob"
    and "a < 2 ^ 64"
proof -
  have C0: "0 < unat cs" using C by (rule unat_pos64)
  have n: "unat (of_nat (length data) :: u64) = length data" by (rule unat_of_nat64) (use range in simp)
  have ustop: "unat stop = unat offset + length data" unfolding stop by (subst unat_add64) (use range n in auto)
  have lt: "unat offset < unat stop" using data by (simp add: ustop)
  have "unat offset div unat cs < Suc a" using a by simp
  then have lo: "unat offset < Suc a * unat cs" using C0 by (simp only: div_less_iff_less_mult)
  have hi': "a * unat cs < unat stop" using hi by (simp only: ustop)
  note w = chunk_bounds[OF C0 hi' lt lo, folded lo_def hi_def]
  have len: "unat (h - lo) = min (unat offset + length data) (Suc a * unat cs) - max (unat offset) (a * unat cs)"
    using w(3) ustop by simp
  show "a < 2 ^ 64" using chunk_id_small[OF hi' C0] range ustop by simp
  show "\<not> length data < cursor + unat (h - lo)"
    unfolding len cur using lo hi by (simp add: max_def min_def; linarith)
  show "cursor + unat (h - lo) = max (unat offset) (Suc a * unat cs) - unat offset" if "Suc a * unat cs < unat offset + length data"
    unfolding len cur using that lo hi by (simp add: max_def min_def)
  have "unat (h - lo) = unat h - unat lo" unfolding w(1-3) by auto
  then show "splice_chunk (unat lo) (unat h) (take (unat (h - lo)) (drop cursor data)) (case blob of None \<Rightarrow> [] | Some b \<Rightarrow> b)
      = new_chunk (unat cs) (unat offset) data a blob"
    unfolding new_chunk_def Let_def cur w(1) w(2) ustop by simp
qed

lemma wp_write_chunks:
  fixes offset cs :: u64
  assumes C: "cs \<noteq> 0" and range: "unat offset + length data \<le> 2 ^ 63"
    and a: "unat offset div unat cs \<le> a" and b: "\<And>j. j < b \<Longrightarrow> j * unat cs < unat offset + length data"
    and data: "data \<noteq> []" and node: "node_of (c_db c) i \<noteq> None"
    and ex: "\<And>j. a \<le> j \<Longrightarrow> j < b \<Longrightarrow> existing (of_nat j) = blob_of (c_db c) i (of_nat j)"
    and cursor: "a < b \<Longrightarrow> cursor = max (unat offset) (a * unat cs) - unat offset"
    and E: "\<And>t d'. \<not> reliable c \<Longrightarrow> E (Fail (Sqlite IoFault)) (c\<lparr>c_tick := t, c_db := d'\<rparr>)"
    and Q: "\<And>t d'. blobs_written (c_db c) i (unat cs) (unat offset) data a b d'
       \<Longrightarrow> Q () (c\<lparr>c_tick := t, c_db := d'\<rparr>)"
  shows "wp (write_chunks (map of_nat [a ..< b]) i data offset cs existing cursor) Q E c"
  using a node ex cursor E Q
proof (induction "b - a" arbitrary: a c existing cursor)
  case 0
  then have "Q () (c\<lparr>c_tick := c_tick c, c_db := c_db c\<rparr>)" by (intro 0) (simp add: blobs_written_refl)
  then show ?case using 0 by (simp add: wp_eqs)
next
  case (Suc m)
  then have ab: "a < b" by simp
  let ?lo = "min (saturating_sub offset (of_nat a * cs)) cs"
    and ?hi = "min (offset + of_nat (length data) - of_nat a * cs) cs"
  have cur: "cursor = max (unat offset) (a * unat cs) - unat offset" using Suc.prems(4) ab by simp
  note step = write_step[OF C range data Suc.prems(1) b[OF ab] refl refl refl cur]
  let ?d = "put_blob i (of_nat a) (new_chunk (unat cs) (unat offset) data a (blob_of (c_db c) i (of_nat a))) (c_db c)"
  have chunk: "splice_chunk (unat ?lo) (unat ?hi) (take (unat (?hi - ?lo)) (drop cursor data))
      (case existing (of_nat a) of None \<Rightarrow> [] | Some b \<Rightarrow> b)
    = new_chunk (unat cs) (unat offset) data a (blob_of (c_db c) i (of_nat a))"
    using Suc.prems(3)[of a] ab step(3) by simp
  have rest: "wp (write_chunks (map of_nat [Suc a ..< b]) i data offset cs (existing(of_nat a := None))
       (cursor + unat (?hi - ?lo))) Q E (c\<lparr>c_tick := t, c_db := ?d\<rparr>)" for t
  proof (rule Suc.hyps(1))
    show "m = b - Suc a" using Suc.hyps(2) by simp
    show "unat offset div unat cs \<le> Suc a" using Suc.prems(1) by simp
    show "(existing(of_nat a := None)) (of_nat j) = blob_of (c_db (c\<lparr>c_tick := t, c_db := ?d\<rparr>)) i (of_nat j)"
      if "Suc a \<le> j" and "j < b" for j
    proof -
      have "j < 2 ^ 63" by (rule chunk_id_small[OF b[OF that(2)] unat_pos64[OF C]]) (use range in simp)
      then have "of_nat j \<noteq> (of_nat a :: u64)"
        using that(1) unat_of_nat64[OF step(4)] unat_of_nat64[of j] by auto
      then show ?thesis using Suc.prems(3)[of j] that by simp
    qed
  next
    fix s d' assume "blobs_written (c_db (c\<lparr>c_tick := t, c_db := ?d\<rparr>)) i (unat cs) (unat offset) data (Suc a) b d'"
    then show "Q () (c\<lparr>c_tick := t, c_db := ?d, c_tick := s, c_db := d'\<rparr>)"
      using Suc.prems(6)[OF blobs_written_step[OF ab step(4)]] by simp
  next
    show "cursor + unat (?hi - ?lo) = max (unat offset) (Suc a * unat cs) - unat offset" if "Suc a < b"
      by (rule step(2)[OF b[OF that]])
  qed (use Suc.prems in \<open>auto simp: put_blob_def node_of_def\<close>)
  show ?case
    unfolding upt_conv_Cons[OF ab] list.map write_chunks.simps Let_def wp_if if_not_P[OF step(1)] wp_bindE chunk
    by (rule wp_upsert_blob) (use Suc.prems(2) Suc.prems(5)[where d' = "c_db c"] rest in auto)
qed

text \<open>
  The chunks of a file of \<open>sz\<close> bytes: none is longer than the chunk size and none holds bytes
  past the end of the file, which is why a file may grow without being zeroed.
\<close>

definition chunks_fit :: "db \<Rightarrow> inode \<Rightarrow> nat \<Rightarrow> nat \<Rightarrow> bool" where
  "chunks_fit d i C sz \<longleftrightarrow> (\<forall>k b. blob_of d i k = Some b \<longrightarrow>
     length b \<le> C \<and> (b \<noteq> [] \<longrightarrow> unat k * C + length b \<le> sz))"

text \<open>The specification of a write: \<open>data\<close> replaces the bytes from \<open>off\<close>, nothing else changes.\<close>

definition range_written :: "db \<Rightarrow> inode \<Rightarrow> nat \<Rightarrow> nat \<Rightarrow> byte list \<Rightarrow> db \<Rightarrow> bool" where
  "range_written d i C off data d' \<longleftrightarrow>
     blobs_only d d'
     \<and> (\<forall>j. j \<noteq> i \<longrightarrow> blob_of d' j = blob_of d j)
     \<and> (\<forall>x < 2 ^ 64. file_byte d' i C x =
          (if off \<le> x \<and> x < off + length data then data ! (x - off) else file_byte d i C x))
     \<and> (\<forall>sz. chunks_fit d i C sz \<longrightarrow> chunks_fit d' i C (max sz (off + length data)))
     \<and> (data = [] \<longrightarrow> d' = d)"

lemma chunks_fit_mono: "chunks_fit d i C sz \<Longrightarrow> sz \<le> sz' \<Longrightarrow> chunks_fit d i C sz'"
  unfolding chunks_fit_def by (meson order_trans)

lemma chunks_fit_past_end:
  assumes "chunks_fit d i C sz" and "0 < C" and "sz \<le> x" and "x < 2 ^ 64"
  shows "file_byte d i C x = 0"
proof (cases "blob_of d i (of_nat (x div C))")
  case (Some b)
  have "x div C < 2 ^ 64" using div_le_dividend[of x C] assms(4) by linarith
  then have "b \<noteq> [] \<Longrightarrow> (x div C) * C + length b \<le> sz"
    using assms(1) Some unfolding chunks_fit_def by (metis unat_of_nat64)
  moreover have "x = (x div C) * C + x mod C" by simp
  ultimately have "length b \<le> x mod C" using assms(3) by (cases "b = []") (simp, linarith)
  then show ?thesis using Some by (simp add: file_byte_def byte_at_def)
qed (simp add: file_byte_def)

lemma slice_length: "c + k \<le> length xs \<Longrightarrow> length (take k (drop c xs)) = k"
  by simp

lemma piece_bounds:
  fixes off n a b :: nat
  assumes "max off a < min (off + n) b"
  shows "max off a - a \<le> min (off + n) b - a"
    and "(max off a - off) + (min (off + n) b - a - (max off a - a)) \<le> n"
proof -
  have *: "m - a \<le> k - a" "(m - off) + (k - a - (m - a)) \<le> n"
    if "a \<le> m" "off \<le> m" "m < k" "k \<le> off + n" for m k
    using that by linarith+
  show "max off a - a \<le> min (off + n) b - a"
    by (rule *(1)) (use assms in auto)
  show "(max off a - off) + (min (off + n) b - a - (max off a - a)) \<le> n"
    by (rule *(2)) (use assms in auto)
qed

lemma in_piece:
  fixes off n a C t :: nat
  assumes "t < C"
  shows "max off a - a \<le> t \<and> t < min (off + n) (C + a) - a \<longleftrightarrow> off \<le> a + t \<and> a + t < off + n"
proof -
  have "max off a - a \<le> t \<longleftrightarrow> off \<le> a + t" by (cases "off \<le> a") auto
  moreover have "t < min (off + n) (C + a) - a \<longleftrightarrow> a + t < off + n" using assms by linarith
  ultimately show ?thesis by blast
qed

lemma new_chunk_byte:
  assumes "max off (j * C) < min (off + length data) (Suc j * C)" and "t < C"
  shows "byte_at (new_chunk C off data j old) t =
     (if off \<le> j * C + t \<and> j * C + t < off + length data then data ! (j * C + t - off)
      else byte_at (case old of None \<Rightarrow> [] | Some b \<Rightarrow> b) t)"
proof -
  let ?lo = "max off (j * C) - j * C" and ?hi = "min (off + length data) (Suc j * C) - j * C"
  let ?cur = "max off (j * C) - off"
  note le = piece_bounds(1)[OF assms(1)]
  have le_data: "?cur + (?hi - ?lo) \<le> length data" by (rule piece_bounds(2)[OF assms(1)])
  have len: "length (take (?hi - ?lo) (drop ?cur data)) = ?hi - ?lo"
    by (rule slice_length[OF le_data])
  have in_range: "?lo \<le> t \<and> t < ?hi \<longleftrightarrow> off \<le> j * C + t \<and> j * C + t < off + length data"
    unfolding mult_Suc by (rule in_piece[OF assms(2)])
  have "take (?hi - ?lo) (drop ?cur data) ! (t - ?lo) = data ! (j * C + t - off)"
    if "?lo \<le> t" and "t < ?hi"
  proof -
    have "?cur \<le> length data" using le_data by linarith
    moreover have "?cur + (t - ?lo) = j * C + t - off" using that(1) by (simp add: max_def)
    ultimately show ?thesis using that by (simp only: nth_take nth_drop diff_less_mono)
  qed
  then show ?thesis
    unfolding new_chunk_def Let_def splice_byte[OF len le] using in_range by auto
qed

lemma new_chunk_length:
  assumes "max off (j * C) < min (off + length data) (Suc j * C)"
  shows "length (new_chunk C off data j old) =
    max (min (off + length data) (Suc j * C) - j * C) (length (case old of None \<Rightarrow> [] | Some b \<Rightarrow> b))"
proof -
  let ?lo = "max off (j * C) - j * C" and ?hi = "min (off + length data) (Suc j * C) - j * C"
  have "length (take (?hi - ?lo) (drop (max off (j * C) - off) data)) = ?hi - ?lo"
    by (rule slice_length[OF piece_bounds(2)[OF assms]])
  then show ?thesis
    unfolding new_chunk_def Let_def by (rule splice_length) (rule piece_bounds(1)[OF assms])
qed

lemma in_chunks_iff:
  assumes "0 < C" and "(n :: nat) \<noteq> 0"
  shows "off div C \<le> j \<and> j < Suc ((off + n - 1) div C)
    \<longleftrightarrow> max off (j * C) < min (off + n) (Suc j * C)"
proof -
  have "off div C \<le> j \<longleftrightarrow> off < Suc j * C"
    using div_less_iff_less_mult[OF assms(1), of off "Suc j"] by (simp add: less_Suc_eq_le)
  moreover have "j < Suc ((off + n - 1) div C) \<longleftrightarrow> j * C < off + n"
    using less_eq_div_iff_mult_less_eq[OF assms(1), of j "off + n - 1"] assms(2)
    by (simp add: less_Suc_eq_le) linarith
  ultimately show ?thesis using assms by auto
qed

text \<open>The chunks of a range after a write, then the bytes and the bounds that follow from them.\<close>

lemma blobs_written_blob:
  assumes "0 < C" and "data \<noteq> []"
    and "blobs_written d i C off data (off div C) (Suc ((off + length data - 1) div C)) d'"
  shows "blob_of d' j k = (if j = i \<and> max off (unat k * C) < min (off + length data) (Suc (unat k) * C)
     then Some (new_chunk C off data (unat k) (blob_of d i k)) else blob_of d j k)"
proof -
  have n: "length data \<noteq> 0" using assms(2) by simp
  show ?thesis using assms(3) unfolding blobs_written_def in_chunks_iff[OF assms(1) n] by simp
qed

lemma written_bytes:
  assumes C: "0 < C" and blob: "\<And>k. blob_of d' i k = (if max off (unat k * C) < min (off + length data) (Suc (unat k) * C)
       then Some (new_chunk C off data (unat k) (blob_of d i k)) else blob_of d i k)"
    and "x < 2 ^ 64"
  shows "file_byte d' i C x = (if off \<le> x \<and> x < off + length data then data ! (x - off) else file_byte d i C x)"
proof -
  let ?j = "x div C"
  have x: "?j * C + x mod C = x" by simp
  have t: "x mod C < C" using C by simp
  have "?j < 2 ^ 64" using div_le_dividend[of x C] assms(3) by linarith
  then have j: "unat (of_nat ?j :: u64) = ?j" by (rule unat_of_nat64)
  show ?thesis
  proof (cases "max off (?j * C) < min (off + length data) (Suc ?j * C)")
    case True
    then have "file_byte d' i C x = byte_at (new_chunk C off data ?j (blob_of d i (of_nat ?j))) (x mod C)"
      by (simp only: file_byte_def blob j simp_thms if_True option.case)
    also have "\<dots> = (if off \<le> x \<and> x < off + length data then data ! (x - off)
        else byte_at (case blob_of d i (of_nat ?j) of None \<Rightarrow> [] | Some b \<Rightarrow> b) (x mod C))"
      using new_chunk_byte[OF True t] unfolding x .
    finally show ?thesis by (auto simp: file_byte_def byte_at_def split: option.split)
  next
    case False
    then have "file_byte d' i C x = file_byte d i C x"
      by (simp only: file_byte_def blob j simp_thms if_False)
    moreover have "x < Suc ?j * C" unfolding mult_Suc using x t by linarith
    moreover have "?j * C \<le> x" using x by linarith
    ultimately have "\<not> (off \<le> x \<and> x < off + length data)"
      using False C unfolding max_less_iff_conj min_less_iff_conj mult_Suc by linarith
    with \<open>file_byte d' i C x = file_byte d i C x\<close> show ?thesis by (simp only: if_False)
  qed
qed

lemma written_fit:
  assumes blob: "\<And>k. blob_of d' i k = (if max off (unat k * C) < min (off + length data) (Suc (unat k) * C)
       then Some (new_chunk C off data (unat k) (blob_of d i k)) else blob_of d i k)"
    and fit: "chunks_fit d i C sz"
  shows "chunks_fit d' i C (max sz (off + length data))"
  unfolding chunks_fit_def
proof (intro allI impI)
  fix k b assume b: "blob_of d' i k = Some b"
  show "length b \<le> C \<and> (b \<noteq> [] \<longrightarrow> unat k * C + length b \<le> max sz (off + length data))"
  proof (cases "max off (unat k * C) < min (off + length data) (Suc (unat k) * C)")
    case True
    let ?old = "case blob_of d i k of None \<Rightarrow> [] | Some b \<Rightarrow> b"
    have "length ?old \<le> C \<and> (?old \<noteq> [] \<longrightarrow> unat k * C + length ?old \<le> sz)"
      using fit by (auto simp: chunks_fit_def split: option.split)
    moreover have "length b = max (min (off + length data) (Suc (unat k) * C) - unat k * C) (length ?old)"
      using b True by (auto simp: blob new_chunk_length[OF True])
    ultimately show ?thesis using True by (cases "?old = []") (auto simp: max_def min_def)
  next
    case False
    then have "blob_of d i k = Some b" using b by (simp only: blob if_False simp_thms)
    then show ?thesis using fit unfolding chunks_fit_def by fastforce
  qed
qed

lemma blobs_written_range:
  assumes C: "0 < C" and data: "data \<noteq> []"
    and w: "blobs_written d i C off data (off div C) (Suc ((off + length data - 1) div C)) d'"
  shows "range_written d i C off data d'"
proof -
  note blob = blobs_written_blob[OF C data w]
  have "blob_of d' j = blob_of d j" if "j \<noteq> i" for j using that blob by (intro ext) simp
  moreover have "file_byte d' i C x = (if off \<le> x \<and> x < off + length data then data ! (x - off) else file_byte d i C x)"
    if "x < 2 ^ 64" for x by (rule written_bytes[OF C _ that]) (simp add: blob)
  moreover have "chunks_fit d' i C (max sz (off + length data))" if "chunks_fit d i C sz" for sz
    by (rule written_fit[OF _ that]) (simp add: blob)
  ultimately show ?thesis using w data unfolding range_written_def blobs_written_def by blast
qed

lemma range_written_Nil: "range_written d i C off [] d"
  by (auto simp: range_written_def elim: chunks_fit_mono)

text \<open>The chunks a writing touches: all of them begin before the end of the data.\<close>

lemma write_window:
  fixes offset cs :: u64
  assumes C: "cs \<noteq> 0" and range: "unat offset + length data \<le> 2 ^ 63" and data: "data \<noteq> []"
  shows "unat (offset + of_nat (length data)) = unat offset + length data"
    and "range_incl (offset div cs) ((offset + of_nat (length data) - 1) div cs)
      = map of_nat [unat offset div unat cs ..< Suc ((unat offset + length data - 1) div unat cs)]"
    and "j < Suc ((unat offset + length data - 1) div unat cs) \<Longrightarrow> j * unat cs < unat offset + length data"
proof -
  have n: "unat (of_nat (length data) :: u64) = length data" by (rule unat_of_nat64) (use range in simp)
  show stop: "unat (offset + of_nat (length data)) = unat offset + length data"
    by (subst unat_add64) (use range n in auto)
  have lt: "unat offset < unat (offset + of_nat (length data))" using data by (simp add: stop)
  show "range_incl (offset div cs) ((offset + of_nat (length data) - 1) div cs)
      = map of_nat [unat offset div unat cs ..< Suc ((unat offset + length data - 1) div unat cs)]"
    using chunk_id_bounds[OF C lt] unfolding stop .
  assume "j < Suc ((unat offset + length data - 1) div unat cs)"
  then have "j * unat cs \<le> unat offset + length data - 1"
    using unat_pos64[OF C] by (simp only: less_Suc_eq_le less_eq_div_iff_mult_less_eq)
  then show "j * unat cs < unat offset + length data" using lt stop by linarith
qed

lemma wp_write_range [wp_rules]:
  assumes "cs \<noteq> 0" and "unat offset + length data \<le> 2 ^ 63" and "node_of (c_db c) i \<noteq> None"
    and E: "\<And>t d'. \<not> reliable c \<Longrightarrow> E (Fail (Sqlite IoFault)) (c\<lparr>c_tick := t, c_db := d'\<rparr>)"
    and Q: "\<And>t d'. range_written (c_db c) i (unat cs) (unat offset) data d'
      \<Longrightarrow> Q (if data = [] then fsz else max fsz (offset + of_nat (length data))) (c\<lparr>c_tick := t, c_db := d'\<rparr>)"
  shows "wp (write_range i data offset fsz cs) Q E c"
proof (cases "data = []")
  case True
  then show ?thesis
    using Q[OF range_written_Nil[folded True], of "c_tick c"] by (simp add: write_range_def wp_eqs)
next
  case False
  let ?stop = "offset + of_nat (length data) :: u64"
    and ?a = "unat offset div unat cs" and ?b = "Suc ((unat offset + length data - 1) div unat cs)"
  note C0 = unat_pos64[OF assms(1)] and w = write_window[OF assms(1,2) False]
  show ?thesis
    unfolding write_range_def if_not_P[OF False] if_not_P[OF assms(1)] Let_def wp_bindE w(2)
  proof (rule wp_query)
    fix t assume "\<not> reliable c"
    then show "E (Fail (Sqlite IoFault)) (c\<lparr>c_tick := t\<rparr>)" using E[of "c_db c" t] by simp
  next
    fix t
    show "wp (write_chunks (map of_nat [?a ..< ?b]) i data offset cs
         (map_of (chunks_between (c_db c) i (offset div cs) ((?stop - 1) div cs))) 0)
       (\<lambda>_. wp (ret (max fsz ?stop)) Q E) E (c\<lparr>c_tick := t\<rparr>)"
    proof (rule wp_write_chunks[OF assms(1,2)])
      fix j assume "?a \<le> j" and "j < ?b"
      then have "between (offset div cs) ((?stop - 1) div cs) (of_nat j)"
        by (intro chunk_between[OF assms(1)]) (use w(1) assms(2) False in auto)
      then show "map_of (chunks_between (c_db c) i (offset div cs) ((?stop - 1) div cs)) (of_nat j)
          = blob_of (c_db (c\<lparr>c_tick := t\<rparr>)) i (of_nat j)" by (simp add: map_of_chunks_between)
    next
      show "0 = max (unat offset) (?a * unat cs) - unat offset" by simp
    next
      fix s d' assume "blobs_written (c_db (c\<lparr>c_tick := t\<rparr>)) i (unat cs) (unat offset) data ?a ?b d'"
      then have "range_written (c_db c) i (unat cs) (unat offset) data d'"
        by (intro blobs_written_range[OF C0 False]) simp
      from Q[OF this, of s] show "wp (ret (max fsz ?stop)) Q E (c\<lparr>c_tick := t, c_tick := s, c_db := d'\<rparr>)"
        using False by (simp add: wp_eqs)
    qed (use assms(3) False w(3) E in auto)
  qed
qed

section \<open>Truncating\<close>

text \<open>The specification: the bytes from \<open>new_size\<close> on are zero, nothing else changes.\<close>

definition range_truncated :: "db \<Rightarrow> inode \<Rightarrow> nat \<Rightarrow> nat \<Rightarrow> db \<Rightarrow> bool" where
  "range_truncated d i C sz d' \<longleftrightarrow>
     blobs_only d d'
     \<and> (\<forall>j. j \<noteq> i \<longrightarrow> blob_of d' j = blob_of d j)
     \<and> (\<forall>x < 2 ^ 63. file_byte d' i C x = (if x < sz then file_byte d i C x else 0))
     \<and> chunks_fit d' i C sz"

lemma sint_less_unat64: "unat (a :: u64) < 2 ^ 63 \<Longrightarrow> unat (b :: u64) < 2 ^ 63 \<Longrightarrow> sint a < sint b \<longleftrightarrow> unat a < unat b"
  by (simp only: sint_unat64[of a] sint_unat64[of b] of_nat_less_iff)

lemma truncated_bytes:
  assumes high: "\<And>k. sz div C < unat k \<Longrightarrow> unat k < 2 ^ 63 \<Longrightarrow> blob_of d' i k = None"
    and low: "\<And>k. unat k < sz div C \<Longrightarrow> blob_of d' i k = blob_of d i k"
    and at: "\<And>k. unat k = sz div C \<Longrightarrow>
      blob_of d' i k = (if sz mod C = 0 then None else map_option (take (sz mod C)) (blob_of d i k))"
    and x: "x < 2 ^ 63"
  shows "file_byte d' i C x = (if x < sz then file_byte d i C x else 0)"
proof -
  have j63: "x div C < 2 ^ 63" using div_le_dividend[of x C] x by linarith
  have j: "unat (of_nat (x div C) :: u64) = x div C"
    by (rule unat_of_nat64) (rule order.strict_trans[OF j63], simp)
  consider "x div C < sz div C" | "x div C = sz div C" | "sz div C < x div C" by linarith
  then show ?thesis
  proof cases
    case 1
    then have "x < sz" using div_le_mono[of sz x C] by linarith
    moreover have "blob_of d' i (of_nat (x div C)) = blob_of d i (of_nat (x div C))"
      using low[of "of_nat (x div C)"] 1 j by simp
    ultimately show ?thesis by (simp add: file_byte_def)
  next
    case 2
    have iff: "x < sz \<longleftrightarrow> x mod C < sz mod C"
      by (metis 2 add_less_cancel_left div_mult_mod_eq)
    show ?thesis using at[of "of_nat (x div C)"] 2 j
      by (auto simp: file_byte_def byte_at_def iff split: option.split)
  next
    case 3
    then have "\<not> x < sz" using div_le_mono[of x sz C] by linarith
    moreover have "blob_of d' i (of_nat (x div C)) = None" using high[of "of_nat (x div C)"] 3 j j63 by simp
    ultimately show ?thesis by (simp add: file_byte_def)
  qed
qed

lemma truncated_fit:
  assumes C: "0 < C" and osz: "osz < 2 ^ 63" and fit: "chunks_fit d i C osz"
    and high: "\<And>k. sz div C < unat k \<Longrightarrow> unat k < 2 ^ 63 \<Longrightarrow> blob_of d' i k = None"
    and neg: "\<And>k. blob_of d' i k \<noteq> None \<Longrightarrow> blob_of d' i k = blob_of d i k \<or> unat k = sz div C"
    and low: "\<And>k. unat k < sz div C \<Longrightarrow> blob_of d' i k = blob_of d i k"
    and at: "\<And>k. unat k = sz div C \<Longrightarrow>
      blob_of d' i k = (if sz mod C = 0 then None else map_option (take (sz mod C)) (blob_of d i k))"
  shows "chunks_fit d' i C sz"
  unfolding chunks_fit_def
proof (intro allI impI)
  fix k b assume b: "blob_of d' i k = Some b"
  consider "unat k < sz div C" | "unat k = sz div C" | "sz div C < unat k" by linarith
  then show "length b \<le> C \<and> (b \<noteq> [] \<longrightarrow> unat k * C + length b \<le> sz)"
  proof cases
    case 1
    then have l: "length b \<le> C" using b low fit unfolding chunks_fit_def by metis
    have "Suc (unat k) * C \<le> sz"
      using 1 C by (simp only: Suc_le_eq[symmetric] less_eq_div_iff_mult_less_eq)
    then show ?thesis using l by simp
  next
    case 2
    then obtain b0 where "b = take (sz mod C) b0" using b at[OF 2] by (auto split: if_splits)
    moreover have "unat k * C + sz mod C = sz" using 2 by simp
    moreover have "sz mod C < C" using C by simp
    ultimately show ?thesis by auto
  next
    case 3
    then have "\<not> unat k < 2 ^ 63" using high[of k] b by auto
    moreover have "blob_of d i k = Some b" using neg[of k] b 3 by auto
    then have l: "length b \<le> C" "b \<noteq> [] \<longrightarrow> unat k * C + length b \<le> osz"
      using fit unfolding chunks_fit_def by auto
    moreover have "unat k \<le> unat k * C" using C by (cases C) auto
    ultimately have "b = []" using osz by linarith
    then show ?thesis by simp
  qed
qed

lemma truncated_by_blobs:
  assumes C: "0 < C" and osz: "osz < 2 ^ 63" and fit: "chunks_fit d i C osz"
    and only: "blobs_only d d'"
    and other: "\<And>j. j \<noteq> i \<Longrightarrow> blob_of d' j = blob_of d j"
    and high: "\<And>k. sz div C < unat k \<Longrightarrow> unat k < 2 ^ 63 \<Longrightarrow> blob_of d' i k = None"
    and neg: "\<And>k. blob_of d' i k \<noteq> None \<Longrightarrow> blob_of d' i k = blob_of d i k \<or> unat k = sz div C"
    and low: "\<And>k. unat k < sz div C \<Longrightarrow> blob_of d' i k = blob_of d i k"
    and at: "\<And>k. unat k = sz div C \<Longrightarrow>
      blob_of d' i k = (if sz mod C = 0 then None else map_option (take (sz mod C)) (blob_of d i k))"
  shows "range_truncated d i C sz d'"
  using only other truncated_bytes[OF high low at] truncated_fit[OF C osz fit high neg low at]
  unfolding range_truncated_def by blast

text \<open>The tables after the statements of \<open>truncate_to\<close>, for a size at a boundary of chunks and inside a chunk.\<close>

abbreviation cut_blobs :: "inode \<Rightarrow> u64 \<Rightarrow> db \<Rightarrow> db" where
  "cut_blobs i b d \<equiv> del_blobs i (\<lambda>k. sint b < sint k) d"

lemma truncated_tables:
  assumes C: "0 < unat cs" and osz: "unat old_size < 2 ^ 63" and lt: "unat new_size < unat old_size"
    and fit: "chunks_fit d i (unat cs) (unat old_size)" and b: "b = new_size div cs"
  shows "unat new_size mod unat cs = 0 \<Longrightarrow>
      range_truncated d i (unat cs) (unat new_size) (del_blobs i (\<lambda>k. k = b) (cut_blobs i b d))"
    and "unat new_size mod unat cs \<noteq> 0 \<Longrightarrow> blob_of d i b = Some x \<Longrightarrow>
      range_truncated d i (unat cs) (unat new_size) (set_blob i b (take (unat new_size mod unat cs) x) (cut_blobs i b d))"
    and "unat new_size mod unat cs \<noteq> 0 \<Longrightarrow> blob_of d i b = None \<Longrightarrow> range_truncated d i (unat cs) (unat new_size) (cut_blobs i b d)"
    and "blob_of (cut_blobs i b d) i b = blob_of d i b"
proof -
  have ub: "unat b = unat new_size div unat cs" by (simp add: b unat_div)
  have b63: "unat b < 2 ^ 63"
    unfolding ub using div_le_dividend[of "unat new_size" "unat cs"] lt osz by linarith
  have eq: "k = b \<longleftrightarrow> unat k = unat new_size div unat cs" for k :: u64 using ub by (metis unsigned_word_eqI)
  have low: "\<not> sint b < sint k" if "unat k \<le> unat new_size div unat cs" for k :: u64
    using sint_less_unat64[OF b63, of k] that ub b63 by simp
  have high: "sint b < sint k" if "unat new_size div unat cs < unat k" "unat k < 2 ^ 63" for k :: u64
    using sint_less_unat64[OF b63 that(2)] that(1) ub by simp
  note trunc = truncated_by_blobs[OF C osz fit]
  show "range_truncated d i (unat cs) (unat new_size) (del_blobs i (\<lambda>k. k = b) (cut_blobs i b d))"
    if "unat new_size mod unat cs = 0"
    by (rule trunc[OF blobs_only_trans[OF blobs_only_effects(2) blobs_only_effects(2)]])
      (use that low low[OF less_imp_le] high eq in \<open>auto simp: fun_eq_iff\<close>)
  show "range_truncated d i (unat cs) (unat new_size) (set_blob i b (take (unat new_size mod unat cs) x) (cut_blobs i b d))"
    if "unat new_size mod unat cs \<noteq> 0" and "blob_of d i b = Some x"
    by (rule trunc[OF blobs_only_trans[OF blobs_only_effects(2) blobs_only_effects(3)]])
      (use that low low[OF less_imp_le] high in \<open>auto simp: fun_eq_iff ub simp flip: eq split: if_splits\<close>)
  show "range_truncated d i (unat cs) (unat new_size) (cut_blobs i b d)"
    if "unat new_size mod unat cs \<noteq> 0" and "blob_of d i b = None"
    by (rule trunc[OF blobs_only_effects(2)]) (use that low low[OF less_imp_le] high in \<open>auto simp: fun_eq_iff ub simp flip: eq\<close>)
  show "blob_of (cut_blobs i b d) i b = blob_of d i b" using low[of b] ub by simp
qed

lemma wp_truncate_to [wp_rules]:
  assumes cs: "cs \<noteq> 0" and osz: "unat old_size < 2 ^ 63"
    and fit: "chunks_fit (c_db c) i (unat cs) (unat old_size)" and rel: "reliable c"
    and Q: "\<And>t d'. if old_size \<le> new_size then d' = c_db c
        else range_truncated (c_db c) i (unat cs) (unat new_size) d'
      \<Longrightarrow> Q () (c\<lparr>c_tick := t, c_db := d'\<rparr>)"
  shows "wp (truncate_to i new_size old_size cs) Q E c"
proof (cases "old_size \<le> new_size")
  case True
  then show ?thesis using Q[of "c_db c" "c_tick c"] by (simp add: truncate_to_def wp_eqs)
next
  case False
  let ?b = "new_size div cs" and ?d = "c_db c"
  let ?d1 = "cut_blobs i ?b ?d"
  have lt: "unat new_size < unat old_size" using False by (simp add: word_le_nat_alt)
  have m: "unat (new_size mod cs) = unat new_size mod unat cs" by (simp add: unat_mod)
  note tables = truncated_tables[OF unat_pos64[OF cs] osz lt fit refl]
  have ok_read: "wp (ok (query (\<lambda>d. blob_of d i ?b)))
      (\<lambda>row. wp (case row of None \<Rightarrow> ret () | Some None \<Rightarrow> ret ()
         | Some (Some b) \<Rightarrow> update_db (set_blob i ?b (take (unat new_size mod unat cs) b))) Q E) E
      (c\<lparr>c_tick := t, c_db := ?d1\<rparr>)" if "unat new_size mod unat cs \<noteq> 0" for t
    unfolding wp_ok
  proof (rule wp_query)
    fix t'
    show "wp (case Some (blob_of (c_db (c\<lparr>c_tick := t, c_db := ?d1\<rparr>)) i ?b) of None \<Rightarrow> ret () | Some None \<Rightarrow> ret ()
         | Some (Some b) \<Rightarrow> update_db (set_blob i ?b (take (unat new_size mod unat cs) b))) Q E
         (c\<lparr>c_tick := t, c_db := ?d1, c_tick := t'\<rparr>)"
      using Q[of ?d1] tables(3)[OF that] tables(2)[OF that] False tables(4) rel
      by (cases "blob_of ?d i ?b") (auto simp: wp_eqs intro!: wp_update_db Q)
  qed (use rel in auto)
  show ?thesis
    unfolding truncate_to_def if_not_P[OF False] if_not_P[OF cs] Let_def wp_bindE m
    by (rule wp_update_db) (use ok_read tables(1) Q False rel in \<open>auto simp: wp_bindE intro!: wp_update_db\<close>)
qed

section \<open>The interface: a file of bytes\<close>

locale byte_file =
  fixes content :: "'s \<Rightarrow> nat \<Rightarrow> byte"
    and writes :: "'s \<Rightarrow> nat \<Rightarrow> byte list \<Rightarrow> 's \<Rightarrow> bool"
    and reads :: "'s \<Rightarrow> nat \<Rightarrow> nat \<Rightarrow> byte list \<Rightarrow> bool"
  assumes written: "writes s off data s' \<Longrightarrow> x < 2 ^ 63 \<Longrightarrow>
      content s' x = (if off \<le> x \<and> x < off + length data then data ! (x - off) else content s x)"
    and read: "reads s off n r \<Longrightarrow> off + n \<le> 2 ^ 63 \<and> r = map (content s) [off ..< off + n]"
begin

lemma read_after_write:
  assumes "writes s off data s'" and "reads s' off (length data) r"
  shows "r = data"
  using written[OF assms(1)] read[OF assms(2)] by (auto intro!: nth_equalityI)

lemma read_elsewhere:
  assumes "writes s off data s'" and "reads s p n r" and "reads s' p n r'"
    and "p + n \<le> off \<or> off + length data \<le> p"
  shows "r' = r"
  using written[OF assms(1)] read[OF assms(2)] read[OF assms(3)] assms(4) by auto

lemma last_write_wins:
  assumes "writes s off data s1" and "writes s1 off data' s2" and "length data' = length data"
    and "x < 2 ^ 63"
  shows "content s2 x = (if off \<le> x \<and> x < off + length data then data' ! (x - off) else content s x)"
  using written[OF assms(1) assms(4)] written[OF assms(2) assms(4)] assms(3) by auto

lemma writes_commute:
  assumes "writes s p xs s1" and "writes s1 q ys s2" and "writes s q ys t1" and "writes t1 p xs t2"
    and "p + length xs \<le> q \<or> q + length ys \<le> p" and "x < 2 ^ 63"
  shows "content s2 x = content t2 x"
  using written[OF assms(1) assms(6)] written[OF assms(2) assms(6)] written[OF assms(3) assms(6)]
    written[OF assms(4) assms(6)] assms(5) by auto

end

definition blob_writes :: "inode \<Rightarrow> u64 \<Rightarrow> conn \<Rightarrow> nat \<Rightarrow> byte list \<Rightarrow> conn \<Rightarrow> bool" where
  "blob_writes i cs c off data c' \<longleftrightarrow> cs \<noteq> 0 \<and> off + length data < 2 ^ 63 \<and> node_of (c_db c) i \<noteq> None
     \<and> (\<exists>fsz r. write_range i data (of_nat off) fsz cs c = (Inr r, c'))"

definition blob_reads :: "inode \<Rightarrow> u64 \<Rightarrow> conn \<Rightarrow> nat \<Rightarrow> nat \<Rightarrow> byte list \<Rightarrow> bool" where
  "blob_reads i cs c off n r \<longleftrightarrow> cs \<noteq> 0 \<and> keyed (t_blobs (c_db c))
     \<and> (\<exists>fsz c'. off + n \<le> unat fsz \<and> unat fsz < 2 ^ 63
          \<and> read_range i (of_nat off) (of_nat n) fsz cs c = (Inr r, c'))"

lemma write_range_run:
  assumes "cs \<noteq> 0" and "unat offset + length data \<le> 2 ^ 63" and "node_of (c_db c) i \<noteq> None"
  shows "\<exists>t d'. (range_written (c_db c) i (unat cs) (unat offset) data d' \<and> write_range i data offset fsz cs c
        = (Inr (if data = [] then fsz else max fsz (offset + of_nat (length data))), c\<lparr>c_tick := t, c_db := d'\<rparr>))
      \<or> (\<not> reliable c \<and> write_range i data offset fsz cs c
        = (Inl (Fail (Sqlite IoFault)), c\<lparr>c_tick := t, c_db := d'\<rparr>))"
proof -
  have "wp (write_range i data offset fsz cs)
      (\<lambda>r c'. \<exists>t d'. c' = c\<lparr>c_tick := t, c_db := d'\<rparr> \<and> range_written (c_db c) i (unat cs) (unat offset) data d'
         \<and> r = (if data = [] then fsz else max fsz (offset + of_nat (length data))))
      (\<lambda>e c'. \<exists>t d'. c' = c\<lparr>c_tick := t, c_db := d'\<rparr> \<and> \<not> reliable c \<and> e = Fail (Sqlite IoFault)) c"
    by (rule wp_write_range) (use assms in blast)+
  then show ?thesis unfolding wp_def by (auto split: prod.splits sum.splits; blast)
qed

lemma read_range_run:
  assumes "cs \<noteq> 0" and "keyed (t_blobs (c_db c))" and "unat offset + unat len < 2 ^ 64" and "unat fsz < 2 ^ 63"
  shows "\<exists>t. read_range i offset len fsz cs c = (Inr (file_range (c_db c) i (unat cs) (unat offset)
        (min (unat offset + unat len) (unat fsz))), c\<lparr>c_tick := t\<rparr>)
      \<or> (\<not> reliable c \<and> read_range i offset len fsz cs c = (Inl (Fail (Sqlite IoFault)), c\<lparr>c_tick := t\<rparr>))"
proof -
  have "wp (read_range i offset len fsz cs)
      (\<lambda>r c'. \<exists>t. c' = c\<lparr>c_tick := t\<rparr> \<and> r = file_range (c_db c) i (unat cs) (unat offset)
        (min (unat offset + unat len) (unat fsz)))
      (\<lambda>e c'. \<exists>t. c' = c\<lparr>c_tick := t\<rparr> \<and> \<not> reliable c \<and> e = Fail (Sqlite IoFault)) c"
    by (rule wp_read_range) (use assms in blast)+
  then show ?thesis unfolding wp_def by (auto split: prod.splits sum.splits; blast)
qed

interpretation blob_file: byte_file "\<lambda>c. file_byte (c_db c) i (unat cs)" "blob_writes i cs" "blob_reads i cs"
  for i cs
proof
  fix s s' off data and x :: nat
  assume w: "blob_writes i cs s off data s'" and x: "x < 2 ^ 63"
  then have off: "unat (of_nat off :: u64) = off" by (intro unat_of_nat64) (simp add: blob_writes_def)
  obtain fsz r where "write_range i data (of_nat off) fsz cs s = (Inr r, s')" and "cs \<noteq> 0"
    and "off + length data < 2 ^ 63" and "node_of (c_db s) i \<noteq> None" using w by (auto simp: blob_writes_def)
  then have "range_written (c_db s) i (unat cs) off data (c_db s')"
    using write_range_run[of cs "of_nat off" data s i fsz] off by auto
  moreover have "x < 2 ^ 64" using x by simp
  ultimately show "file_byte (c_db s') i (unat cs) x
      = (if off \<le> x \<and> x < off + length data then data ! (x - off) else file_byte (c_db s) i (unat cs) x)"
    unfolding range_written_def by blast
next
  fix s off n r assume r: "blob_reads i cs s off n r"
  then obtain fsz c' where f: "off + n \<le> unat fsz" "unat fsz < 2 ^ 63" "cs \<noteq> 0" "keyed (t_blobs (c_db s))"
    and run: "read_range i (of_nat off) (of_nat n) fsz cs s = (Inr r, c')" by (auto simp: blob_reads_def)
  then have "unat (of_nat off :: u64) = off" "unat (of_nat n :: u64) = n"
    by (auto intro!: unat_of_nat64)
  then have "r = file_range (c_db s) i (unat cs) off (off + n)"
    using read_range_run[of cs s "of_nat off" "of_nat n" fsz i] f run by (auto simp: min_absorb1)
  then show "off + n \<le> 2 ^ 63 \<and> r = map (file_byte (c_db s) i (unat cs)) [off ..< off + n]"
    using f by (simp add: file_range_def)
qed

section \<open>Properties\<close>

text \<open>A database with one empty file, inode 2, to instantiate the properties on.\<close>

definition demo_db :: db where
  "demo_db = empty_tables\<lparr>t_nodes := [(1, fresh_node Dir 0x1ED 0 0 7), (2, fresh_node File 0x1A4 0 0 7)],
     t_seq := 2, t_version := [(2, 4)]\<rparr>"

lemma demo_db_simps [simp]:
  "keyed (t_blobs demo_db)" "node_of demo_db 2 = Some (fresh_node File 0x1A4 0 0 7)" "blob_of demo_db i k = None"
  by (simp_all add: demo_db_def empty_tables_def node_of_def blob_of_def)

text \<open>
  C14 (read_range): a read returns exactly the bytes of the file from the offset up to the end of
  the request or of the file, holes as zeroes, and changes no table; the only other outcome is a
  failure of the database.  It never panics and never returns other bytes.
\<close>

theorem read_range_correct:
  assumes "cs \<noteq> 0" and "keyed (t_blobs (c_db c))" and "unat offset + unat len < 2 ^ 64" and "unat fsz < 2 ^ 63"
  shows "\<exists>t. read_range i offset len fsz cs c = (Inr (file_range (c_db c) i (unat cs) (unat offset)
        (min (unat offset + unat len) (unat fsz))), c\<lparr>c_tick := t\<rparr>)
      \<or> (\<not> reliable c \<and> read_range i offset len fsz cs c = (Inl (Fail (Sqlite IoFault)), c\<lparr>c_tick := t\<rparr>))"
  by (rule read_range_run[OF assms])

theorem read_range_correct_witness:
  "\<exists>t. read_range 2 4 2 6 4 (connect demo_db) = (Inr (file_range demo_db 2 4 4 6), (connect demo_db)\<lparr>c_tick := t\<rparr>)"
  using read_range_correct[of 4 "connect demo_db" 4 2 6 2] by simp

text \<open>
  C13 (write_range): a write replaces the bytes from the offset by the data and changes no other
  byte of the file, no other file and no other table; the chunks stay within the chunk size and
  the new end of the file, and the size returned is the larger of the old size and the end of the
  data.  The only other outcome is a failure of the database.
\<close>

theorem write_range_correct:
  assumes "cs \<noteq> 0" and "unat offset + length data \<le> 2 ^ 63" and "node_of (c_db c) i \<noteq> None"
  shows "\<exists>t d'. (range_written (c_db c) i (unat cs) (unat offset) data d' \<and> write_range i data offset fsz cs c
        = (Inr (if data = [] then fsz else max fsz (offset + of_nat (length data))), c\<lparr>c_tick := t, c_db := d'\<rparr>))
      \<or> (\<not> reliable c \<and> write_range i data offset fsz cs c
        = (Inl (Fail (Sqlite IoFault)), c\<lparr>c_tick := t, c_db := d'\<rparr>))"
  by (rule write_range_run[OF assms])

theorem write_range_correct_witness:
  "\<exists>t d'. range_written demo_db 2 4 3 [9, 8] d'
      \<and> write_range 2 [9, 8] 3 0 4 (connect demo_db) = (Inr 5, (connect demo_db)\<lparr>c_tick := t, c_db := d'\<rparr>)"
  using write_range_correct[of 4 3 "[9, 8]" "connect demo_db" 2 0] by simp

text \<open>
  What was written is what is read: after a successful write, a
  successful read of the same range returns the data.
\<close>

theorem write_read_roundtrip:
  assumes "cs \<noteq> 0" and "keyed (t_blobs (c_db c))" and "node_of (c_db c) i \<noteq> None"
    and "unat offset + length data < 2 ^ 63" and "unat fsz < 2 ^ 63" and "data \<noteq> []"
    and "write_range i data offset fsz cs c = (Inr fsz', c')"
    and "read_range i offset (of_nat (length data)) fsz' cs c' = (Inr r, c'')"
  shows "r = data"
proof (rule blob_file.read_after_write)
  show "blob_writes i cs c (unat offset) data c'" using assms by (auto simp: blob_writes_def)
  have n: "unat (of_nat (length data) :: u64) = length data"
    by (rule unat_of_nat64) (use assms(4) in simp)
  have "range_written (c_db c) i (unat cs) (unat offset) data (c_db c')"
    and "fsz' = max fsz (offset + of_nat (length data))"
    using write_range_run[OF assms(1) less_imp_le[OF assms(4)] assms(3), of fsz] assms(6,7) by auto
  then have "keyed (t_blobs (c_db c'))" and "unat fsz' = max (unat fsz) (unat offset + length data)"
    using assms(2,4) n by (auto simp: range_written_def blobs_only_def unat_add64)
  then show "blob_reads i cs c' (unat offset) (length data) r"
    using assms by (auto simp: blob_reads_def intro!: exI[of _ fsz'])
qed

theorem write_read_roundtrip_witness:
  "\<exists>s' c'. write_range 2 [7, 6, 5] 2 0 4 (connect demo_db) = (Inr s', c')
      \<and> fst (read_range 2 2 (of_nat (length [7, 6, 5 :: byte])) s' 4 c') = Inr [7, 6, 5]"
proof -
  obtain t d' where w: "range_written demo_db 2 4 2 [7, 6, 5] d'"
    and run: "write_range 2 [7, 6, 5] 2 0 4 (connect demo_db) = (Inr 5, (connect demo_db)\<lparr>c_tick := t, c_db := d'\<rparr>)"
    using write_range_run[of 4 2 "[7, 6, 5]" "connect demo_db" 2 0] by auto
  have "keyed (t_blobs d')" using w by (auto simp: range_written_def blobs_only_def)
  then obtain r c'' where rd: "read_range 2 2 (of_nat (length [7, 6, 5 :: byte])) 5 4
      ((connect demo_db)\<lparr>c_tick := t, c_db := d'\<rparr>) = (Inr r, c'')"
    using read_range_run[of 4 "(connect demo_db)\<lparr>c_tick := t, c_db := d'\<rparr>" 2 3 5 2] by auto
  have "r = [7, 6, 5]"
    by (rule write_read_roundtrip[OF _ _ _ _ _ _ run rd]) simp_all
  then show ?thesis using run rd by auto
qed

lemma truncate_run:
  assumes "cs \<noteq> 0" and "unat old_size < 2 ^ 63" and "chunks_fit (c_db c) i (unat cs) (unat old_size)"
    and "reliable c"
  shows "\<exists>t d'. truncate_to i new_size old_size cs c = (Inr (), c\<lparr>c_tick := t, c_db := d'\<rparr>)
      \<and> (if old_size \<le> new_size then d' = c_db c
         else range_truncated (c_db c) i (unat cs) (unat new_size) d')"
proof -
  have "wp (truncate_to i new_size old_size cs)
      (\<lambda>r c'. \<exists>t d'. c' = c\<lparr>c_tick := t, c_db := d'\<rparr> \<and> (if old_size \<le> new_size then d' = c_db c
         else range_truncated (c_db c) i (unat cs) (unat new_size) d')) (\<lambda>_ _. False) c"
    by (rule wp_truncate_to) (use assms in blast)+
  from wp_returns[OF this] show ?thesis by fastforce
qed

text \<open>
  C15 (truncate_to): shrinking a file keeps the bytes before the new size and zeroes all from it
  on, so that the file can grow again without showing old data; nothing else changes.  A size that
  is not smaller changes nothing.
\<close>

theorem truncate_correct:
  assumes "cs \<noteq> 0" and "unat old_size < 2 ^ 63" and "chunks_fit (c_db c) i (unat cs) (unat old_size)"
    and "reliable c"
  shows "\<exists>t d'. truncate_to i new_size old_size cs c = (Inr (), c\<lparr>c_tick := t, c_db := d'\<rparr>)
      \<and> (if old_size \<le> new_size then d' = c_db c
         else range_truncated (c_db c) i (unat cs) (unat new_size) d')"
  by (rule truncate_run[OF assms])

theorem truncate_correct_witness:
  "\<exists>t d'. truncate_to 2 3 9 4 (connect (put_blob 2 1 [1, 2, 3] demo_db))
        = (Inr (), (connect (put_blob 2 1 [1, 2, 3] demo_db))\<lparr>c_tick := t, c_db := d'\<rparr>)
      \<and> range_truncated (put_blob 2 1 [1, 2, 3] demo_db) 2 4 3 d'"
  using truncate_correct[of 4 9 "connect (put_blob 2 1 [1, 2, 3] demo_db)" 2 3]
  by (simp add: chunks_fit_def)

text \<open>
  The result of the query for the boundary chunk is taken with \<open>.ok()\<close>, so a
  failure of that one statement is not reported: here the second statement fails, the
  call returns \<open>Ok\<close>, and a byte past the new size is still there.
\<close>

theorem truncate_swallows_failure:
  "\<exists>c'. truncate_to 2 1 4 4 ((connect (put_blob 2 0 [1, 2, 3, 4] demo_db))\<lparr>c_fault := (\<lambda>t. t = 1)\<rparr>) = (Inr (), c')
      \<and> file_byte (c_db c') 2 4 3 = 4"
proof -
  have "del_blobs 2 (\<lambda>k. sint (0 :: u64) < sint k) (put_blob 2 0 [1, 2, 3, 4] demo_db)
      = put_blob 2 0 [1, 2, 3, 4] demo_db"
    by (simp add: del_blobs_def put_blob_def demo_db_def empty_tables_def)
  then show ?thesis
    by (simp add: truncate_to_def Let_def bindE_def update_db_def query_def stmt_def ok_def connect_def ret_def
        file_byte_def byte_at_def)
qed

text \<open>
  A chunk size of zero, which \<open>mkfs\<close> accepts, makes every
  non-empty access panic with a division by zero.
\<close>

lemma zero_chunk_size_panics:
  "fst (write_range i (b # data) offset fsz 0 c) = Inl Panic"
  "offset < fsz \<Longrightarrow> len \<noteq> 0 \<Longrightarrow> fst (read_range i offset len fsz 0 c) = Inl Panic"
  by (auto simp: write_range_def read_range_def throw_def Let_def)

end
