(* ===== verification/Fs_Entries.thy ===== *)
theory Fs_Entries
  imports Fs_Nodes
begin

text \<open>
  Directory entries: \<open>entries.rs\<close>.  Listing is in the binary order of names, as SQLite
  compares \<open>TEXT\<close>.  \<open>ancestry\<close> follows parents in a loop that nothing in the source bounds: it is
  a partial function here, \<open>Diverges\<close> when it does not end, and the last section shows that it
  ends, with exactly the ancestors, on tables whose directory entries form a forest.
\<close>

record entry_row =
  er_parent :: inode
  er_name :: string
  er_inode :: inode

text \<open>\<open>Err(SqliteFailure(e, _)) if e.code == ConstraintViolation\<close> becomes another error.\<close>

definition on_constraint :: "error \<Rightarrow> (conn, exn, 'a) io \<Rightarrow> (conn, exn, 'a) io" where
  "on_constraint e m c = (case m c of
      (Inl (Fail (Sqlite ConstraintViolation)), c') \<Rightarrow> (Inl (Fail e), c')
    | r \<Rightarrow> r)"

lemma wp_on_constraint [wp_eqs]:
  "wp (on_constraint e m) Q E c
    = wp m Q (\<lambda>x. E (if x = Fail (Sqlite ConstraintViolation) then Fail e else x)) c"
  by (auto simp: wp_def on_constraint_def
      split: prod.splits sum.splits exn.splits error.splits sqlite_error.splits)

text \<open>An insert fails with \<open>SQLITE_FULL\<close> when no 64-bit row identifier is left.\<close>

definition entries_insert :: "inode \<Rightarrow> string \<Rightarrow> inode \<Rightarrow> (conn, exn, unit) io" where
  "entries_insert parent name i =
     on_constraint AlreadyExists (stmt (\<lambda>d.
       if entry_of d parent name \<noteq> None \<or> node_of d parent = None \<or> node_of d i = None
       then Inl ConstraintViolation
       else if 2 ^ 63 - 1 \<le> length (t_entries d) then Inl DatabaseFull
       else Inr ((), add_entry parent name i d)))"

definition entries_get :: "inode \<Rightarrow> string \<Rightarrow> (conn, exn, entry_row) io" where
  "entries_get parent name =
     bindE (query (\<lambda>d. map_option (\<lambda>i. \<lparr>er_parent = parent, er_name = name, er_inode = i\<rparr>)
                          (entry_of d parent name)))
       (\<lambda>row. case row of None \<Rightarrow> fail NotFound | Some r \<Rightarrow> ret r)"

definition entries_delete :: "inode \<Rightarrow> string \<Rightarrow> (conn, exn, unit) io" where
  "entries_delete parent name = update_db (del_entry parent name)"

definition rows_under :: "db \<Rightarrow> inode \<Rightarrow> entry_row list" where
  "rows_under d parent =
     map (\<lambda>((p, n), i). \<lparr>er_parent = p, er_name = n, er_inode = i\<rparr>)
       (filter (\<lambda>((p, n), i). p = parent) (t_entries d))"

definition entries_list :: "inode \<Rightarrow> (conn, exn, entry_row list) io" where
  "entries_list parent = query (\<lambda>d. sort_key er_name (rows_under d parent))"

definition has_kind :: "db \<Rightarrow> inode \<Rightarrow> node_kind \<Rightarrow> bool" where
  "has_kind d i k \<longleftrightarrow> (case node_of d i of None \<Rightarrow> False | Some n \<Rightarrow> n_kind n = k)"

definition entries_count :: "inode \<Rightarrow> node_kind option \<Rightarrow> (conn, exn, u64) io" where
  "entries_count parent kind =
     (case kind of
        None \<Rightarrow> query (\<lambda>d. of_nat (length (rows_under d parent)))
      | Some k \<Rightarrow> query (\<lambda>d. of_nat (length (filter (\<lambda>e. has_kind d (er_inode e) k) (rows_under d parent)))))"

definition move_entry :: "inode \<Rightarrow> string \<Rightarrow> inode \<Rightarrow> string \<Rightarrow> inode \<Rightarrow> db \<Rightarrow> db" where
  "move_entry p n p' n' i d = add_entry p' n' i (del_entry p n d)"

definition entries_rename :: "inode \<Rightarrow> string \<Rightarrow> inode \<Rightarrow> string \<Rightarrow> (conn, exn, unit) io" where
  "entries_rename old_parent old_name new_parent new_name =
     on_constraint AlreadyExists (stmt (\<lambda>d.
       case entry_of d old_parent old_name of
         None \<Rightarrow> Inr ((), d)
       | Some i \<Rightarrow>
           if (new_parent, new_name) \<noteq> (old_parent, old_name) \<and> entry_of d new_parent new_name \<noteq> None
              \<or> node_of d new_parent = None
           then Inl ConstraintViolation
           else Inr ((), move_entry old_parent old_name new_parent new_name i d)))"

definition parents_of :: "db \<Rightarrow> inode \<Rightarrow> (inode \<times> string) list" where
  "parents_of d i = map fst (filter (\<lambda>(k, c). c = i) (t_entries d))"

definition parent_of :: "inode \<Rightarrow> (conn, exn, inode option) io" where
  "parent_of i = query_limit1 (\<lambda>d. map fst (parents_of d i))"

text \<open>The value of a loop that may not end.\<close>

definition unless_diverges :: "('s \<Rightarrow> ((exn + 'a) \<times> 's) option) \<Rightarrow> ('s, exn, 'a) io" where
  "unless_diverges m s = (case m s of None \<Rightarrow> (Inl Diverges, s) | Some r \<Rightarrow> r)"

partial_function (option) ancestry_loop ::
  "inode \<Rightarrow> inode list \<Rightarrow> conn \<Rightarrow> ((exn + inode list) \<times> conn) option" where
  "ancestry_loop cur out c =
     (case parent_of cur c of
        (Inl e, c') \<Rightarrow> Some (Inl e, c')
      | (Inr row, c') \<Rightarrow>
          (case row of
             Some p \<Rightarrow> ancestry_loop p (out @ [p]) c'
           | None \<Rightarrow> Some (Inr out, c')))"

definition ancestry :: "inode \<Rightarrow> (conn, exn, inode list) io" where
  "ancestry i = unless_diverges (ancestry_loop i [])"

section \<open>Rules\<close>

lemma wp_entries_insert [wp_rules]:
  assumes "\<And>t. \<not> reliable c \<Longrightarrow> E (Fail (Sqlite IoFault)) (c\<lparr>c_tick := t\<rparr>)"
    and "\<And>t. entry_of (c_db c) p n \<noteq> None \<or> node_of (c_db c) p = None \<or> node_of (c_db c) i = None
      \<Longrightarrow> E (Fail AlreadyExists) (c\<lparr>c_tick := t\<rparr>)"
    and "\<And>t. 2 ^ 63 - 1 \<le> length (t_entries (c_db c)) \<Longrightarrow> E (Fail (Sqlite DatabaseFull)) (c\<lparr>c_tick := t\<rparr>)"
    and "\<And>t. entry_of (c_db c) p n = None \<Longrightarrow> node_of (c_db c) p \<noteq> None \<Longrightarrow> node_of (c_db c) i \<noteq> None
      \<Longrightarrow> length (t_entries (c_db c)) < 2 ^ 63 - 1 \<Longrightarrow> Q () (c\<lparr>c_tick := t, c_db := add_entry p n i (c_db c)\<rparr>)"
  shows "wp (entries_insert p n i) Q E c"
  unfolding entries_insert_def wp_on_constraint
  by (rule wp_stmt) (use assms in \<open>auto split: if_splits\<close>)

lemma wp_entries_get [wp_rules]:
  assumes "\<And>t. \<not> reliable c \<Longrightarrow> E (Fail (Sqlite IoFault)) (c\<lparr>c_tick := t\<rparr>)"
    and "\<And>t. entry_of (c_db c) p n = None \<Longrightarrow> E (Fail NotFound) (c\<lparr>c_tick := t\<rparr>)"
    and "\<And>t i. entry_of (c_db c) p n = Some i
      \<Longrightarrow> Q \<lparr>er_parent = p, er_name = n, er_inode = i\<rparr> (c\<lparr>c_tick := t\<rparr>)"
  shows "wp (entries_get p n) Q E c"
  unfolding entries_get_def wp_bindE
  by (rule wp_query) (use assms in \<open>auto simp: wp_eqs split: option.split\<close>)

lemma wp_entries_delete [wp_rules]:
  assumes "\<And>t. \<not> reliable c \<Longrightarrow> E (Fail (Sqlite IoFault)) (c\<lparr>c_tick := t\<rparr>)"
    and "\<And>t. Q () (c\<lparr>c_tick := t, c_db := del_entry p n (c_db c)\<rparr>)"
  shows "wp (entries_delete p n) Q E c"
  unfolding entries_delete_def by (rule wp_update_db) (use assms in auto)

lemma wp_entries_list [wp_rules]:
  assumes "\<And>t. \<not> reliable c \<Longrightarrow> E (Fail (Sqlite IoFault)) (c\<lparr>c_tick := t\<rparr>)"
    and "\<And>t. Q (sort_key er_name (rows_under (c_db c) p)) (c\<lparr>c_tick := t\<rparr>)"
  shows "wp (entries_list p) Q E c"
  unfolding entries_list_def by (rule wp_query) (use assms in auto)

lemma wp_entries_count_all [wp_rules]:
  assumes "\<And>t. \<not> reliable c \<Longrightarrow> E (Fail (Sqlite IoFault)) (c\<lparr>c_tick := t\<rparr>)"
    and "\<And>t. Q (of_nat (length (rows_under (c_db c) p))) (c\<lparr>c_tick := t\<rparr>)"
  shows "wp (entries_count p None) Q E c"
  unfolding entries_count_def option.case by (rule wp_query) (use assms in auto)

lemma wp_entries_rename [wp_rules]:
  assumes "\<And>t. \<not> reliable c \<Longrightarrow> E (Fail (Sqlite IoFault)) (c\<lparr>c_tick := t\<rparr>)"
    and "\<And>t. entry_of (c_db c) p n = None \<Longrightarrow> Q () (c\<lparr>c_tick := t\<rparr>)"
    and "\<And>t i. entry_of (c_db c) p n = Some i
      \<Longrightarrow> (p', n') \<noteq> (p, n) \<and> entry_of (c_db c) p' n' \<noteq> None \<or> node_of (c_db c) p' = None
      \<Longrightarrow> E (Fail AlreadyExists) (c\<lparr>c_tick := t\<rparr>)"
    and "\<And>t i. entry_of (c_db c) p n = Some i
      \<Longrightarrow> (p', n') = (p, n) \<or> entry_of (c_db c) p' n' = None \<Longrightarrow> node_of (c_db c) p' \<noteq> None
      \<Longrightarrow> Q () (c\<lparr>c_tick := t, c_db := move_entry p n p' n' i (c_db c)\<rparr>)"
  shows "wp (entries_rename p n p' n') Q E c"
  unfolding entries_rename_def wp_on_constraint
  by (rule wp_stmt) (use assms in \<open>auto split: if_splits option.splits\<close>)

lemma wp_parent_of [wp_rules]:
  assumes "\<And>t. \<not> reliable c \<Longrightarrow> E (Fail (Sqlite IoFault)) (c\<lparr>c_tick := t\<rparr>)"
    and "\<And>t p n. (p, n) \<in> set (parents_of (c_db c) i) \<Longrightarrow> Q (Some p) (c\<lparr>c_tick := t\<rparr>)"
    and "\<And>t. parents_of (c_db c) i = [] \<Longrightarrow> Q None (c\<lparr>c_tick := t\<rparr>)"
  shows "wp (parent_of i) Q E c"
  unfolding parent_of_def by (rule wp_query_limit1) (use assms in auto)

section \<open>The graph of entries\<close>

definition edges :: "db \<Rightarrow> (inode \<times> inode) set" where
  "edges d = {(p, i). \<exists>n. ((p, n), i) \<in> set (t_entries d)}"

lemma finite_edges: "finite (edges d)"
proof -
  have "edges d \<subseteq> (\<lambda>((p, n), i). (p, i)) ` set (t_entries d)"
    by (force simp: edges_def)
  then show ?thesis by (rule finite_subset) simp
qed

lemma parents_of_edges: "fst ` set (parents_of d i) = {p. (p, i) \<in> edges d}"
  by (force simp: parents_of_def edges_def)

lemma in_parents_of: "(p, n) \<in> set (parents_of d i) \<longleftrightarrow> ((p, n), i) \<in> set (t_entries d)"
  by (force simp: parents_of_def)

lemma parents_of_Nil: "parents_of d i = [] \<longleftrightarrow> (\<forall>p. (p, i) \<notin> edges d)"
  using parents_of_edges[of d i] by auto

text \<open>The lists that \<open>ancestry\<close> may return: each element is a parent of the one before.\<close>

fun parent_chain :: "db \<Rightarrow> inode \<Rightarrow> inode list \<Rightarrow> bool" where
  "parent_chain d i [] = (parents_of d i = [])"
| "parent_chain d i (p # ps) = ((p, i) \<in> edges d \<and> parent_chain d p ps)"

lemma wf_edges: "acyclic (edges d) \<Longrightarrow> wf (edges d)"
  by (rule finite_acyclic_wf[OF finite_edges])

lemma ancestry_loop_ends:
  assumes "acyclic (edges d)" and "c_db c = d"
  shows "\<exists>r t. ancestry_loop i out c = Some (r, c\<lparr>c_tick := t\<rparr>)
    \<and> (case r of Inl e \<Rightarrow> e = Fail (Sqlite IoFault) \<and> \<not> reliable c
        | Inr xs \<Rightarrow> \<exists>ps. xs = out @ ps \<and> parent_chain d i ps)"
  using wf_edges[OF assms(1)] assms(2)
proof (induction i arbitrary: out c rule: wf_induct_rule)
  case (less i)
  have "wp (parent_of i)
      (\<lambda>row c'. (\<exists>t. c' = c\<lparr>c_tick := t\<rparr>)
         \<and> (case row of None \<Rightarrow> parents_of d i = [] | Some p \<Rightarrow> (p, i) \<in> edges d))
      (\<lambda>e c'. (\<exists>t. c' = c\<lparr>c_tick := t\<rparr>) \<and> e = Fail (Sqlite IoFault) \<and> \<not> reliable c) c"
    by (rule wp_parent_of) (auto simp: in_parents_of edges_def less.prems)
  note step = wp_run[OF this]
  obtain r c' where r: "parent_of i c = (r, c')" by fastforce
  note step = step[OF r]
  show ?case
  proof (cases r)
    case (Inl e)
    then show ?thesis using step r by (auto simp: ancestry_loop.simps[of i])
  next
    case (Inr row)
    obtain t where t: "c' = c\<lparr>c_tick := t\<rparr>" using step Inr by auto
    show ?thesis
    proof (cases row)
      case None
      then show ?thesis using step r Inr t by (auto simp: ancestry_loop.simps[of i])
    next
      case (Some p)
      then have p: "(p, i) \<in> edges d" using step Inr by simp
      have "c_db c' = d" using t less.prems by simp
      from less.IH[OF p this, of "out @ [p]"] obtain r2 t2
        where "ancestry_loop p (out @ [p]) c' = Some (r2, c'\<lparr>c_tick := t2\<rparr>)"
          and "case r2 of Inl e \<Rightarrow> e = Fail (Sqlite IoFault) \<and> \<not> reliable c'
            | Inr xs \<Rightarrow> \<exists>ps. xs = (out @ [p]) @ ps \<and> parent_chain d p ps" by blast
      moreover from this have "ancestry_loop i out c = Some (r2, c\<lparr>c_tick := t2\<rparr>)"
        using r Inr Some t by (simp add: ancestry_loop.simps[of i])
      ultimately show ?thesis using p t by (fastforce split: sum.splits)
    qed
  qed
qed

lemma wp_ancestry:
  assumes "acyclic (edges (c_db c))"
    and "\<And>t. \<not> reliable c \<Longrightarrow> E (Fail (Sqlite IoFault)) (c\<lparr>c_tick := t\<rparr>)"
    and "\<And>t ps. parent_chain (c_db c) i ps \<Longrightarrow> Q ps (c\<lparr>c_tick := t\<rparr>)"
  shows "wp (ancestry i) Q E c"
proof -
  obtain r t where "ancestry_loop i [] c = Some (r, c\<lparr>c_tick := t\<rparr>)"
    and "case r of Inl e \<Rightarrow> e = Fail (Sqlite IoFault) \<and> \<not> reliable c
        | Inr xs \<Rightarrow> \<exists>ps. xs = [] @ ps \<and> parent_chain (c_db c) i ps"
    using ancestry_loop_ends[OF assms(1) refl] by blast
  then show ?thesis
    using assms(2,3) by (cases r) (auto simp: wp_def ancestry_def unless_diverges_def)
qed

text \<open>Where no inode but a leaf has two parents, the chain is all the ancestors.\<close>

definition unique_parent :: "db \<Rightarrow> inode \<Rightarrow> bool" where
  "unique_parent d i \<longleftrightarrow> (\<forall>p q. (p, i) \<in> edges d \<longrightarrow> (q, i) \<in> edges d \<longrightarrow> p = q)"

lemma parent_chain_ancestors:
  assumes "parent_chain d i ps"
    and "\<And>j. (\<exists>k. (j, k) \<in> edges d) \<Longrightarrow> unique_parent d j" and "unique_parent d i"
  shows "set ps = {a. (a, i) \<in> (edges d)\<^sup>+}"
  using assms(1,3)
proof (induction ps arbitrary: i)
  case Nil
  then have "(a, i) \<notin> (edges d)\<^sup>+" for a by (meson parents_of_Nil parent_chain.simps(1) tranclE)
  then show ?case by simp
next
  case (Cons p ps)
  then have p: "(p, i) \<in> edges d" and uniq: "unique_parent d i" by auto
  have "set ps = {a. (a, p) \<in> (edges d)\<^sup>+}" using Cons assms(2)[of p] p by auto
  moreover have "(a, i) \<in> (edges d)\<^sup>+ \<longleftrightarrow> a = p \<or> (a, p) \<in> (edges d)\<^sup>+" for a
  proof
    assume "(a, i) \<in> (edges d)\<^sup>+"
    then obtain q where "(a, q) \<in> (edges d)\<^sup>*" and "(q, i) \<in> edges d" by (meson tranclD2)
    with uniq p have "(a, p) \<in> (edges d)\<^sup>*" unfolding unique_parent_def by blast
    then show "a = p \<or> (a, p) \<in> (edges d)\<^sup>+" by (auto simp: rtrancl_eq_or_trancl)
  qed (use p in \<open>auto intro: trancl_into_trancl\<close>)
  ultimately show ?case by auto
qed

end
