(* ===== verification/Fs_Meta.thy ===== *)
theory Fs_Meta
  imports Fs_Entries
begin

text \<open>
  Symbolic link targets and extended attributes: \<open>symlinks.rs\<close> and \<open>xattrs.rs\<close>.  The names of
  attributes are strings of bytes; \<open>CREATE\<close> and \<open>REPLACE\<close> are bits of a 32-bit flag word.
\<close>

section \<open>symlinks.rs\<close>

definition symlink_of :: "db \<Rightarrow> inode \<Rightarrow> byte list option" where
  "symlink_of d = map_of (t_symlinks d)"

definition add_symlink :: "inode \<Rightarrow> byte list \<Rightarrow> db \<Rightarrow> db" where
  "add_symlink i target d = d\<lparr>t_symlinks := AList.update i target (t_symlinks d)\<rparr>"

definition symlinks_insert :: "inode \<Rightarrow> byte list \<Rightarrow> (conn, exn, unit) io" where
  "symlinks_insert i target =
     stmt (\<lambda>d. if symlink_of d i \<noteq> None \<or> node_of d i = None then Inl ConstraintViolation
               else Inr ((), add_symlink i target d))"

definition symlinks_get :: "inode \<Rightarrow> (conn, exn, byte list) io" where
  "symlinks_get i =
     bindE (query (\<lambda>d. symlink_of d i)) (\<lambda>row. case row of None \<Rightarrow> fail NotFound | Some t \<Rightarrow> ret t)"

definition symlinks_exists :: "inode \<Rightarrow> (conn, exn, bool) io" where
  "symlinks_exists i = query (\<lambda>d. symlink_of d i \<noteq> None)"

section \<open>xattrs.rs\<close>

definition XATTR_NAME_MAX :: nat where "XATTR_NAME_MAX = 255"
definition XATTR_VALUE_MAX :: nat where "XATTR_VALUE_MAX = 65536"

definition XATTR_CREATE :: u32 where "XATTR_CREATE = 1"
definition XATTR_REPLACE :: u32 where "XATTR_REPLACE = 2"

definition xattr_flag :: "u32 \<Rightarrow> u32 \<Rightarrow> bool" where
  "xattr_flag flags f \<longleftrightarrow> flags AND f = f"

definition validate_name :: "string \<Rightarrow> u32 \<Rightarrow> error + unit" where
  "validate_name name caller_uid =
     (if name = [] then Inl InvalidXattr
      else if CHR 0x00 \<in> set name then Inl InvalidXattr
      else if XATTR_NAME_MAX < length name then Inl InvalidXattr
      else if CHR ''.'' \<notin> set name then Inl InvalidXattr
      else if take 8 name = ''trusted.'' \<and> caller_uid \<noteq> 0 then Inl PermissionDenied
      else Inr ())"

definition validate_value :: "byte list \<Rightarrow> error + unit" where
  "validate_value value = (if XATTR_VALUE_MAX < length value then Inl InvalidXattr else Inr ())"

definition xattr_of :: "db \<Rightarrow> inode \<Rightarrow> string \<Rightarrow> byte list option" where
  "xattr_of d i n = map_of (t_xattrs d) (i, n)"

definition put_xattr :: "inode \<Rightarrow> string \<Rightarrow> byte list \<Rightarrow> db \<Rightarrow> db" where
  "put_xattr i n v d = d\<lparr>t_xattrs := AList.update (i, n) v (t_xattrs d)\<rparr>"

definition set_xattr :: "inode \<Rightarrow> string \<Rightarrow> byte list \<Rightarrow> db \<Rightarrow> db" where
  "set_xattr i n v d = d\<lparr>t_xattrs := AList.map_entry (i, n) (\<lambda>_. v) (t_xattrs d)\<rparr>"

definition del_xattr :: "inode \<Rightarrow> string \<Rightarrow> db \<Rightarrow> db" where
  "del_xattr i n d = d\<lparr>t_xattrs := AList.delete (i, n) (t_xattrs d)\<rparr>"

definition xattrs_get :: "inode \<Rightarrow> string \<Rightarrow> (conn, exn, byte list) io" where
  "xattrs_get i name =
     bindE (query (\<lambda>d. xattr_of d i name)) (\<lambda>row. case row of None \<Rightarrow> fail NotFound | Some v \<Rightarrow> ret v)"

definition xattrs_set :: "inode \<Rightarrow> string \<Rightarrow> byte list \<Rightarrow> u32 \<Rightarrow> (conn, exn, unit) io" where
  "xattrs_set i name value flags =
     bindE (query (\<lambda>d. xattr_of d i name \<noteq> None)) (\<lambda>exists.
       if xattr_flag flags XATTR_CREATE \<and> exists then fail AlreadyExists
       else if xattr_flag flags XATTR_REPLACE \<and> \<not> exists then fail NotFound
       else if exists then update_db (set_xattr i name value)
       else stmt (\<lambda>d. if xattr_of d i name \<noteq> None \<or> node_of d i = None then Inl ConstraintViolation
                      else Inr ((), put_xattr i name value d)))"

definition xattr_names :: "db \<Rightarrow> inode \<Rightarrow> string list" where
  "xattr_names d i = map (\<lambda>((j, n), v). n) (filter (\<lambda>((j, n), v). j = i) (t_xattrs d))"

definition xattrs_list_names :: "inode \<Rightarrow> (conn, exn, string list) io" where
  "xattrs_list_names i = query (\<lambda>d. sort (xattr_names d i))"

definition xattrs_remove :: "inode \<Rightarrow> string \<Rightarrow> (conn, exn, unit) io" where
  "xattrs_remove i name =
     bindE (stmt (\<lambda>d. Inr (if xattr_of d i name = None then 0 else 1 :: nat, del_xattr i name d)))
       (\<lambda>changed. if changed = 0 then fail NotFound else ret ())"

definition xattrs_has_any :: "inode \<Rightarrow> (conn, exn, bool) io" where
  "xattrs_has_any i = query (\<lambda>d. xattr_names d i \<noteq> [])"

section \<open>Lookups and rules\<close>

lemma symlink_of_simps [simp]:
  "symlink_of (add_symlink i t d) = (symlink_of d)(i \<mapsto> t)"
  "symlink_of (add_node j n d) = symlink_of d" "symlink_of (map_node j f d) = symlink_of d"
  "symlink_of (del_node j d) = (symlink_of d)(j := None)"
  "symlink_of (add_entry p m j d) = symlink_of d" "symlink_of (del_entry p m d) = symlink_of d"
  by (simp_all add: symlink_of_def add_symlink_def add_node_def map_node_def del_node_def
      add_entry_def del_entry_def)

lemma xattr_of_simps [simp]:
  "xattr_of (put_xattr i n v d) = (xattr_of d)(i := (xattr_of d i)(n \<mapsto> v))"
  "xattr_of (set_xattr i n v d) = (xattr_of d)(i := (xattr_of d i)(n := map_option (\<lambda>_. v) (xattr_of d i n)))"
  "xattr_of (del_xattr i n d) = (xattr_of d)(i := (xattr_of d i)(n := None))"
  by (auto simp: xattr_of_def put_xattr_def set_xattr_def del_xattr_def fun_eq_iff)

lemma meta_effects_simps [simp]:
  "node_of (add_symlink i t d) = node_of d" "entry_of (add_symlink i t d) = entry_of d"
  "node_of (put_xattr i n v d) = node_of d" "entry_of (put_xattr i n v d) = entry_of d"
  "node_of (set_xattr i n v d) = node_of d" "entry_of (set_xattr i n v d) = entry_of d"
  "node_of (del_xattr i n d) = node_of d" "entry_of (del_xattr i n d) = entry_of d"
  by (simp_all add: node_of_def entry_of_def fun_eq_iff add_symlink_def put_xattr_def set_xattr_def
      del_xattr_def)

lemma wp_symlinks_insert [wp_rules]:
  assumes "\<And>t. \<not> reliable c \<Longrightarrow> E (Fail (Sqlite IoFault)) (c\<lparr>c_tick := t\<rparr>)"
    and "\<And>t. symlink_of (c_db c) i \<noteq> None \<or> node_of (c_db c) i = None
      \<Longrightarrow> E (Fail (Sqlite ConstraintViolation)) (c\<lparr>c_tick := t\<rparr>)"
    and "\<And>t. symlink_of (c_db c) i = None \<Longrightarrow> node_of (c_db c) i \<noteq> None
      \<Longrightarrow> Q () (c\<lparr>c_tick := t, c_db := add_symlink i x (c_db c)\<rparr>)"
  shows "wp (symlinks_insert i x) Q E c"
  unfolding symlinks_insert_def by (rule wp_stmt) (use assms in \<open>auto split: if_splits\<close>)

lemma wp_symlinks_get [wp_rules]:
  assumes "\<And>t. \<not> reliable c \<Longrightarrow> E (Fail (Sqlite IoFault)) (c\<lparr>c_tick := t\<rparr>)"
    and "\<And>t. symlink_of (c_db c) i = None \<Longrightarrow> E (Fail NotFound) (c\<lparr>c_tick := t\<rparr>)"
    and "\<And>t x. symlink_of (c_db c) i = Some x \<Longrightarrow> Q x (c\<lparr>c_tick := t\<rparr>)"
  shows "wp (symlinks_get i) Q E c"
  unfolding symlinks_get_def wp_bindE
  by (rule wp_query) (use assms in \<open>auto simp: wp_eqs split: option.split\<close>)

lemma wp_xattrs_get [wp_rules]:
  assumes "\<And>t. \<not> reliable c \<Longrightarrow> E (Fail (Sqlite IoFault)) (c\<lparr>c_tick := t\<rparr>)"
    and "\<And>t. xattr_of (c_db c) i n = None \<Longrightarrow> E (Fail NotFound) (c\<lparr>c_tick := t\<rparr>)"
    and "\<And>t x. xattr_of (c_db c) i n = Some x \<Longrightarrow> Q x (c\<lparr>c_tick := t\<rparr>)"
  shows "wp (xattrs_get i n) Q E c"
  unfolding xattrs_get_def wp_bindE
  by (rule wp_query) (use assms in \<open>auto simp: wp_eqs split: option.split\<close>)

text \<open>The specification of a successful \<open>set\<close>: either effect stores the value.\<close>

definition xattr_stored :: "inode \<Rightarrow> string \<Rightarrow> byte list \<Rightarrow> db \<Rightarrow> db \<Rightarrow> bool" where
  "xattr_stored i n v d d' \<longleftrightarrow>
     d' = (if xattr_of d i n = None then put_xattr i n v d else set_xattr i n v d)"

lemma wp_xattrs_set [wp_rules]:
  assumes "\<And>t. \<not> reliable c \<Longrightarrow> E (Fail (Sqlite IoFault)) (c\<lparr>c_tick := t\<rparr>)"
    and "\<And>t. xattr_flag fl XATTR_CREATE \<Longrightarrow> xattr_of (c_db c) i n \<noteq> None
      \<Longrightarrow> E (Fail AlreadyExists) (c\<lparr>c_tick := t\<rparr>)"
    and "\<And>t. xattr_flag fl XATTR_REPLACE \<Longrightarrow> xattr_of (c_db c) i n = None
      \<Longrightarrow> E (Fail NotFound) (c\<lparr>c_tick := t\<rparr>)"
    and "\<And>t. node_of (c_db c) i = None \<Longrightarrow> E (Fail (Sqlite ConstraintViolation)) (c\<lparr>c_tick := t\<rparr>)"
    and "\<And>t d'. xattr_flag fl XATTR_CREATE \<longrightarrow> xattr_of (c_db c) i n = None \<Longrightarrow>
      xattr_flag fl XATTR_REPLACE \<longrightarrow> xattr_of (c_db c) i n \<noteq> None \<Longrightarrow>
      xattr_stored i n v (c_db c) d' \<Longrightarrow> Q () (c\<lparr>c_tick := t, c_db := d'\<rparr>)"
  shows "wp (xattrs_set i n v fl) Q E c"
  unfolding xattrs_set_def wp_bindE
proof (rule wp_query)
  fix t
  show "wp (if xattr_flag fl XATTR_CREATE \<and> xattr_of (c_db c) i n \<noteq> None then fail AlreadyExists
      else if xattr_flag fl XATTR_REPLACE \<and> \<not> xattr_of (c_db c) i n \<noteq> None then fail NotFound
      else if xattr_of (c_db c) i n \<noteq> None then update_db (set_xattr i n v)
      else stmt (\<lambda>d. if xattr_of d i n \<noteq> None \<or> node_of d i = None then Inl ConstraintViolation
                      else Inr ((), put_xattr i n v d))) Q E (c\<lparr>c_tick := t\<rparr>)"
    unfolding wp_if wp_throw
    using assms(2-4) assms(5)[of "if xattr_of (c_db c) i n = None then put_xattr i n v (c_db c)
        else set_xattr i n v (c_db c)"]
    by (auto intro!: wp_update_db wp_stmt assms(1) simp: xattr_stored_def split: if_splits)
qed (fact assms(1))

lemma wp_xattrs_list_names [wp_rules]:
  assumes "\<And>t. \<not> reliable c \<Longrightarrow> E (Fail (Sqlite IoFault)) (c\<lparr>c_tick := t\<rparr>)"
    and "\<And>t. Q (sort (xattr_names (c_db c) i)) (c\<lparr>c_tick := t\<rparr>)"
  shows "wp (xattrs_list_names i) Q E c"
  unfolding xattrs_list_names_def by (rule wp_query) (use assms in auto)

lemma delete_absent: "map_of t k = None \<Longrightarrow> AList.delete k t = t"
  by (induction t) (auto split: if_splits)

lemma wp_xattrs_remove [wp_rules]:
  assumes "\<And>t. \<not> reliable c \<Longrightarrow> E (Fail (Sqlite IoFault)) (c\<lparr>c_tick := t\<rparr>)"
    and "\<And>t. xattr_of (c_db c) i n = None \<Longrightarrow> E (Fail NotFound) (c\<lparr>c_tick := t\<rparr>)"
    and "\<And>t. xattr_of (c_db c) i n \<noteq> None \<Longrightarrow> Q () (c\<lparr>c_tick := t, c_db := del_xattr i n (c_db c)\<rparr>)"
  shows "wp (xattrs_remove i n) Q E c"
  unfolding xattrs_remove_def wp_bindE
proof (rule wp_stmt)
  fix t k d
  assume "Inr (if xattr_of (c_db c) i n = None then 0 else 1 :: nat, del_xattr i n (c_db c)) = Inr (k, d)"
  moreover have "del_xattr i n (c_db c) = c_db c" if "xattr_of (c_db c) i n = None"
    using that by (simp add: del_xattr_def xattr_of_def delete_absent)
  ultimately show "wp (if k = 0 then fail NotFound else ret ()) Q E (c\<lparr>c_tick := t, c_db := d\<rparr>)"
    using assms(2,3)[of t] by (auto simp: wp_eqs split: if_splits)
qed (use assms(1) in auto)

section \<open>Properties\<close>

lemma sorted_distinct_names:
  assumes "keyed (t_xattrs d)"
  shows "distinct (xattr_names d i) \<and> set (xattr_names d i) = {n. xattr_of d i n \<noteq> None}"
proof
  have "distinct (map (\<lambda>((j, n), v). n) (filter (\<lambda>((j, n), v). j = i) t))"
    if "keyed t" for t :: "((inode \<times> string) \<times> byte list) list"
    using that
  proof (induction t)
    case (Cons x t)
    obtain j n v where "x = ((j, n), v)" by (metis prod.collapse)
    then show ?case using Cons by (force simp: image_iff)
  qed simp
  then show "distinct (xattr_names d i)" using assms by (simp add: xattr_names_def)
  have "n \<in> set (xattr_names d i) \<longleftrightarrow> (\<exists>v. ((i, n), v) \<in> set (t_xattrs d))" for n
    by (force simp: xattr_names_def)
  then show "set (xattr_names d i) = {n. xattr_of d i n \<noteq> None}"
    using in_table_iff[OF assms] by (auto simp: xattr_of_def)
qed

text \<open>
  \<open>xattrs::set\<close> stores exactly the value under exactly the name; \<open>CREATE\<close>
  refuses a name that is present and \<open>REPLACE\<close> one that is absent, and a refusal changes nothing.
\<close>

theorem xattrs_set_correct:
  assumes "reliable c" and "node_of (c_db c) i \<noteq> None" and "xattrs_set i n v fl c = (r, c')"
  shows "if xattr_flag fl XATTR_CREATE \<and> xattr_of (c_db c) i n \<noteq> None
    then r = Inl (Fail AlreadyExists) \<and> c_db c' = c_db c
    else if xattr_flag fl XATTR_REPLACE \<and> xattr_of (c_db c) i n = None
    then r = Inl (Fail NotFound) \<and> c_db c' = c_db c
    else r = Inr () \<and> xattr_of (c_db c') = (xattr_of (c_db c))(i := (xattr_of (c_db c) i)(n \<mapsto> v))
      \<and> node_of (c_db c') = node_of (c_db c)"
proof -
  have "wp (xattrs_set i n v fl)
      (\<lambda>_ c'. \<not> (xattr_flag fl XATTR_CREATE \<and> xattr_of (c_db c) i n \<noteq> None)
         \<and> \<not> (xattr_flag fl XATTR_REPLACE \<and> xattr_of (c_db c) i n = None)
         \<and> xattr_of (c_db c') = (xattr_of (c_db c))(i := (xattr_of (c_db c) i)(n \<mapsto> v))
         \<and> node_of (c_db c') = node_of (c_db c))
      (\<lambda>e c'. c_db c' = c_db c \<and> (if xattr_flag fl XATTR_CREATE \<and> xattr_of (c_db c) i n \<noteq> None
         then e = Fail AlreadyExists
         else xattr_flag fl XATTR_REPLACE \<and> xattr_of (c_db c) i n = None \<and> e = Fail NotFound)) c"
    by (rule wp_xattrs_set) (use assms(1,2) in \<open>auto simp: xattr_stored_def\<close>)
  from wp_run[OF this assms(3)] show ?thesis by (cases r) (auto split: if_splits)
qed

definition demo_meta :: db where
  "demo_meta = empty_tables\<lparr>t_nodes := [(2, fresh_node File 0x1A4 0 0 7)],
     t_xattrs := [((2, ''user.a''), [1])]\<rparr>"

theorem xattrs_set_correct_witness:
  "fst (xattrs_set 2 ''user.a'' [9] XATTR_CREATE (connect demo_meta)) = Inl (Fail AlreadyExists)"
proof -
  have "xattr_flag XATTR_CREATE XATTR_CREATE" by (simp add: xattr_flag_def)
  moreover have "xattr_of demo_meta 2 ''user.a'' = Some [1]" and "node_of demo_meta 2 \<noteq> None"
    by (simp_all add: xattr_of_def node_of_def demo_meta_def empty_tables_def)
  ultimately show ?thesis
    using xattrs_set_correct[of "connect demo_meta" 2 "''user.a''" "[9]" XATTR_CREATE, OF _ _ surjective_pairing]
    by simp
qed

end
