(* ===== verification/Fs_Core.thy ===== *)
theory Fs_Core
  imports Fs_Paths Fs_Fdtable Fs_Locks Fs_Watch Fs_Blobs Fs_Meta
begin

text \<open>
  The filesystem object and its operations: \<open>fs.rs\<close>.  Every public method is one definition,
  with the source's statements in the source's order; the body between \<open>transaction()\<close> and
  \<open>commit()\<close> is a definition of its own, named \<open>..._tx\<close>.  A method that takes \<open>&self\<close> and
  reads only the database is a computation on the connection, all others are computations on the
  whole record.  The clock is a parameter (\<open>fs_clock\<close>, any sequence of readings).
\<close>

section \<open>State\<close>

record filesystem =
  fs_conn :: conn
  fs_chunk_size :: u64
  fs_readonly :: bool
  fs_caller_uid :: u32
  fs_caller_gid :: u32
  fs_fdtable :: fd_table
  fs_locks :: lock_manager
  fs_watchers :: watch_registry
  fs_checkpoint :: bool
  fs_clock :: "nat \<Rightarrow> int"
  fs_clock_pos :: nat

type_synonym 'a fs = "(filesystem, exn, 'a) io"

definition O_RDONLY :: u32 where "O_RDONLY = 0"
definition O_WRONLY :: u32 where "O_WRONLY = 1"
definition O_RDWR :: u32 where "O_RDWR = 2"
definition O_ACCMODE :: u32 where "O_ACCMODE = 3"
definition O_EXCL :: u32 where "O_EXCL = 128"
definition O_TRUNC :: u32 where "O_TRUNC = 512"

text \<open>A computation on the connection, run on the filesystem's.\<close>

definition db_op :: "(conn, exn, 'a) io \<Rightarrow> 'a fs" where
  "db_op m s = (case m (fs_conn s) of (r, c) \<Rightarrow> (r, s\<lparr>fs_conn := c\<rparr>))"

lemma wp_db_op [wp_eqs]:
  "wp (db_op m) Q E s
    = wp m (\<lambda>x c. Q x (s\<lparr>fs_conn := c\<rparr>)) (\<lambda>e c. E e (s\<lparr>fs_conn := c\<rparr>)) (fs_conn s)"
  by (auto simp: wp_def db_op_def split: prod.split sum.split)

definition now_ns :: "int fs" where
  "now_ns s = (Inr (fs_clock s (fs_clock_pos s)), s\<lparr>fs_clock_pos := Suc (fs_clock_pos s)\<rparr>)"

lemma wp_now_ns [wp_eqs]:
  "wp now_ns Q E s = Q (fs_clock s (fs_clock_pos s)) (s\<lparr>fs_clock_pos := Suc (fs_clock_pos s)\<rparr>)"
  by (simp add: wp_def now_ns_def)

definition fs_new :: "bool \<Rightarrow> u32 \<Rightarrow> u32 \<Rightarrow> (nat \<Rightarrow> int) \<Rightarrow> (conn, exn, filesystem) io" where
  "fs_new readonly uid gid clock c =
     (case load_chunk_size c of
        (Inl e, c') \<Rightarrow> (Inl e, c')
      | (Inr chunk_size, c') \<Rightarrow>
          (Inr \<lparr>fs_conn = c', fs_chunk_size = word_of_int chunk_size, fs_readonly = readonly,
             fs_caller_uid = uid, fs_caller_gid = gid, fs_fdtable = fdtable_new,
             fs_locks = lock_manager_new, fs_watchers = watch_registry_new,
             fs_checkpoint = False, fs_clock = clock, fs_clock_pos = 0\<rparr>, c'))"

definition start_checkpoint :: "unit fs" where
  "start_checkpoint = modify (\<lambda>s. if fs_readonly s \<or> fs_checkpoint s then s else s\<lparr>fs_checkpoint := True\<rparr>)"

text \<open>\<open>as_user\<close>: the guard runs \<open>m\<close> as another user and restores the user when it is dropped.\<close>

definition drop_guard :: "u32 \<Rightarrow> u32 \<Rightarrow> filesystem \<Rightarrow> filesystem" where
  [simp]: "drop_guard prev_uid prev_gid s = s\<lparr>fs_caller_uid := prev_uid, fs_caller_gid := prev_gid\<rparr>"

definition as_user :: "u32 \<Rightarrow> u32 \<Rightarrow> 'a fs \<Rightarrow> 'a fs" where
  "as_user uid gid m s =
     (case m (s\<lparr>fs_caller_uid := uid, fs_caller_gid := gid\<rparr>) of
        (r, s') \<Rightarrow> (r, drop_guard (fs_caller_uid s) (fs_caller_gid s) s'))"

definition emit ::
  "event_kind \<Rightarrow> string \<Rightarrow> node_kind \<Rightarrow> inode \<Rightarrow> string option \<Rightarrow> string option \<Rightarrow> unit fs" where
  "emit kind path nk ino src_path dst_path =
     bindE now_ns (\<lambda>now.
       modify (\<lambda>s. s\<lparr>fs_watchers := watch_emit
         \<lparr>ev_kind = kind, ev_path = path, ev_src_path = src_path, ev_dst_path = dst_path,
           ev_node_kind = nk, ev_inode = ino, ev_timestamp_ns = now\<rparr> (fs_watchers s)\<rparr>))"

definition require_writable :: "unit fs" where
  "require_writable = bindE (gets fs_readonly) (\<lambda>ro. require (\<not> ro) ReadOnlyFilesystem)"

text \<open>\<open>require_access\<close> of a node for the caller.\<close>

definition caller_access :: "node_row \<Rightarrow> access \<Rightarrow> unit fs" where
  "caller_access row access s =
     of_result (require_access (nr_mode row) (nr_uid row) (nr_gid row)
       (fs_caller_uid s) (fs_caller_gid s) access) s"

lemma wp_caller_access [wp_eqs]:
  "wp (caller_access row a) Q E s =
    (if check_access (nr_mode row) (nr_uid row) (nr_gid row) (fs_caller_uid s) (fs_caller_gid s) a
     then Q () s else E (Fail PermissionDenied) s)"
  by (auto simp: wp_def caller_access_def of_result_def require_access_def)

section \<open>Paths\<close>

fun resolve_loop :: "inode \<Rightarrow> string list \<Rightarrow> (conn, exn, inode) io" where
  "resolve_loop cur [] = ret cur"
| "resolve_loop cur (name # rest) =
     bindE (if rest \<noteq> []
            then bindE (nodes_get cur) (\<lambda>row. require (nr_kind row = Dir) NotADirectory)
            else ret ()) (\<lambda>_.
     bindE (entries_get cur name) (\<lambda>e.
     resolve_loop (er_inode e) rest))"

definition resolve_to_inode :: "string \<Rightarrow> (conn, exn, inode) io" where
  "resolve_to_inode path =
     bindE (of_result (parse_path path)) (\<lambda>components. resolve_loop ROOT_INODE components)"

definition resolve_parent_and_name :: "string \<Rightarrow> (conn, exn, inode \<times> string) io" where
  "resolve_parent_and_name path =
     bindE (of_result (parse_path path)) (\<lambda>components.
       if components = [] then fail InvalidArgument
       else bindE (if butlast components = [] then ret ROOT_INODE
                   else resolve_to_inode (path_string (butlast components)))
              (\<lambda>parent. ret (parent, last components)))"

text \<open>\<open>path_for_inode\<close> climbs to the root by any entry; its loop has no bound.\<close>

definition path_row :: "inode \<Rightarrow> (conn, exn, (inode \<times> string) option) io" where
  "path_row i = bindE (ok (query_limit1 (\<lambda>d. parents_of d i)))
     (\<lambda>r. ret (case r of Some row \<Rightarrow> row | None \<Rightarrow> None))"

partial_function (option) path_loop ::
  "inode \<Rightarrow> string list \<Rightarrow> conn \<Rightarrow> ((exn + string list option) \<times> conn) option" where
  "path_loop parent parts c =
     (if parent = ROOT_INODE then Some (Inr (Some parts), c)
      else (case path_row parent c of
              (Inl e, c') \<Rightarrow> Some (Inl e, c')
            | (Inr row, c') \<Rightarrow>
                (case row of
                   None \<Rightarrow> Some (Inr None, c')
                 | Some pn \<Rightarrow> path_loop (fst pn) (parts @ [snd pn]) c')))"

definition path_for_inode :: "inode \<Rightarrow> (conn, exn, string option) io" where
  "path_for_inode i =
     bindE (path_row i) (\<lambda>row.
       case row of
         None \<Rightarrow> ret None
       | Some pn \<Rightarrow>
           bindE (unless_diverges (path_loop (fst pn) [snd pn])) (\<lambda>parts.
             ret (map_option (\<lambda>ps. path_string (rev ps)) parts)))"

definition path_of_inode :: "inode \<Rightarrow> (conn, exn, string option) io" where
  "path_of_inode i = (if i = ROOT_INODE then ret (Some ''/'') else path_for_inode i)"

section \<open>Directories\<close>

definition stat_of_row :: "node_row \<Rightarrow> stat" where
  "stat_of_row row = \<lparr>st_kind = nr_kind row, st_size = nr_size row, st_mode = nr_mode row,
     st_uid = nr_uid row, st_gid = nr_gid row, st_atime_ns = nr_atime_ns row,
     st_mtime_ns = nr_mtime_ns row, st_ctime_ns = nr_ctime_ns row, st_nlink = nr_nlink row,
     st_inode = nr_inode row\<rparr>"

definition fs_stat :: "string \<Rightarrow> (conn, exn, stat) io" where
  "fs_stat path =
     bindE (resolve_to_inode path) (\<lambda>ino.
     bindE (nodes_get ino) (\<lambda>row. ret (stat_of_row row)))"

definition fs_watch :: "string \<Rightarrow> bool \<Rightarrow> u64 fs" where
  "fs_watch path recursive =
     bindE (db_op (resolve_to_inode path)) (\<lambda>ino.
     bindE (db_op (nodes_get ino)) (\<lambda>row.
     bindE (require (nr_kind row = Dir) NotADirectory) (\<lambda>_.
     bindE (caller_access row ACCESS_R) (\<lambda>_ s.
       (case subscribe path recursive (fs_watchers s) of
          (sid, reg) \<Rightarrow> (Inr sid, s\<lparr>fs_watchers := reg\<rparr>))))))"

text \<open>A parent that entries may be added to or removed from: a directory, with \<open>W | X\<close>.\<close>

definition writable_parent :: "node_row \<Rightarrow> unit fs" where
  "writable_parent row = caller_access row (ACCESS_W OR ACCESS_X)"

definition caller :: "(u32 \<times> u32) fs" where
  "caller = gets (\<lambda>s. (fs_caller_uid s, fs_caller_gid s))"

definition mkdir_tx :: "inode \<Rightarrow> string \<Rightarrow> u32 \<Rightarrow> u32 \<Rightarrow> u32 \<Rightarrow> int \<Rightarrow> (conn, exn, inode) io" where
  "mkdir_tx parent name mode uid gid now =
     bindE (nodes_insert Dir mode uid gid now) (\<lambda>new_ino.
     bindE (entries_insert parent name new_ino) (\<lambda>_.
     bindE (change_nlink parent 1 now) (\<lambda>_.
     bindE (update_times parent None (Some now) (Some now)) (\<lambda>_.
     ret new_ino))))"

definition fs_mkdir :: "string \<Rightarrow> u32 \<Rightarrow> unit fs" where
  "fs_mkdir path mode =
     bindE require_writable (\<lambda>_.
     bindE (db_op (resolve_parent_and_name path)) (\<lambda>(parent, name).
     bindE (db_op (nodes_get parent)) (\<lambda>parent_row.
     bindE (require (nr_kind parent_row = Dir) NotADirectory) (\<lambda>_.
     bindE (writable_parent parent_row) (\<lambda>_.
     bindE now_ns (\<lambda>now.
     bindE caller (\<lambda>(uid, gid).
     bindE (db_op (transaction (mkdir_tx parent name mode uid gid now))) (\<lambda>new_ino.
     emit Create path Dir new_ino None None))))))))"

definition rmdir_tx :: "inode \<Rightarrow> string \<Rightarrow> inode \<Rightarrow> int \<Rightarrow> (conn, exn, unit) io" where
  "rmdir_tx parent name ino now =
     bindE (entries_delete parent name) (\<lambda>_.
     bindE (change_nlink parent (- 1) now) (\<lambda>_.
     bindE (update_times parent None (Some now) (Some now)) (\<lambda>_.
     nodes_delete ino)))"

definition fs_rmdir :: "string \<Rightarrow> unit fs" where
  "fs_rmdir path =
     bindE require_writable (\<lambda>_.
     bindE (require (path \<noteq> ''/'') InvalidArgument) (\<lambda>_.
     bindE (db_op (resolve_parent_and_name path)) (\<lambda>(parent, name).
     bindE (db_op (entries_get parent name)) (\<lambda>entry.
     bindE (db_op (nodes_get (er_inode entry))) (\<lambda>row.
     bindE (require (nr_kind row = Dir) NotADirectory) (\<lambda>_.
     bindE (db_op (entries_count (er_inode entry) None)) (\<lambda>n.
     bindE (require (\<not> n > 0) DirectoryNotEmpty) (\<lambda>_.
     bindE (db_op (nodes_get parent)) (\<lambda>parent_row.
     bindE (writable_parent parent_row) (\<lambda>_.
     bindE now_ns (\<lambda>now.
     bindE (db_op (transaction (rmdir_tx parent name (er_inode entry) now))) (\<lambda>_.
     emit Remove path Dir (er_inode entry) None None))))))))))))"

definition fs_readdir :: "string \<Rightarrow> dir_entry list fs" where
  "fs_readdir path =
     bindE (db_op (resolve_to_inode path)) (\<lambda>ino.
     bindE (db_op (nodes_get ino)) (\<lambda>row.
     bindE (require (nr_kind row = Dir) NotADirectory) (\<lambda>_.
     bindE (caller_access row ACCESS_R) (\<lambda>_.
     bindE (db_op (entries_list ino)) (\<lambda>es.
     map_each es (\<lambda>e.
       bindE (db_op (nodes_get (er_inode e))) (\<lambda>child.
       ret \<lparr>de_name = er_name e, de_kind = nr_kind child, de_inode = er_inode e\<rparr>)))))))"

section \<open>Files and descriptors\<close>

definition open_access :: "u32 \<Rightarrow> access" where
  "open_access flags =
     (let mode = flags AND O_ACCMODE in
      if mode = O_RDONLY then ACCESS_R
      else if mode = O_WRONLY then ACCESS_W
      else ACCESS_R OR ACCESS_W)"

definition check_open_access :: "node_row \<Rightarrow> u32 \<Rightarrow> unit fs" where
  "check_open_access row flags = caller_access row (open_access flags)"

definition open_fd :: "inode \<Rightarrow> u32 \<Rightarrow> u64 fs" where
  "open_fd ino flags s =
     (case fdtable_open ino flags (fs_caller_uid s) (fs_caller_gid s) (fs_fdtable s) of
        (fd, t) \<Rightarrow> (Inr fd, s\<lparr>fs_fdtable := t\<rparr>))"

definition get_fd :: "u64 \<Rightarrow> fd_entry fs" where
  "get_fd fd s = of_result (fdtable_get fd (fs_fdtable s)) s"

definition create_tx :: "inode \<Rightarrow> string \<Rightarrow> u32 \<Rightarrow> u32 \<Rightarrow> u32 \<Rightarrow> int \<Rightarrow> (conn, exn, inode) io" where
  "create_tx parent name mode uid gid now =
     bindE (nodes_insert File (mode AND 0xFFF) uid gid now) (\<lambda>new_ino.
     bindE (entries_insert parent name new_ino) (\<lambda>_.
     bindE (update_times parent None (Some now) (Some now)) (\<lambda>_.
     ret new_ino)))"

definition fs_create :: "string \<Rightarrow> u32 \<Rightarrow> u32 \<Rightarrow> u64 fs" where
  "fs_create path flags mode =
     bindE require_writable (\<lambda>_.
     bindE (db_op (resolve_parent_and_name path)) (\<lambda>(parent, name).
     bindE (db_op (ok (entries_get parent name))) (\<lambda>existing.
     case existing of
       Some e \<Rightarrow>
         bindE (require (flags AND O_EXCL = 0) AlreadyExists) (\<lambda>_.
         bindE (db_op (nodes_get (er_inode e))) (\<lambda>row.
         bindE (check_open_access row flags) (\<lambda>_.
         open_fd (er_inode e) flags)))
     | None \<Rightarrow>
         bindE (db_op (nodes_get parent)) (\<lambda>parent_row.
         bindE (require (nr_kind parent_row = Dir) NotADirectory) (\<lambda>_.
         bindE (writable_parent parent_row) (\<lambda>_.
         bindE now_ns (\<lambda>now.
         bindE caller (\<lambda>(uid, gid).
         bindE (db_op (transaction (create_tx parent name mode uid gid now))) (\<lambda>new_ino.
         bindE (emit Create path File new_ino None None) (\<lambda>_.
         open_fd new_ino flags)))))))))) "

definition open_trunc_tx :: "inode \<Rightarrow> u64 \<Rightarrow> u64 \<Rightarrow> int \<Rightarrow> (conn, exn, unit) io" where
  "open_trunc_tx ino sz chunk_size now =
     bindE (truncate_to ino 0 sz chunk_size) (\<lambda>_. update_size ino 0 now now)"

definition fs_open :: "string \<Rightarrow> u32 \<Rightarrow> u64 fs" where
  "fs_open path flags =
     bindE (db_op (resolve_to_inode path)) (\<lambda>ino.
     bindE (db_op (nodes_get ino)) (\<lambda>row.
     bindE (require (nr_kind row \<noteq> Dir) IsADirectory) (\<lambda>_.
     bindE (check_open_access row flags) (\<lambda>_.
     bindE (if flags AND O_TRUNC \<noteq> 0 then
              bindE require_writable (\<lambda>_.
              bindE now_ns (\<lambda>now.
              bindE (gets fs_chunk_size) (\<lambda>cs.
              db_op (transaction (open_trunc_tx ino (nr_size row) cs now)))))
            else ret ()) (\<lambda>_.
     open_fd ino flags)))))"

definition write_tx :: "inode \<Rightarrow> byte list \<Rightarrow> u64 \<Rightarrow> u64 \<Rightarrow> u64 \<Rightarrow> int \<Rightarrow> (conn, exn, u64) io" where
  "write_tx ino data offset sz chunk_size now =
     bindE (write_range ino data offset sz chunk_size) (\<lambda>new_size.
     bindE (update_size ino new_size now now) (\<lambda>_.
     ret new_size))"

definition fs_write_fd :: "u64 \<Rightarrow> u64 \<Rightarrow> byte list \<Rightarrow> u64 fs" where
  "fs_write_fd fd offset data =
     bindE require_writable (\<lambda>_.
     bindE (get_fd fd) (\<lambda>entry.
     bindE (require (fe_flags entry AND O_ACCMODE = O_WRONLY \<or> fe_flags entry AND O_ACCMODE = O_RDWR)
              PermissionDenied) (\<lambda>_.
     bindE (db_op (nodes_get (fe_inode entry))) (\<lambda>row.
     bindE now_ns (\<lambda>now.
     bindE (gets fs_chunk_size) (\<lambda>cs.
     bindE (db_op (transaction (write_tx (fe_inode entry) data offset (nr_size row) cs now))) (\<lambda>new_size.
     bindE (db_op (path_for_inode (fe_inode entry))) (\<lambda>path.
     bindE (case path of Some p \<Rightarrow> emit Modify p File (fe_inode entry) None None | None \<Rightarrow> ret ()) (\<lambda>_.
     ret new_size)))))))))"

definition fs_read_fd :: "u64 \<Rightarrow> u64 \<Rightarrow> u64 \<Rightarrow> byte list fs" where
  "fs_read_fd fd offset len =
     bindE (get_fd fd) (\<lambda>entry.
     bindE (require (fe_flags entry AND O_ACCMODE = O_RDONLY \<or> fe_flags entry AND O_ACCMODE = O_RDWR)
              PermissionDenied) (\<lambda>_.
     bindE (db_op (nodes_get (fe_inode entry))) (\<lambda>row.
     bindE (gets fs_chunk_size) (\<lambda>cs.
     db_op (read_range (fe_inode entry) offset len (nr_size row) cs)))))"

definition fs_close_fd :: "u64 \<Rightarrow> unit fs" where
  "fs_close_fd fd =
     bindE (\<lambda>s. case fdtable_close fd (fs_fdtable s) of
              (r, t) \<Rightarrow> of_result r (s\<lparr>fs_fdtable := t\<rparr>)) (\<lambda>ino.
     bindE (modify (\<lambda>s. s\<lparr>fs_locks := on_fd_close ino (sint fd) 0 (fs_locks s)\<rparr>)) (\<lambda>_.
     bindE (db_op (nodes_get ino)) (\<lambda>row.
     bindE (gets (\<lambda>s. open_count ino (fs_fdtable s))) (\<lambda>n.
     if nr_nlink row = 0 \<and> n = 0 then db_op (nodes_delete ino) else ret ()))))"

section \<open>Links\<close>

definition unlink_tx :: "inode \<Rightarrow> string \<Rightarrow> inode \<Rightarrow> int \<Rightarrow> (conn, exn, u32) io" where
  "unlink_tx parent name ino now =
     bindE (entries_delete parent name) (\<lambda>_.
     bindE (change_nlink ino (- 1) now) (\<lambda>new_nlink.
     bindE (update_times parent None (Some now) (Some now)) (\<lambda>_.
     ret new_nlink)))"

definition fs_unlink :: "string \<Rightarrow> unit fs" where
  "fs_unlink path =
     bindE require_writable (\<lambda>_.
     bindE (db_op (resolve_parent_and_name path)) (\<lambda>(parent, name).
     bindE (db_op (entries_get parent name)) (\<lambda>entry.
     bindE (db_op (nodes_get (er_inode entry))) (\<lambda>row.
     bindE (require (nr_kind row \<noteq> Dir) IsADirectory) (\<lambda>_.
     bindE (db_op (nodes_get parent)) (\<lambda>parent_row.
     bindE (writable_parent parent_row) (\<lambda>_.
     bindE now_ns (\<lambda>now.
     bindE (db_op (transaction (unlink_tx parent name (er_inode entry) now))) (\<lambda>new_nlink.
     bindE (gets (\<lambda>s. open_count (er_inode entry) (fs_fdtable s))) (\<lambda>n.
     bindE (if new_nlink = 0 \<and> n = 0 then db_op (nodes_delete (er_inode entry)) else ret ()) (\<lambda>_.
     emit Remove path (nr_kind row) (er_inode entry) None None)))))))))))"

definition symlink_tx ::
  "byte list \<Rightarrow> inode \<Rightarrow> string \<Rightarrow> u32 \<Rightarrow> u32 \<Rightarrow> int \<Rightarrow> (conn, exn, inode) io" where
  "symlink_tx target parent name uid gid now =
     bindE (nodes_insert Symlink 0x1FF uid gid now) (\<lambda>new_ino.
     bindE (entries_insert parent name new_ino) (\<lambda>_.
     bindE (symlinks_insert new_ino target) (\<lambda>_.
     bindE (update_times parent None (Some now) (Some now)) (\<lambda>_.
     ret new_ino))))"

definition fs_symlink :: "byte list \<Rightarrow> string \<Rightarrow> unit fs" where
  "fs_symlink target path =
     bindE require_writable (\<lambda>_.
     bindE (db_op (resolve_parent_and_name path)) (\<lambda>(parent, name).
     bindE (db_op (nodes_get parent)) (\<lambda>parent_row.
     bindE (require (nr_kind parent_row = Dir) NotADirectory) (\<lambda>_.
     bindE (writable_parent parent_row) (\<lambda>_.
     bindE now_ns (\<lambda>now.
     bindE caller (\<lambda>(uid, gid).
     bindE (db_op (transaction (symlink_tx target parent name uid gid now))) (\<lambda>new_ino.
     emit Create path Symlink new_ino None None))))))))"

definition fs_readlink :: "string \<Rightarrow> (conn, exn, byte list) io" where
  "fs_readlink path =
     bindE (resolve_to_inode path) (\<lambda>ino.
     bindE (nodes_get ino) (\<lambda>row.
     bindE (require (nr_kind row = Symlink) InvalidArgument) (\<lambda>_.
     symlinks_get ino)))"

definition link_tx :: "inode \<Rightarrow> string \<Rightarrow> inode \<Rightarrow> int \<Rightarrow> (conn, exn, unit) io" where
  "link_tx parent name ino now =
     bindE (entries_insert parent name ino) (\<lambda>_.
     bindE (change_nlink ino 1 now) (\<lambda>_.
     update_times parent None (Some now) (Some now)))"

definition fs_link :: "string \<Rightarrow> string \<Rightarrow> unit fs" where
  "fs_link target link_path =
     bindE require_writable (\<lambda>_.
     bindE (db_op (resolve_to_inode target)) (\<lambda>target_ino.
     bindE (db_op (nodes_get target_ino)) (\<lambda>target_row.
     bindE (require (nr_kind target_row \<noteq> Dir) IsADirectory) (\<lambda>_.
     bindE (db_op (resolve_parent_and_name link_path)) (\<lambda>(link_parent, link_name).
     bindE (db_op (nodes_get link_parent)) (\<lambda>parent_row.
     bindE (require (nr_kind parent_row = Dir) NotADirectory) (\<lambda>_.
     bindE (writable_parent parent_row) (\<lambda>_.
     bindE now_ns (\<lambda>now.
     bindE (db_op (transaction (link_tx link_parent link_name target_ino now))) (\<lambda>_.
     emit Create link_path (nr_kind target_row) target_ino None None))))))))))"

section \<open>Rename\<close>

text \<open>What is done with an entry that is in the way, and the move itself.\<close>

fun rename_allowed :: "node_kind \<Rightarrow> node_kind \<Rightarrow> inode \<Rightarrow> (conn, exn, unit) io" where
  "rename_allowed Dir Dir dst_ino =
     bindE (entries_count dst_ino None) (\<lambda>n. require (\<not> n > 0) DirectoryNotEmpty)"
| "rename_allowed Dir _ dst_ino = fail NotADirectory"
| "rename_allowed _ Dir dst_ino = fail IsADirectory"
| "rename_allowed _ _ dst_ino = ret ()"

definition replace_dst ::
  "node_kind \<Rightarrow> inode \<Rightarrow> inode \<Rightarrow> string \<Rightarrow> inode \<Rightarrow> int \<Rightarrow> (conn, exn, unit) io" where
  "replace_dst src_kind src_parent dst_parent dst_name dst_ino now =
     bindE (nodes_get dst_ino) (\<lambda>dst_row.
     bindE (rename_allowed src_kind (nr_kind dst_row) dst_ino) (\<lambda>_.
     bindE (entries_delete dst_parent dst_name) (\<lambda>_.
     bindE (change_nlink dst_ino (- 1) now) (\<lambda>new_nlink.
     bindE (if nr_kind dst_row = Dir \<and> src_parent \<noteq> dst_parent
            then bindE (change_nlink dst_parent (- 1) now) (\<lambda>_. ret ()) else ret ()) (\<lambda>_.
     if new_nlink = 0 then nodes_delete dst_ino else ret ())))))"

definition move_src ::
  "node_kind \<Rightarrow> inode \<Rightarrow> inode \<Rightarrow> string \<Rightarrow> inode \<Rightarrow> string \<Rightarrow> int \<Rightarrow> (conn, exn, unit) io" where
  "move_src src_kind src_ino src_parent src_name dst_parent dst_name now =
     bindE (entries_rename src_parent src_name dst_parent dst_name) (\<lambda>_.
     bindE (if src_kind = Dir \<and> src_parent \<noteq> dst_parent
            then bindE (change_nlink src_parent (- 1) now) (\<lambda>_.
                 bindE (change_nlink dst_parent 1 now) (\<lambda>_. ret ()))
            else ret ()) (\<lambda>_.
     bindE (update_times src_parent None (Some now) (Some now)) (\<lambda>_.
     bindE (if src_parent \<noteq> dst_parent
            then update_times dst_parent None (Some now) (Some now) else ret ()) (\<lambda>_.
     update_times src_ino None None (Some now)))))"

text \<open>The transaction; it returns whether anything was moved.\<close>

definition rename_tx ::
  "node_kind \<Rightarrow> inode \<Rightarrow> inode \<Rightarrow> string \<Rightarrow> inode \<Rightarrow> string \<Rightarrow> entry_row option \<Rightarrow> int \<Rightarrow> (conn, exn, bool) io"
where
  "rename_tx src_kind src_ino src_parent src_name dst_parent dst_name existing_dst now =
     (case existing_dst of
        Some dst_entry \<Rightarrow>
          if er_inode dst_entry = src_ino then ret False
          else bindE (replace_dst src_kind src_parent dst_parent dst_name (er_inode dst_entry) now) (\<lambda>_.
               bindE (move_src src_kind src_ino src_parent src_name dst_parent dst_name now) (\<lambda>_. ret True))
      | None \<Rightarrow>
          bindE (move_src src_kind src_ino src_parent src_name dst_parent dst_name now) (\<lambda>_. ret True))"

definition rename_ancestry :: "node_kind \<Rightarrow> inode \<Rightarrow> inode \<Rightarrow> (conn, exn, unit) io" where
  "rename_ancestry src_kind src_ino dst_parent =
     (if src_kind = Dir then
        bindE (require (src_ino \<noteq> dst_parent) InvalidArgument) (\<lambda>_.
        bindE (ancestry dst_parent) (\<lambda>ancestors.
        require (src_ino \<notin> set ancestors) InvalidArgument))
      else ret ())"

definition fs_rename :: "string \<Rightarrow> string \<Rightarrow> unit fs" where
  "fs_rename src dst =
     bindE require_writable (\<lambda>_.
     if src = dst then ret ()
     else
       bindE (db_op (resolve_parent_and_name src)) (\<lambda>(src_parent, src_name).
       bindE (db_op (entries_get src_parent src_name)) (\<lambda>src_entry.
       bindE (db_op (nodes_get (er_inode src_entry))) (\<lambda>src_row.
       bindE (db_op (resolve_parent_and_name dst)) (\<lambda>(dst_parent, dst_name).
       bindE (db_op (nodes_get dst_parent)) (\<lambda>dst_parent_row.
       bindE (require (nr_kind dst_parent_row = Dir) NotADirectory) (\<lambda>_.
       bindE (db_op (nodes_get src_parent)) (\<lambda>src_parent_row.
       bindE (writable_parent src_parent_row) (\<lambda>_.
       bindE (writable_parent dst_parent_row) (\<lambda>_.
       bindE (db_op (rename_ancestry (nr_kind src_row) (er_inode src_entry) dst_parent)) (\<lambda>_.
       bindE (db_op (ok (entries_get dst_parent dst_name))) (\<lambda>existing_dst.
       bindE now_ns (\<lambda>now.
       bindE (db_op (transaction (rename_tx (nr_kind src_row) (er_inode src_entry) src_parent src_name
                dst_parent dst_name existing_dst now))) (\<lambda>moved.
       if moved then emit Move dst (nr_kind src_row) (er_inode src_entry) (Some src) (Some dst)
       else ret ()))))))))))))))"

section \<open>Metadata\<close>

definition fs_chmod :: "string \<Rightarrow> u32 \<Rightarrow> unit fs" where
  "fs_chmod path mode =
     bindE require_writable (\<lambda>_.
     bindE (db_op (resolve_to_inode path)) (\<lambda>ino.
     bindE (db_op (nodes_get ino)) (\<lambda>row.
     bindE caller (\<lambda>(uid, gid).
     bindE (require (\<not> (uid \<noteq> 0 \<and> uid \<noteq> nr_uid row)) PermissionDenied) (\<lambda>_.
     bindE now_ns (\<lambda>now.
     bindE (db_op (update_mode_uid_gid ino (Some (mode AND 0xFFF)) None None now)) (\<lambda>_.
     emit Metadata path (nr_kind row) ino None None)))))))"

definition fs_chown :: "string \<Rightarrow> u32 option \<Rightarrow> u32 option \<Rightarrow> unit fs" where
  "fs_chown path new_uid new_gid =
     bindE require_writable (\<lambda>_.
     bindE (db_op (resolve_to_inode path)) (\<lambda>ino.
     bindE (db_op (nodes_get ino)) (\<lambda>row.
     bindE caller (\<lambda>(uid, gid).
     bindE (require (\<not> ((case new_uid of Some u \<Rightarrow> u \<noteq> nr_uid row | None \<Rightarrow> False) \<and> uid \<noteq> 0))
              PermissionDenied) (\<lambda>_.
     bindE (require (\<not> (new_gid \<noteq> None \<and> uid \<noteq> 0 \<and> uid \<noteq> nr_uid row)) PermissionDenied) (\<lambda>_.
     bindE now_ns (\<lambda>now.
     bindE (db_op (update_mode_uid_gid ino None new_uid new_gid now)) (\<lambda>_.
     emit Metadata path (nr_kind row) ino None None))))))))"

definition fs_utimes :: "string \<Rightarrow> int option \<Rightarrow> int option \<Rightarrow> unit fs" where
  "fs_utimes path atime_ns mtime_ns =
     bindE require_writable (\<lambda>_.
     bindE (db_op (resolve_to_inode path)) (\<lambda>ino.
     bindE (db_op (nodes_get ino)) (\<lambda>row.
     bindE caller (\<lambda>(uid, gid).
     bindE (require (\<not> (uid \<noteq> 0 \<and> uid \<noteq> nr_uid row)) PermissionDenied) (\<lambda>_.
     bindE now_ns (\<lambda>now.
     bindE (db_op (update_times ino atime_ns mtime_ns (Some now))) (\<lambda>_.
     emit Metadata path (nr_kind row) ino None None)))))))"

definition fs_setxattr :: "string \<Rightarrow> string \<Rightarrow> byte list \<Rightarrow> u32 \<Rightarrow> unit fs" where
  "fs_setxattr path name value flags =
     bindE require_writable (\<lambda>_.
     bindE (db_op (resolve_to_inode path)) (\<lambda>ino.
     bindE (db_op (nodes_get ino)) (\<lambda>row.
     bindE (caller_access row ACCESS_W) (\<lambda>_.
     bindE caller (\<lambda>(uid, gid).
     bindE (of_result (validate_name name uid)) (\<lambda>_.
     bindE (of_result (validate_value value)) (\<lambda>_.
     bindE (db_op (xattrs_set ino name value flags)) (\<lambda>_.
     bindE now_ns (\<lambda>now.
     bindE (db_op (update_times ino None None (Some now))) (\<lambda>_.
     emit Metadata path (nr_kind row) ino None None))))))))))"

definition fs_getxattr :: "string \<Rightarrow> string \<Rightarrow> byte list fs" where
  "fs_getxattr path name =
     bindE (db_op (resolve_to_inode path)) (\<lambda>ino.
     bindE (db_op (nodes_get ino)) (\<lambda>row.
     bindE (caller_access row ACCESS_R) (\<lambda>_.
     db_op (xattrs_get ino name))))"

definition fs_listxattr :: "string \<Rightarrow> string list fs" where
  "fs_listxattr path =
     bindE (db_op (resolve_to_inode path)) (\<lambda>ino.
     bindE (db_op (nodes_get ino)) (\<lambda>row.
     bindE (caller_access row ACCESS_R) (\<lambda>_.
     db_op (xattrs_list_names ino))))"

definition fs_removexattr :: "string \<Rightarrow> string \<Rightarrow> unit fs" where
  "fs_removexattr path name =
     bindE require_writable (\<lambda>_.
     bindE (db_op (resolve_to_inode path)) (\<lambda>ino.
     bindE (db_op (nodes_get ino)) (\<lambda>row.
     bindE (caller_access row ACCESS_W) (\<lambda>_.
     bindE (db_op (xattrs_remove ino name)) (\<lambda>_.
     bindE now_ns (\<lambda>now.
     bindE (db_op (update_times ino None None (Some now))) (\<lambda>_.
     emit Metadata path (nr_kind row) ino None None)))))))"

section \<open>Locks and synchronisation\<close>

text \<open>A lock operation on the inode of a descriptor.\<close>

definition with_locks :: "u64 \<Rightarrow> (inode \<Rightarrow> lock_manager \<Rightarrow> (error + unit) \<times> lock_manager) \<Rightarrow> unit fs" where
  "with_locks fd f =
     bindE (get_fd fd) (\<lambda>entry s.
       (case f (fe_inode entry) (fs_locks s) of (r, m) \<Rightarrow> of_result r (s\<lparr>fs_locks := m\<rparr>)))"

definition fs_posix_lock :: "u64 \<Rightarrow> int \<Rightarrow> lock_op \<Rightarrow> u64 \<Rightarrow> u64 \<Rightarrow> bool \<Rightarrow> unit fs" where
  "fs_posix_lock fd pid lk_op start len wait =
     with_locks fd (\<lambda>ino. posix_lock ino (sint fd) pid lk_op start len wait)"

definition fs_ofd_lock :: "u64 \<Rightarrow> lock_op \<Rightarrow> u64 \<Rightarrow> u64 \<Rightarrow> bool \<Rightarrow> unit fs" where
  "fs_ofd_lock fd lk_op start len wait =
     with_locks fd (\<lambda>ino. ofd_lock ino (sint fd) lk_op start len wait)"

definition fs_flock :: "u64 \<Rightarrow> flock_op \<Rightarrow> bool \<Rightarrow> unit fs" where
  "fs_flock fd fl_op wait = with_locks fd (\<lambda>ino. flock ino (sint fd) fl_op wait)"

definition fs_posix_getlk :: "u64 \<Rightarrow> int \<Rightarrow> u64 \<Rightarrow> u64 \<Rightarrow> lock_query option fs" where
  "fs_posix_getlk fd pid start len =
     bindE (get_fd fd) (\<lambda>entry.
     gets (\<lambda>s. posix_getlk (fe_inode entry) (sint fd) pid start len (fs_locks s)))"

definition fs_ofd_getlk :: "u64 \<Rightarrow> u64 \<Rightarrow> u64 \<Rightarrow> lock_query option fs" where
  "fs_ofd_getlk fd start len =
     bindE (get_fd fd) (\<lambda>entry.
     gets (\<lambda>s. ofd_getlk (fe_inode entry) (sint fd) start len (fs_locks s)))"

definition fs_flush :: "u64 \<Rightarrow> unit fs" where
  "fs_flush fd = bindE (get_fd fd) (\<lambda>_. ret ())"

text \<open>\<open>PRAGMA wal_checkpoint\<close> moves committed pages; the tables stay as they are.\<close>

definition wal_checkpoint :: "(conn, exn, unit) io" where
  "wal_checkpoint = stmt (\<lambda>d. Inr ((), d))"

definition fs_fsync :: "u64 \<Rightarrow> unit fs" where
  "fs_fsync fd =
     bindE (get_fd fd) (\<lambda>_.
     bindE (gets fs_readonly) (\<lambda>ro. if ro then ret () else db_op wal_checkpoint))"

definition fs_fsyncdir :: "string \<Rightarrow> unit fs" where
  "fs_fsyncdir path =
     bindE (db_op (resolve_to_inode path)) (\<lambda>ino.
     bindE (db_op (nodes_get ino)) (\<lambda>row.
     bindE (require (nr_kind row = Dir) NotADirectory) (\<lambda>_.
     bindE (gets fs_readonly) (\<lambda>ro. if ro then ret () else db_op wal_checkpoint))))"


text \<open>\<open>close\<close> stops the checkpoint thread and closes the connection; the object is gone afterwards.\<close>

definition fs_close :: "unit fs" where
  "fs_close =
     bindE (modify (\<lambda>s. s\<lparr>fs_checkpoint := False\<rparr>)) (\<lambda>_. db_op (stmt (\<lambda>d. Inr ((), d))))"

end
