(* ===== verification/Fs_Tree.thy ===== *)
theory Fs_Tree
  imports Fs_Paths Fs_Blobs Fs_Meta
begin

text \<open>
  The invariant of the database.  \<open>tree\<close> is the shape: keys are unique, identifiers are
  positive and below the counter, entries lead from directories to nodes, names are valid, every
  directory has at most one entry and the root none, and the entries form no cycle.  \<open>wf_links\<close>
  and \<open>wf_symlinks\<close> say that the link count of everything but a directory is the number of its
  entries and that exactly the symbolic links have a target; \<open>wf_extents\<close> that the chunks of a
  file lie within its size.  For each effect of a statement there is a lemma saying when it keeps
  each part.
\<close>

section \<open>The invariant\<close>

definition wf_keys :: "db \<Rightarrow> bool" where
  "wf_keys d \<longleftrightarrow> keyed (t_nodes d) \<and> keyed (t_entries d) \<and> keyed (t_blobs d) \<and> keyed (t_xattrs d)
     \<and> keyed (t_symlinks d) \<and> length (t_entries d) < 2 ^ 63"

definition wf_seq :: "db \<Rightarrow> bool" where
  "wf_seq d \<longleftrightarrow> 1 \<le> t_seq d \<and> t_seq d < 2 ^ 63
     \<and> (\<forall>i. node_of d i \<noteq> None \<longrightarrow> 1 \<le> sint i \<and> sint i \<le> t_seq d)"

definition wf_names :: "db \<Rightarrow> bool" where
  "wf_names d \<longleftrightarrow> (\<forall>p n. entry_of d p n \<noteq> None \<longrightarrow> valid_component n)"

definition wf_root :: "db \<Rightarrow> bool" where
  "wf_root d \<longleftrightarrow> has_kind d ROOT_INODE Dir \<and> (\<forall>p n. entry_of d p n \<noteq> Some ROOT_INODE)"

definition wf_refs :: "db \<Rightarrow> bool" where
  "wf_refs d \<longleftrightarrow> (\<forall>p n i. entry_of d p n = Some i \<longrightarrow> has_kind d p Dir \<and> node_of d i \<noteq> None)
     \<and> (\<forall>i k. blob_of d i k \<noteq> None \<longrightarrow> node_of d i \<noteq> None)
     \<and> (\<forall>i n. xattr_of d i n \<noteq> None \<longrightarrow> node_of d i \<noteq> None)
     \<and> (\<forall>i. symlink_of d i \<noteq> None \<longrightarrow> node_of d i \<noteq> None)"

definition wf_dirs :: "db \<Rightarrow> bool" where
  "wf_dirs d \<longleftrightarrow> (\<forall>p n p' n' i. has_kind d i Dir \<longrightarrow> entry_of d p n = Some i \<longrightarrow> entry_of d p' n' = Some i
     \<longrightarrow> p = p' \<and> n = n')"

definition tree :: "db \<Rightarrow> bool" where
  "tree d \<longleftrightarrow> wf_keys d \<and> wf_seq d \<and> wf_names d \<and> wf_root d \<and> wf_refs d \<and> wf_dirs d \<and> acyclic (edges d)"

text \<open>The number of entries of an inode, and the number of directories in a directory.\<close>

definition entry_count :: "db \<Rightarrow> inode \<Rightarrow> nat" where
  "entry_count d i = count_rows (\<lambda>_ c. c = i) (t_entries d)"

definition subdir_count :: "db \<Rightarrow> inode \<Rightarrow> nat" where
  "subdir_count d p = count_rows (\<lambda>(q, n) c. q = p \<and> has_kind d c Dir) (t_entries d)"

definition wf_links :: "db \<Rightarrow> bool" where
  "wf_links d \<longleftrightarrow> (\<forall>i n. node_of d i = Some n \<longrightarrow> n_kind n \<noteq> Dir \<longrightarrow> n_nlink n = int (entry_count d i))"

definition wf_symlinks :: "db \<Rightarrow> bool" where
  "wf_symlinks d \<longleftrightarrow> (\<forall>i. symlink_of d i \<noteq> None \<longleftrightarrow> has_kind d i Symlink)"

definition wf_extents :: "u64 \<Rightarrow> db \<Rightarrow> bool" where
  "wf_extents cs d \<longleftrightarrow> (\<forall>i n. node_of d i = Some n \<longrightarrow>
     chunks_fit d i (unat cs) (unat (n_size n)) \<and> unat (n_size n) < 2 ^ 63)"

definition wf_db :: "u64 \<Rightarrow> db \<Rightarrow> bool" where
  "wf_db cs d \<longleftrightarrow> tree d \<and> wf_links d \<and> wf_symlinks d \<and> wf_extents cs d"

text \<open>What a directory's link count should be; rename over a directory breaks it.\<close>

definition wf_dir_links :: "db \<Rightarrow> bool" where
  "wf_dir_links d \<longleftrightarrow> (\<forall>i n. node_of d i = Some n \<longrightarrow> n_kind n = Dir \<longrightarrow> n_nlink n = 2 + int (subdir_count d i))"

lemmas wf_db_parts = wf_db_def tree_def
lemmas effect_defs = add_node_def map_node_def del_node_def add_entry_def del_entry_def add_symlink_def
  put_xattr_def set_xattr_def del_xattr_def

section \<open>The graph through lookups\<close>

lemma entry_in_table: "keyed (t_entries d) \<Longrightarrow> ((p, n), i) \<in> set (t_entries d) \<longleftrightarrow> entry_of d p n = Some i"
  by (simp add: entry_of_def)

lemma edges_iff: "wf_keys d \<Longrightarrow> (p, i) \<in> edges d \<longleftrightarrow> (\<exists>n. entry_of d p n = Some i)"
  by (simp add: edges_def wf_keys_def entry_in_table)

lemma has_kind_simps [simp]:
  "has_kind (add_node i n d) j k = (if j = i then n_kind n = k else has_kind d j k)"
  "has_kind (del_node i d) j k = (j \<noteq> i \<and> has_kind d j k)"
  "has_kind (add_entry p m i d) j k = has_kind d j k"
  "has_kind (del_entry p m d) j k = has_kind d j k"
  "has_kind (add_symlink i t d) j k = has_kind d j k"
  "has_kind (put_xattr i a v d) j k = has_kind d j k"
  "has_kind (set_xattr i a v d) j k = has_kind d j k"
  "has_kind (del_xattr i a d) j k = has_kind d j k"
  by (simp_all add: has_kind_def)

lemma has_kind_map_node [simp]:
  "(\<And>n. n_kind (f n) = n_kind n) \<Longrightarrow> has_kind (map_node i f d) j k = has_kind d j k"
  by (auto simp: has_kind_def split: option.splits)

lemma has_kind_node: "node_of d i = Some n \<Longrightarrow> has_kind d i k \<longleftrightarrow> n_kind n = k"
  by (simp add: has_kind_def)

lemma has_kindE: "has_kind d i k \<Longrightarrow> (\<And>n. node_of d i = Some n \<Longrightarrow> n_kind n = k \<Longrightarrow> P) \<Longrightarrow> P"
  by (auto simp: has_kind_def split: option.splits)

lemma rows_under_Nil: "wf_keys d \<Longrightarrow> rows_under d p = [] \<longleftrightarrow> (\<forall>n. entry_of d p n = None)"
proof -
  assume "wf_keys d"
  then have "(\<forall>n i. ((p, n), i) \<notin> set (t_entries d)) \<longleftrightarrow> (\<forall>n. entry_of d p n = None)"
    by (simp add: wf_keys_def entry_in_table)
  then show ?thesis by (auto simp: rows_under_def filter_empty_conv)
qed

text \<open>The count is a 64-bit word; there are fewer rows than that, so zero means none.\<close>

lemma count_zero_iff: "wf_keys d \<Longrightarrow> \<not> 0 < (of_nat (length (rows_under d p)) :: u64) \<longleftrightarrow> rows_under d p = []"
proof -
  assume "wf_keys d"
  then have "length (t_entries d) < 2 ^ 63" by (simp add: wf_keys_def)
  moreover have "length (rows_under d p) \<le> length (t_entries d)" by (simp add: rows_under_def)
  ultimately have "length (rows_under d p) < 2 ^ 64" by simp
  then have "unat (of_nat (length (rows_under d p)) :: u64) = length (rows_under d p)" by (rule unat_of_nat64)
  then show ?thesis by (simp add: word_greater_zero_iff unat_eq_zero[symmetric] del: unat_eq_zero)
qed

lemma referenced_iff: "wf_keys d \<Longrightarrow> referenced d i \<longleftrightarrow> (\<exists>p n. p \<noteq> i \<and> entry_of d p n = Some i)"
  by (force simp: referenced_def wf_keys_def entry_in_table[symmetric])

lemma no_self_entry: "tree d \<Longrightarrow> entry_of d p n = Some i \<Longrightarrow> p \<noteq> i"
  using edges_iff[of d p i] by (auto simp: tree_def acyclic_def)

lemma tree_entryD: "tree d \<Longrightarrow> entry_of d p n = Some i \<Longrightarrow> has_kind d p Dir \<and> node_of d i \<noteq> None"
  unfolding tree_def wf_refs_def by blast

lemma tree_keys: "tree d \<Longrightarrow> wf_keys d"
  by (simp add: tree_def)

section \<open>Effects that do not touch the tree\<close>

lemma edges_cong: "t_entries d' = t_entries d \<Longrightarrow> edges d' = edges d"
  by (simp add: edges_def)

lemma edges_simps [simp]:
  "edges (add_node i n d) = edges d" "edges (map_node i f d) = edges d" "edges (add_symlink i t d) = edges d"
  "edges (put_xattr i a v d) = edges d" "edges (set_xattr i a v d) = edges d" "edges (del_xattr i a d) = edges d"
  by (simp_all add: edges_def effect_defs)

lemma entry_count_simps [simp]:
  "entry_count (add_node i n d) = entry_count d" "entry_count (map_node i f d) = entry_count d"
  "entry_count (add_symlink i t d) = entry_count d"
  by (simp_all add: entry_count_def effect_defs fun_eq_iff)

lemma other_lookups [simp]:
  "xattr_of (add_node i n d) = xattr_of d" "xattr_of (map_node i f d) = xattr_of d"
  "xattr_of (add_entry p m j d) = xattr_of d" "xattr_of (del_entry p m d) = xattr_of d"
  "xattr_of (add_symlink i t d) = xattr_of d"
  "symlink_of (put_xattr i a v d) = symlink_of d" "symlink_of (set_xattr i a v d) = symlink_of d"
  "symlink_of (del_xattr i a d) = symlink_of d"
  "blob_of (add_symlink i t d) = blob_of d" "blob_of (put_xattr i a v d) = blob_of d"
  "blob_of (set_xattr i a v d) = blob_of d" "blob_of (del_xattr i a d) = blob_of d"
  by (simp_all add: xattr_of_def symlink_of_def blob_of_def effect_defs fun_eq_iff)

lemma xattr_of_del_node [simp]: "xattr_of (del_node i d) j n = (if j = i then None else xattr_of d j n)"
  by (simp add: xattr_of_def del_node_def keyed_filter_fst)

lemma t_seq_simps [simp]:
  "t_seq (add_node i n d) = max (t_seq d) (sint i)" "t_seq (map_node i f d) = t_seq d"
  "t_seq (del_node i d) = t_seq d" "t_seq (add_entry p m j d) = t_seq d"
  "t_seq (del_entry p m d) = t_seq d" "t_seq (add_symlink i t d) = t_seq d"
  "t_seq (put_xattr i a v d) = t_seq d" "t_seq (set_xattr i a v d) = t_seq d"
  "t_seq (del_xattr i a d) = t_seq d"
  by (simp_all add: effect_defs del_node_def)

lemma wf_keys_effects:
  assumes "wf_keys d"
  shows "wf_keys (add_node i n d)" "wf_keys (map_node i f d)" "wf_keys (del_node i d)"
    "wf_keys (del_entry p m d)" "wf_keys (add_symlink i t d)" "wf_keys (put_xattr i a v d)"
    "wf_keys (set_xattr i a v d)" "wf_keys (del_xattr i a d)"
    "length (t_entries d) < 2 ^ 63 - 1 \<or> entry_of d p m \<noteq> None \<Longrightarrow> wf_keys (add_entry p m j d)"
proof -
  have len: "length (filter P xs) < 2 ^ 63" if "length xs < 2 ^ 63" for P and xs :: "((inode \<times> string) \<times> inode) list"
    using that length_filter_le[of P xs] by linarith
  show "wf_keys (add_node i n d)" "wf_keys (map_node i f d)" "wf_keys (add_symlink i t d)"
    "wf_keys (put_xattr i a v d)" "wf_keys (set_xattr i a v d)" "wf_keys (del_xattr i a d)"
    using assms by (simp_all add: wf_keys_def effect_defs)
  show "wf_keys (del_node i d)"
    using assms len by (simp add: wf_keys_def del_node_def)
  show "wf_keys (del_entry p m d)"
    using assms len unfolding wf_keys_def del_entry_def by (simp add: AList.delete_eq)
  show "wf_keys (add_entry p m j d)"
    if "length (t_entries d) < 2 ^ 63 - 1 \<or> entry_of d p m \<noteq> None"
  proof -
    have "length (AList.update k v t) = (if map_of t k = None then Suc (length t) else length t)"
      for k :: "inode \<times> string" and v :: inode and t
      by (induction t) auto
    then show ?thesis using assms that by (auto simp: wf_keys_def add_entry_def entry_of_def)
  qed
qed

lemma tree_map_node:
  assumes "tree d" and "\<And>n. n_kind (f n) = n_kind n"
  shows "tree (map_node i f d)"
  unfolding tree_def
proof (intro conjI)
  show "wf_keys (map_node i f d)" using assms(1) by (simp add: tree_def wf_keys_effects)
  show "wf_dirs (map_node i f d)" using assms unfolding tree_def wf_dirs_def by simp
qed (use assms in \<open>simp_all add: tree_def wf_seq_def wf_names_def wf_root_def wf_refs_def\<close>)

lemma tree_blobs_only:
  assumes "tree d" and "blobs_only d d'" and "\<And>i. node_of d i = None \<Longrightarrow> blob_of d' i = blob_of d i"
  shows "tree d'"
proof -
  note same = blobs_only_same[OF assms(2)]
  have kind: "has_kind d' = has_kind d" using same by (simp add: has_kind_def fun_eq_iff)
  have look: "xattr_of d' = xattr_of d" "symlink_of d' = symlink_of d" "edges d' = edges d"
    using same by (simp_all add: xattr_of_def symlink_of_def edges_def fun_eq_iff)
  have keys: "wf_keys d'" using assms(1,2) same by (simp add: tree_def wf_keys_def blobs_only_def)
  have "node_of d i \<noteq> None" if "blob_of d' i k \<noteq> None" for i k
  proof
    assume "node_of d i = None"
    then have "blob_of d i k \<noteq> None" using assms(3) that by simp
    then show False using assms(1) \<open>node_of d i = None\<close> unfolding tree_def wf_refs_def by blast
  qed
  then have refs: "wf_refs d'"
    using assms(1) same unfolding tree_def wf_refs_def look kind by simp
  show ?thesis
    using assms(1) keys refs same look kind
    by (simp add: tree_def wf_seq_def wf_names_def wf_root_def wf_dirs_def)
qed

lemma tree_xattrs:
  assumes "tree d" and "node_of d i \<noteq> None"
  shows "tree (put_xattr i a v d)" "tree (set_xattr i a v d)" "tree (del_xattr i a d)"
  using assms
  by (auto simp: tree_def wf_keys_effects wf_seq_def wf_names_def wf_root_def wf_refs_def wf_dirs_def)

lemma tree_add_symlink:
  assumes "tree d" and "node_of d i \<noteq> None"
  shows "tree (add_symlink i t d)"
  using assms
  by (auto simp: tree_def wf_keys_effects wf_seq_def wf_names_def wf_root_def wf_refs_def wf_dirs_def)

section \<open>Nodes\<close>

lemma next_inode_fresh:
  assumes "tree d" and "t_seq d < 2 ^ 63 - 1"
  shows "sint (next_inode d) = t_seq d + 1" and "node_of d (next_inode d) = None"
    and "next_inode d \<noteq> ROOT_INODE"
proof -
  have seq: "1 \<le> t_seq d" using assms(1) by (simp add: tree_def wf_seq_def)
  show s: "sint (next_inode d) = t_seq d + 1"
    unfolding next_inode_def sint_sbintrunc'
    by (rule signed_take_bit_int_eq_self) (use assms(2) seq in simp_all)
  then show "node_of d (next_inode d) = None"
    using assms(1) by (force simp: tree_def wf_seq_def)
  have "sint ROOT_INODE = 1" by (simp add: ROOT_INODE_def)
  then show "next_inode d \<noteq> ROOT_INODE" using s seq by auto
qed

lemma tree_add_node:
  assumes "tree d" and "t_seq d < 2 ^ 63 - 1"
  shows "tree (add_node (next_inode d) n d)"
proof -
  note fresh = next_inode_fresh[OF assms]
  have keys: "wf_keys (add_node (next_inode d) n d)" using assms(1) by (simp add: tree_def wf_keys_effects)
  have seq: "wf_seq (add_node (next_inode d) n d)"
    using assms fresh(1) by (auto simp: tree_def wf_seq_def)
  have "has_kind d q Dir \<and> node_of d i \<noteq> None" if "entry_of d q m = Some i" for q m i
    using assms(1) that unfolding tree_def wf_refs_def by blast
  then have no_entry: "entry_of d p m \<noteq> Some (next_inode d)" "entry_of d (next_inode d) m = None" for p m
    using fresh(2) by (auto simp: has_kind_def) (metis not_None_eq option.case(1))+
  have refs: "wf_refs (add_node (next_inode d) n d)"
    using assms(1) no_entry by (auto simp: tree_def wf_refs_def; metis option.distinct(1))
  have dirs: "wf_dirs (add_node (next_inode d) n d)"
    using assms(1) no_entry by (auto simp: tree_def wf_dirs_def; metis)
  show ?thesis
    using assms(1) keys seq refs dirs fresh(3) by (simp add: tree_def wf_names_def wf_root_def)
qed

lemma entries_of_del_node:
  assumes "\<And>n. entry_of d i n = None" and "wf_keys d"
  shows "t_entries (del_node i d) = t_entries d"
proof -
  have "(\<lambda>((p, n), c). p \<noteq> i) x" if "x \<in> set (t_entries d)" for x
  proof -
    obtain p n c where x: "x = ((p, n), c)" by (metis prod.collapse)
    then have "entry_of d p n = Some c" using that assms(2) entry_in_table by (metis wf_keys_def)
    then show ?thesis using assms(1) x by auto
  qed
  then show ?thesis by (simp add: del_node_def filter_id_conv)
qed

lemma tree_del_node:
  assumes "tree d" and "\<And>n. entry_of d i n = None" and "\<And>p n. entry_of d p n \<noteq> Some i" and "i \<noteq> ROOT_INODE"
  shows "tree (del_node i d)"
proof -
  have keys: "wf_keys d" using assms(1) by (simp add: tree_def)
  have edges: "edges (del_node i d) = edges d"
    by (rule edges_cong, rule entries_of_del_node[OF assms(2) keys])
  show ?thesis
    using assms keys edges
    by (auto simp: tree_def wf_keys_effects wf_seq_def wf_names_def wf_root_def wf_refs_def wf_dirs_def)
qed

section \<open>Entries\<close>

lemma edges_add_entry:
  assumes "wf_keys d" and "entry_of d p n = None"
  shows "edges (add_entry p n i d) = insert (p, i) (edges d)"
  using assms by (auto simp: edges_def add_entry_def update_fresh entry_of_def)

lemma edges_del_entry_sub: "edges (del_entry p n d) \<subseteq> edges d"
  by (auto simp: edges_def del_entry_def AList.delete_eq)

lemma tree_add_entry:
  assumes "tree d" and "has_kind d p Dir" and "node_of d i \<noteq> None" and "entry_of d p n = None"
    and "valid_component n" and "i \<noteq> ROOT_INODE" and "length (t_entries d) < 2 ^ 63 - 1"
    and "has_kind d i Dir \<Longrightarrow> \<forall>q m. entry_of d q m \<noteq> Some i" and "(i, p) \<notin> (edges d)\<^sup>*"
  shows "tree (add_entry p n i d)"
proof -
  have keys: "wf_keys d" using assms(1) by (simp add: tree_def)
  have "acyclic (edges (add_entry p n i d))"
    using assms(1,9) by (simp add: edges_add_entry[OF keys assms(4)] tree_def)
  moreover have "wf_dirs (add_entry p n i d)"
    using assms(1,8) by (auto simp: tree_def wf_dirs_def split: if_splits; metis)
  moreover have "wf_refs (add_entry p n i d)"
    using assms(1-3) by (auto simp: tree_def wf_refs_def split: if_splits; metis)
  ultimately show ?thesis
    using assms by (auto simp: tree_def wf_keys_effects wf_seq_def wf_names_def wf_root_def)
qed

lemma tree_del_entry:
  assumes "tree d" shows "tree (del_entry p n d)"
proof -
  have "acyclic (edges (del_entry p n d))"
    using assms acyclic_subset[OF _ edges_del_entry_sub] by (auto simp: tree_def)
  then show ?thesis
    using assms
    by (auto simp: tree_def wf_keys_effects wf_seq_def wf_names_def wf_root_def wf_refs_def wf_dirs_def split: if_splits; metis)
qed

text \<open>Where a non-directory is not an ancestor, and a directory without entries has no parent.\<close>

lemma not_above:
  assumes "tree d" and "\<And>n. entry_of d i n = None" and "i \<noteq> p"
  shows "(i, p) \<notin> (edges d)\<^sup>*"
proof
  assume "(i, p) \<in> (edges d)\<^sup>*"
  then obtain k where "(i, k) \<in> edges d" using assms(3) by (meson converse_rtranclE)
  then show False using assms(1,2) by (auto simp: tree_def edges_iff)
qed

lemma file_no_children: "tree d \<Longrightarrow> \<not> has_kind d i Dir \<Longrightarrow> entry_of d i n = None"
  by (cases "entry_of d i n") (auto simp: tree_def wf_refs_def)

lemma unlinked_no_children: "tree d \<Longrightarrow> node_of d i = None \<Longrightarrow> entry_of d i n = None"
  by (rule file_no_children) (simp_all add: has_kind_def)

lemma unlinked_no_entry: "tree d \<Longrightarrow> node_of d i = None \<Longrightarrow> entry_of d p n \<noteq> Some i"
  using tree_entryD by metis

section \<open>Counting entries\<close>

lemma entry_count_add:
  "entry_of d p n = None \<Longrightarrow> entry_count (add_entry p n i d) j = entry_count d j + (if i = j then 1 else 0)"
  by (simp add: entry_count_def add_entry_def entry_of_def count_rows_insert)

lemma entry_count_del:
  assumes "wf_keys d" and "entry_of d p n = Some i"
  shows "entry_count d j = entry_count (del_entry p n d) j + (if i = j then 1 else 0)"
  using assms count_rows_delete[of "t_entries d" "(p, n)" i "\<lambda>_ c. c = j"]
  by (simp add: entry_count_def del_entry_def entry_of_def wf_keys_def)

lemma entry_count_0: "wf_keys d \<Longrightarrow> entry_count d i = 0 \<longleftrightarrow> (\<forall>p n. entry_of d p n \<noteq> Some i)"
  by (force simp: entry_count_def count_rows_eq_0 wf_keys_def entry_in_table[symmetric])

lemma entry_count_del_node:
  "wf_keys d \<Longrightarrow> (\<And>n. entry_of d i n = None) \<Longrightarrow> entry_count (del_node i d) = entry_count d"
  by (simp add: entry_count_def entries_of_del_node fun_eq_iff)

end
