(* ===== verification/Fs_Lookup.thy ===== *)
theory Fs_Lookup
  imports Fs_Core Fs_Tree
begin

text \<open>
  What the path functions of \<open>fs.rs\<close> compute, as functions of the tables: \<open>lookup\<close> for
  \<open>resolve_to_inode\<close> and \<open>parent_lookup\<close> for \<open>resolve_parent_and_name\<close>.  The rules here replace the
  statements they run by these functions; the last section shows that climbing from an inode to
  the root and walking down the path it yields are inverse to each other, and that the climb ends.
\<close>

section \<open>States that differ in nothing that matters\<close>

text \<open>
  \<open>same_env\<close>: the same environment and settings; \<open>fs_quiet\<close>: also the same tables, descriptors,
  locks and event queues, so that only statement and clock counters may differ.
\<close>

definition same_env :: "filesystem \<Rightarrow> filesystem \<Rightarrow> bool" where
  "same_env s s' \<longleftrightarrow>
     c_fault (fs_conn s') = c_fault (fs_conn s) \<and> c_pick (fs_conn s') = c_pick (fs_conn s)
     \<and> c_integrity (fs_conn s') = c_integrity (fs_conn s)
     \<and> fs_chunk_size s' = fs_chunk_size s \<and> fs_readonly s' = fs_readonly s
     \<and> fs_caller_uid s' = fs_caller_uid s \<and> fs_caller_gid s' = fs_caller_gid s
     \<and> fs_checkpoint s' = fs_checkpoint s \<and> fs_clock s' = fs_clock s"

definition fs_quiet :: "filesystem \<Rightarrow> filesystem \<Rightarrow> bool" where
  "fs_quiet s s' \<longleftrightarrow> same_env s s' \<and> c_db (fs_conn s') = c_db (fs_conn s) \<and> fs_fdtable s' = fs_fdtable s
     \<and> fs_locks s' = fs_locks s \<and> fs_watchers s' = fs_watchers s"

lemmas quiet_defs = fs_quiet_def same_env_def

abbreviation fs_db :: "filesystem \<Rightarrow> db" where
  "fs_db s \<equiv> c_db (fs_conn s)"

section \<open>Walking down\<close>

fun walk :: "db \<Rightarrow> inode \<Rightarrow> string list \<Rightarrow> error + inode" where
  "walk d cur [] = Inr cur"
| "walk d cur (name # rest) =
     (if rest \<noteq> [] \<and> node_of d cur = None then Inl NotFound
      else if rest \<noteq> [] \<and> \<not> has_kind d cur Dir then Inl NotADirectory
      else case entry_of d cur name of None \<Rightarrow> Inl NotFound | Some i \<Rightarrow> walk d i rest)"

definition lookup :: "db \<Rightarrow> string \<Rightarrow> error + inode" where
  "lookup d path = (case parse_path path of Inl e \<Rightarrow> Inl e | Inr cs \<Rightarrow> walk d ROOT_INODE cs)"

definition parent_lookup :: "db \<Rightarrow> string \<Rightarrow> error + inode \<times> string" where
  "parent_lookup d path =
     (case parse_path path of
        Inl e \<Rightarrow> Inl e
      | Inr cs \<Rightarrow>
          if cs = [] then Inl InvalidArgument
          else (case walk d ROOT_INODE (butlast cs) of Inl e \<Rightarrow> Inl e | Inr p \<Rightarrow> Inr (p, last cs)))"

lemma wp_resolve_loop:
  assumes "\<And>t. \<not> reliable c \<Longrightarrow> E (Fail (Sqlite IoFault)) (c\<lparr>c_tick := t\<rparr>)"
    and "\<And>t e. walk (c_db c) cur cs = Inl e \<Longrightarrow> E (Fail e) (c\<lparr>c_tick := t\<rparr>)"
    and "\<And>t i. walk (c_db c) cur cs = Inr i \<Longrightarrow> Q i (c\<lparr>c_tick := t\<rparr>)"
  shows "wp (resolve_loop cur cs) Q E c"
  using assms
proof (induction cs arbitrary: cur c)
  case Nil
  then show ?case using Nil(3)[of cur "c_tick c"] by (simp add: wp_eqs)
next
  case (Cons name rest)
  have step: "wp (entries_get cur name) (\<lambda>e. wp (resolve_loop (er_inode e) rest) Q E) E (c\<lparr>c_tick := t\<rparr>)"
    if "\<not> (rest \<noteq> [] \<and> node_of (c_db c) cur = None)" and "\<not> (rest \<noteq> [] \<and> \<not> has_kind (c_db c) cur Dir)" for t
    by (rule wp_entries_get; (rule Cons.IH)?) (use that Cons.prems in \<open>auto split: option.splits\<close>)
  show ?case
  proof (cases "rest = []")
    case True
    then show ?thesis using step[of "c_tick c"] by (simp add: wp_eqs)
  next
    case False
    then show ?thesis
      unfolding resolve_loop.simps wp_bindE if_P[OF False]
      by (intro wp_nodes_get)
        (use Cons.prems(1,2) step in \<open>auto simp: wp_require has_kind_def split: option.splits\<close>)
  qed
qed

lemma wp_resolve_to_inode [wp_rules]:
  assumes "\<And>t. \<not> reliable c \<Longrightarrow> E (Fail (Sqlite IoFault)) (c\<lparr>c_tick := t\<rparr>)"
    and "\<And>t e. lookup (c_db c) path = Inl e \<Longrightarrow> E (Fail e) (c\<lparr>c_tick := t\<rparr>)"
    and "\<And>t i. lookup (c_db c) path = Inr i \<Longrightarrow> Q i (c\<lparr>c_tick := t\<rparr>)"
  shows "wp (resolve_to_inode path) Q E c"
proof (cases "parse_path path")
  case (Inl e)
  then show ?thesis using assms(2)[of e "c_tick c"] by (simp add: resolve_to_inode_def wp_eqs lookup_def)
next
  case (Inr cs)
  then show ?thesis using assms unfolding resolve_to_inode_def wp_bindE wp_of_result
    by (simp add: lookup_def wp_resolve_loop)
qed

lemma wp_resolve_parent_and_name [wp_rules]:
  assumes "\<And>t. \<not> reliable c \<Longrightarrow> E (Fail (Sqlite IoFault)) (c\<lparr>c_tick := t\<rparr>)"
    and "\<And>t e. parent_lookup (c_db c) path = Inl e \<Longrightarrow> E (Fail e) (c\<lparr>c_tick := t\<rparr>)"
    and "\<And>t p n. parent_lookup (c_db c) path = Inr (p, n) \<Longrightarrow> valid_component n \<Longrightarrow> Q (p, n) (c\<lparr>c_tick := t\<rparr>)"
  shows "wp (resolve_parent_and_name path) Q E c"
proof (cases "parse_path path")
  case (Inl e)
  then show ?thesis using assms(2)[of e "c_tick c"]
    by (simp add: resolve_parent_and_name_def wp_eqs parent_lookup_def)
next
  case (Inr cs)
  show ?thesis
  proof (cases "cs = []")
    case True
    then show ?thesis using assms(2)[of InvalidArgument "c_tick c"] Inr
      by (simp add: resolve_parent_and_name_def wp_eqs parent_lookup_def)
  next
    case False
    then have cs: "butlast cs @ [last cs] = cs" by simp
    have "parse_path (path_string (butlast cs)) = Inr (butlast cs)"
      by (rule parse_path_parent[of path "butlast cs" "[last cs]"]) (simp add: Inr cs)
    then have lk: "lookup (c_db c) (path_string (butlast cs)) = walk (c_db c) ROOT_INODE (butlast cs)"
      by (simp add: lookup_def)
    have valid: "valid_component (last cs)"
      using parse_path_valid[OF Inr] False by simp
    have pl: "parent_lookup (c_db c) path
        = (case walk (c_db c) ROOT_INODE (butlast cs) of Inl e \<Rightarrow> Inl e | Inr p \<Rightarrow> Inr (p, last cs))"
      using Inr False by (simp add: parent_lookup_def)
    show ?thesis
    proof (cases "butlast cs = []")
      case True
      then show ?thesis
        using Inr False pl assms(3)[of ROOT_INODE "last cs" "c_tick c"] valid
        by (simp add: resolve_parent_and_name_def wp_eqs)
    next
      case ne: False
      have "wp (resolve_to_inode (path_string (butlast cs))) (\<lambda>x. Q (x, last cs)) E c"
        by (rule wp_resolve_to_inode) (use assms pl lk valid in auto)
      then show ?thesis using Inr False ne by (simp add: resolve_parent_and_name_def wp_eqs)
    qed
  qed
qed

section \<open>Climbing up\<close>

lemma walk_Cons:
  "tree d \<Longrightarrow> walk d cur (n # ns) = Inr i \<longleftrightarrow> (\<exists>j. entry_of d cur n = Some j \<and> walk d j ns = Inr i)"
  by (auto simp: has_kind_def dest: tree_entryD split: option.splits)

lemma walk_append:
  assumes "tree d"
  shows "walk d cur (ns @ ms) = Inr i \<longleftrightarrow> (\<exists>j. walk d cur ns = Inr j \<and> walk d j ms = Inr i)"
proof (induction ns arbitrary: cur)
  case (Cons n ns)
  then show ?case by (auto simp only: append_Cons walk_Cons[OF assms])
qed simp

lemma walk_node:
  assumes "tree d" and "walk d ROOT_INODE cs = Inr i"
  shows "node_of d i \<noteq> None"
proof (cases cs rule: rev_cases)
  case Nil
  then show ?thesis using assms by (auto simp: tree_def wf_root_def has_kind_def split: option.splits)
next
  case (snoc ns n)
  then obtain j where "entry_of d j n = Some i"
    using assms(2) by (auto simp: walk_append[OF assms(1)] split: option.splits)
  then show ?thesis using tree_entryD[OF assms(1)] by blast
qed

lemma wp_path_row:
  assumes "\<And>t. Q None (c\<lparr>c_tick := t\<rparr>)"
    and "\<And>t p n. wf_keys (c_db c) \<Longrightarrow> entry_of (c_db c) p n = Some i \<Longrightarrow> Q (Some (p, n)) (c\<lparr>c_tick := t\<rparr>)"
    and "wf_keys (c_db c)"
  shows "wp (path_row i) Q E c"
  unfolding path_row_def wp_bindE wp_ok wp_ret
  by (rule wp_query_limit1) (use assms in \<open>auto simp: in_parents_of wf_keys_def entry_in_table\<close>)

lemma path_loop_ends:
  assumes "tree d" and "c_db c = d" and "walk d parent (rev parts) = Inr i"
  shows "\<exists>r t. path_loop parent parts c = Some (Inr r, c\<lparr>c_tick := t\<rparr>)
    \<and> (case r of None \<Rightarrow> True | Some ps \<Rightarrow> walk d ROOT_INODE (rev ps) = Inr i \<and> (parts \<noteq> [] \<longrightarrow> ps \<noteq> []))"
proof -
  have "wf (edges d)" using assms(1) wf_edges by (simp add: tree_def)
  then show ?thesis using assms(2,3)
  proof (induction parent arbitrary: parts c rule: wf_induct_rule)
    case (less parent)
    show ?case
    proof (cases "parent = ROOT_INODE")
      case True
      then have "path_loop parent parts c = Some (Inr (Some parts), c\<lparr>c_tick := c_tick c\<rparr>)"
        by (subst path_loop.simps) simp
      moreover have "walk d ROOT_INODE (rev parts) = Inr i" using less.prems(2) True by simp
      ultimately show ?thesis
        by (intro exI[of _ "Some parts"] exI[of _ "c_tick c"]) simp
    next
      case False
      have "wp (path_row parent)
          (\<lambda>row c'. (\<exists>t. c' = c\<lparr>c_tick := t\<rparr>)
             \<and> (case row of None \<Rightarrow> True | Some (p, n) \<Rightarrow> entry_of d p n = Some parent))
          (\<lambda>_ _. False) c"
        by (rule wp_path_row) (use less.prems tree_keys[OF assms(1)] in auto)
      from wp_returns[OF this] obtain row t
        where row: "path_row parent c = (Inr row, c\<lparr>c_tick := t\<rparr>)"
          and entry: "case row of None \<Rightarrow> True | Some (p, n) \<Rightarrow> entry_of d p n = Some parent" by auto
      show ?thesis
      proof (cases row)
        case None
        then show ?thesis using row False by (auto simp: path_loop.simps[of parent])
      next
        case (Some pn)
        obtain p n where pn: "pn = (p, n)" by fastforce
        have e: "entry_of d p n = Some parent" using entry Some pn by simp
        then have "(p, parent) \<in> edges d" using edges_iff[OF tree_keys[OF assms(1)]] by blast
        moreover have "walk d p (rev (parts @ [n])) = Inr i"
          unfolding rev_append rev.simps append_Nil append_Cons walk_Cons[OF assms(1)]
          using e less.prems(2) by blast
        ultimately obtain r t' where "path_loop p (parts @ [n]) (c\<lparr>c_tick := t\<rparr>)
              = Some (Inr r, c\<lparr>c_tick := t, c_tick := t'\<rparr>)"
            and "case r of None \<Rightarrow> True | Some ps \<Rightarrow> walk d ROOT_INODE (rev ps) = Inr i
              \<and> (parts @ [n] \<noteq> [] \<longrightarrow> ps \<noteq> [])"
          using less.IH[of p "c\<lparr>c_tick := t\<rparr>" "parts @ [n]"] less.prems(1) by auto
        then show ?thesis
          using row Some pn False by (auto simp: path_loop.simps[of parent] split: option.splits)
      qed
    qed
  qed
qed

lemma wp_path_for_inode:
  assumes "tree (c_db c)"
    and "\<And>t. Q None (c\<lparr>c_tick := t\<rparr>)"
    and "\<And>t cs. cs \<noteq> [] \<Longrightarrow> walk (c_db c) ROOT_INODE cs = Inr i \<Longrightarrow> Q (Some (path_string cs)) (c\<lparr>c_tick := t\<rparr>)"
  shows "wp (path_for_inode i) Q E c"
  unfolding path_for_inode_def wp_bindE
proof (rule wp_path_row)
  fix t p n assume e: "entry_of (c_db c) p n = Some i"
  have "walk (c_db c) p (rev [n]) = Inr i" using e by simp
  from path_loop_ends[OF assms(1) _ this, of "c\<lparr>c_tick := t\<rparr>"] obtain r t'
    where "path_loop p [n] (c\<lparr>c_tick := t\<rparr>) = Some (Inr r, c\<lparr>c_tick := t, c_tick := t'\<rparr>)"
      and "case r of None \<Rightarrow> True | Some ps \<Rightarrow> walk (c_db c) ROOT_INODE (rev ps) = Inr i
        \<and> ([n] \<noteq> [] \<longrightarrow> ps \<noteq> [])" by fastforce
  then show "wp (case Some (p, n) of None \<Rightarrow> ret None
       | Some pn \<Rightarrow> bindE (unless_diverges (path_loop (fst pn) [snd pn]))
           (\<lambda>parts. ret (map_option (\<lambda>ps. path_string (rev ps)) parts))) Q E (c\<lparr>c_tick := t\<rparr>)"
    using assms(2,3) by (cases r) (auto simp: wp_def bindE_def unless_diverges_def ret_def)
qed (use assms tree_keys in \<open>auto simp: wp_eqs\<close>)

lemma wp_path_of_inode:
  assumes "tree (c_db c)"
    and "\<And>t. Q None (c\<lparr>c_tick := t\<rparr>)"
    and "\<And>t cs. walk (c_db c) ROOT_INODE cs = Inr i \<Longrightarrow> Q (Some (path_string cs)) (c\<lparr>c_tick := t\<rparr>)"
  shows "wp (path_of_inode i) Q E c"
proof (cases "i = ROOT_INODE")
  case True
  then show ?thesis using assms(3)[of "[]" "c_tick c"] by (simp add: path_of_inode_def wp_eqs path_string_def)
next
  case False
  then show ?thesis unfolding path_of_inode_def if_not_P[OF False]
    by (intro wp_path_for_inode) (use assms in auto)
qed

end
