(* ===== verification/Fs_Tx.thy ===== *)
theory Fs_Tx
  imports Fs_Lookup
begin

text \<open>
  The transactions of \<open>fs.rs\<close> as functions on the tables.  For every \<open>..._tx\<close> there is the
  database it commits (\<open>..._db\<close>), a rule saying that the transaction either commits exactly that
  or leaves the tables as they were, with the errors that are possible, and the proof that the
  committed tables satisfy the invariant.
\<close>

section \<open>What the transactions commit\<close>

definition touch :: "inode \<Rightarrow> int \<Rightarrow> db \<Rightarrow> db" where
  "touch i now = map_node i (set_time_cols None (Some now) (Some now))"

definition add_nlink :: "inode \<Rightarrow> int \<Rightarrow> int \<Rightarrow> db \<Rightarrow> db" where
  "add_nlink i k now = map_node i (add_nlink_cols k now)"

definition new_entry :: "inode \<Rightarrow> string \<Rightarrow> node_cols \<Rightarrow> db \<Rightarrow> db" where
  "new_entry p n cols d = add_entry p n (next_inode d) (add_node (next_inode d) cols d)"

definition mkdir_db :: "inode \<Rightarrow> string \<Rightarrow> u32 \<Rightarrow> u32 \<Rightarrow> u32 \<Rightarrow> int \<Rightarrow> db \<Rightarrow> db" where
  "mkdir_db p n mode uid gid now d =
     touch p now (add_nlink p 1 now (new_entry p n (fresh_node Dir mode uid gid now) d))"

definition create_db :: "inode \<Rightarrow> string \<Rightarrow> u32 \<Rightarrow> u32 \<Rightarrow> u32 \<Rightarrow> int \<Rightarrow> db \<Rightarrow> db" where
  "create_db p n mode uid gid now d =
     touch p now (new_entry p n (fresh_node File (mode AND 0xFFF) uid gid now) d)"

definition symlink_db :: "byte list \<Rightarrow> inode \<Rightarrow> string \<Rightarrow> u32 \<Rightarrow> u32 \<Rightarrow> int \<Rightarrow> db \<Rightarrow> db" where
  "symlink_db target p n uid gid now d =
     touch p now (add_symlink (next_inode d) target (new_entry p n (fresh_node Symlink 0x1FF uid gid now) d))"

definition link_db :: "inode \<Rightarrow> string \<Rightarrow> inode \<Rightarrow> int \<Rightarrow> db \<Rightarrow> db" where
  "link_db p n i now d = touch p now (add_nlink i 1 now (add_entry p n i d))"

definition unlink_db :: "inode \<Rightarrow> string \<Rightarrow> inode \<Rightarrow> int \<Rightarrow> db \<Rightarrow> db" where
  "unlink_db p n i now d = touch p now (add_nlink i (- 1) now (del_entry p n d))"

definition rmdir_db :: "inode \<Rightarrow> string \<Rightarrow> inode \<Rightarrow> int \<Rightarrow> db \<Rightarrow> db" where
  "rmdir_db p n i now d = del_node i (touch p now (add_nlink p (- 1) now (del_entry p n d)))"

text \<open>An entry that is in the way of a rename, and the move.\<close>

definition replace_db :: "inode \<Rightarrow> inode \<Rightarrow> string \<Rightarrow> inode \<Rightarrow> node_cols \<Rightarrow> int \<Rightarrow> db \<Rightarrow> db" where
  "replace_db sp p n i cols now d =
     (let d1 = add_nlink i (- 1) now (del_entry p n d);
          d2 = (if n_kind cols = Dir \<and> sp \<noteq> p then add_nlink p (- 1) now d1 else d1)
      in if word_of_int (n_nlink cols - 1) = (0 :: u32) then del_node i d2 else d2)"

definition move_db :: "node_kind \<Rightarrow> inode \<Rightarrow> inode \<Rightarrow> string \<Rightarrow> inode \<Rightarrow> string \<Rightarrow> int \<Rightarrow> db \<Rightarrow> db" where
  "move_db k i sp sn p n now d =
     (let d1 = move_entry sp sn p n i d;
          d2 = (if k = Dir \<and> sp \<noteq> p then add_nlink p 1 now (add_nlink sp (- 1) now d1) else d1);
          d3 = touch sp now d2;
          d4 = (if sp \<noteq> p then touch p now d3 else d3)
      in map_node i (set_time_cols None None (Some now)) d4)"

section \<open>The rules\<close>

lemma nodes_at_new_entry [simp]:
  "node_of (new_entry p n cols d) = (node_of d)(next_inode d \<mapsto> cols)"
  "entry_of (new_entry p n cols d) = (entry_of d)(p := (entry_of d p)(n \<mapsto> next_inode d))"
  "t_entries (new_entry p n cols d) = t_entries (add_entry p n (next_inode d) d)"
  by (simp_all add: new_entry_def) (simp add: add_node_def add_entry_def)

lemma same_tables [simp]: "t_entries (add_node i n d) = t_entries d" "t_entries (map_node i f d) = t_entries d"
  by (simp_all add: effect_defs)

text \<open>Why a transaction that adds an entry may fail.\<close>

definition add_error :: "conn \<Rightarrow> inode \<Rightarrow> string \<Rightarrow> exn \<Rightarrow> bool" where
  "add_error c p n e \<longleftrightarrow>
     \<not> reliable c \<and> e = Fail (Sqlite IoFault)
     \<or> (2 ^ 63 - 1 \<le> t_seq (c_db c) \<or> 2 ^ 63 - 1 \<le> length (t_entries (c_db c))) \<and> e = Fail (Sqlite DatabaseFull)
     \<or> entry_of (c_db c) p n \<noteq> None \<and> e = Fail AlreadyExists"

definition room :: "db \<Rightarrow> bool" where
  "room d \<longleftrightarrow> t_seq d < 2 ^ 63 - 1 \<and> length (t_entries d) < 2 ^ 63 - 1"

lemmas tx_db_defs = mkdir_db_def create_db_def symlink_db_def link_db_def unlink_db_def rmdir_db_def
  touch_def add_nlink_def new_entry_def
lemmas wp_tx = wp_transaction wp_nodes_insert wp_entries_insert wp_entries_delete wp_symlinks_insert
  wp_change_nlink wp_update_times wp_update_size wp_nodes_delete

lemma wp_mkdir_tx [wp_rules]:
  assumes "node_of (c_db c) p \<noteq> None" and "node_of (c_db c) (next_inode (c_db c)) = None"
    and "\<And>t e. add_error c p n e \<Longrightarrow> E e (c\<lparr>c_tick := t\<rparr>)"
    and "\<And>t. entry_of (c_db c) p n = None \<Longrightarrow> room (c_db c)
      \<Longrightarrow> Q (next_inode (c_db c)) (c\<lparr>c_tick := t, c_db := mkdir_db p n m u g now (c_db c)\<rparr>)"
  shows "wp (transaction (mkdir_tx p n m u g now)) Q E c"
  unfolding mkdir_tx_def using assms
  by (auto simp: wp_eqs add_error_def room_def tx_db_defs intro!: wp_tx split: if_splits)

lemma wp_create_tx [wp_rules]:
  assumes "node_of (c_db c) p \<noteq> None" and "node_of (c_db c) (next_inode (c_db c)) = None"
    and "\<And>t e. add_error c p n e \<Longrightarrow> E e (c\<lparr>c_tick := t\<rparr>)"
    and "\<And>t. entry_of (c_db c) p n = None \<Longrightarrow> room (c_db c)
      \<Longrightarrow> Q (next_inode (c_db c)) (c\<lparr>c_tick := t, c_db := create_db p n m u g now (c_db c)\<rparr>)"
  shows "wp (transaction (create_tx p n m u g now)) Q E c"
  unfolding create_tx_def using assms
  by (auto simp: wp_eqs add_error_def room_def tx_db_defs intro!: wp_tx split: if_splits)

lemma wp_symlink_tx [wp_rules]:
  assumes "node_of (c_db c) p \<noteq> None" and "node_of (c_db c) (next_inode (c_db c)) = None"
    and "symlink_of (c_db c) (next_inode (c_db c)) = None"
    and "\<And>t e. add_error c p n e \<Longrightarrow> E e (c\<lparr>c_tick := t\<rparr>)"
    and "\<And>t. entry_of (c_db c) p n = None \<Longrightarrow> room (c_db c)
      \<Longrightarrow> Q (next_inode (c_db c)) (c\<lparr>c_tick := t, c_db := symlink_db x p n u g now (c_db c)\<rparr>)"
  shows "wp (transaction (symlink_tx x p n u g now)) Q E c"
  unfolding symlink_tx_def using assms
  by (auto simp: wp_eqs add_error_def room_def tx_db_defs intro!: wp_tx split: if_splits)

lemma wp_link_tx [wp_rules]:
  assumes "node_of (c_db c) p \<noteq> None" and "node_of (c_db c) i \<noteq> None"
    and "\<And>t e. add_error c p n e \<Longrightarrow> E e (c\<lparr>c_tick := t\<rparr>)"
    and "\<And>t. entry_of (c_db c) p n = None \<Longrightarrow> length (t_entries (c_db c)) < 2 ^ 63 - 1
      \<Longrightarrow> Q () (c\<lparr>c_tick := t, c_db := link_db p n i now (c_db c)\<rparr>)"
  shows "wp (transaction (link_tx p n i now)) Q E c"
  unfolding link_tx_def using assms
  by (auto simp: wp_eqs add_error_def tx_db_defs intro!: wp_tx)

lemma wp_unlink_tx [wp_rules]:
  assumes "node_of (c_db c) i = Some cols"
    and "\<And>t. \<not> reliable c \<Longrightarrow> E (Fail (Sqlite IoFault)) (c\<lparr>c_tick := t\<rparr>)"
    and "\<And>t. Q (word_of_int (n_nlink cols - 1)) (c\<lparr>c_tick := t, c_db := unlink_db p n i now (c_db c)\<rparr>)"
  shows "wp (transaction (unlink_tx p n i now)) Q E c"
  unfolding unlink_tx_def using assms
  by (auto simp: wp_eqs tx_db_defs intro!: wp_tx)

lemma referenced_del:
  assumes "wf_dirs d" and "has_kind d i Dir" and "wf_keys d" and "entry_of d p n = Some i"
  shows "\<not> referenced (del_entry p n d) i"
proof -
  have "entry_of (del_entry p n d) q m \<noteq> Some i" for q m
    using assms(1,2,4) by (auto simp: wf_dirs_def split: if_splits; metis)
  then show ?thesis using assms(3) by (simp add: referenced_iff wf_keys_effects)
qed

lemma referenced_same [simp]: "referenced (map_node j f d) i = referenced d i"
  by (simp add: referenced_def)

lemma wp_rmdir_tx [wp_rules]:
  assumes "node_of (c_db c) p \<noteq> None" and "has_kind (c_db c) i Dir" and "wf_dirs (c_db c)"
    and "wf_keys (c_db c)" and "entry_of (c_db c) p n = Some i"
    and "\<And>t. \<not> reliable c \<Longrightarrow> E (Fail (Sqlite IoFault)) (c\<lparr>c_tick := t\<rparr>)"
    and "\<And>t. Q () (c\<lparr>c_tick := t, c_db := rmdir_db p n i now (c_db c)\<rparr>)"
  shows "wp (transaction (rmdir_tx p n i now)) Q E c"
proof -
  have "node_of (c_db c) i \<noteq> None" using assms(2) by (auto elim: has_kindE)
  then show ?thesis
    unfolding rmdir_tx_def using assms(1,6,7) referenced_del[OF assms(3,2,4,5)]
    by (auto simp: wp_eqs tx_db_defs intro!: wp_tx split: if_splits)
qed

text \<open>Truncation to nothing needs only deletions, so a fault cannot go unnoticed.\<close>

lemma wp_truncate_zero:
  assumes cs: "cs \<noteq> 0" and osz: "unat sz < 2 ^ 63"
    and fit: "chunks_fit (c_db c) i (unat cs) (unat sz)"
    and E: "\<And>t d'. \<not> reliable c \<Longrightarrow> E (Fail (Sqlite IoFault)) (c\<lparr>c_tick := t, c_db := d'\<rparr>)"
    and Q: "\<And>t d'. range_truncated (c_db c) i (unat cs) 0 d' \<Longrightarrow> Q () (c\<lparr>c_tick := t, c_db := d'\<rparr>)"
  shows "wp (truncate_to i 0 sz cs) Q E c"
proof (cases "sz = 0")
  case True
  have "range_truncated (c_db c) i (unat cs) 0 (c_db c)"
    using fit chunks_fit_past_end[OF fit] unat_pos64[OF cs] True by (auto simp: range_truncated_def)
  then show ?thesis using True Q[of "c_db c" "c_tick c"] by (simp add: truncate_to_def wp_eqs)
next
  case False
  have C: "0 < unat cs" using cs by (rule unat_pos64)
  let ?d1 = "del_blobs i (\<lambda>k. sint (0 :: u64) < sint k) (c_db c)"
  have trunc: "range_truncated (c_db c) i (unat cs) 0 (del_blobs i (\<lambda>k. k = 0) ?d1)"
  proof (rule truncated_by_blobs[OF C osz fit])
    show "blobs_only (c_db c) (del_blobs i (\<lambda>k. k = 0) ?d1)"
      by (rule blobs_only_trans[OF blobs_only_effects(2) blobs_only_effects(2)])
    show "blob_of (del_blobs i (\<lambda>k. k = 0) ?d1) i k = None" if "0 div unat cs < unat k" "unat k < 2 ^ 63" for k
      using sint_less_unat64[of 0 k] that by simp
  qed (auto simp: fun_eq_iff unat_eq_zero)
  have not_le: "\<not> sz \<le> 0" using False by (simp add: word_le_nat_alt unat_eq_zero)
  show ?thesis
    unfolding truncate_to_def if_not_P[OF not_le] if_not_P[OF cs] Let_def wp_bindE
    using E[of "c_db c"] E[of ?d1] Q[OF trunc] by (auto intro!: wp_update_db)
qed

definition trunc_db :: "inode \<Rightarrow> u64 \<Rightarrow> int \<Rightarrow> db \<Rightarrow> db \<Rightarrow> bool" where
  "trunc_db i cs now d d' \<longleftrightarrow> (\<exists>d1. range_truncated d i (unat cs) 0 d1 \<and> d' = map_node i (set_size_cols 0 now now) d1)"

lemma trunc_dbI: "range_truncated d i (unat cs) 0 d1 \<Longrightarrow> trunc_db i cs now d (map_node i (set_size_cols 0 now now) d1)"
  by (auto simp: trunc_db_def)

lemma wp_open_trunc_tx:
  assumes "cs \<noteq> 0" and "unat sz < 2 ^ 63" and "chunks_fit (c_db c) i (unat cs) (unat sz)"
    and "\<And>t. \<not> reliable c \<Longrightarrow> E (Fail (Sqlite IoFault)) (c\<lparr>c_tick := t\<rparr>)"
    and "\<And>t d'. trunc_db i cs now (c_db c) d' \<Longrightarrow> Q () (c\<lparr>c_tick := t, c_db := d'\<rparr>)"
  shows "wp (transaction (open_trunc_tx i sz cs now)) Q E c"
  unfolding open_trunc_tx_def using assms(1-4)
  by (auto simp: wp_eqs intro!: wp_transaction wp_truncate_zero wp_update_size trunc_dbI assms(5))

definition write_db :: "inode \<Rightarrow> u64 \<Rightarrow> nat \<Rightarrow> byte list \<Rightarrow> u64 \<Rightarrow> int \<Rightarrow> db \<Rightarrow> db \<Rightarrow> bool" where
  "write_db i cs off data new_size now d d' \<longleftrightarrow>
     (\<exists>d1. range_written d i (unat cs) off data d1 \<and> d' = map_node i (set_size_cols new_size now now) d1)"

lemma write_dbI: "range_written d i (unat cs) off data d1
    \<Longrightarrow> write_db i cs off data sz now d (map_node i (set_size_cols sz now now) d1)"
  by (auto simp: write_db_def)

lemma wp_write_tx:
  assumes "cs \<noteq> 0" and "unat offset + length data \<le> 2 ^ 63" and "node_of (c_db c) i \<noteq> None"
    and "\<And>t. \<not> reliable c \<Longrightarrow> E (Fail (Sqlite IoFault)) (c\<lparr>c_tick := t\<rparr>)"
    and "\<And>t d' new_size. new_size = (if data = [] then sz else max sz (offset + of_nat (length data)))
      \<Longrightarrow> write_db i cs (unat offset) data new_size now (c_db c) d' \<Longrightarrow> Q new_size (c\<lparr>c_tick := t, c_db := d'\<rparr>)"
  shows "wp (transaction (write_tx i data offset sz cs now)) Q E c"
  unfolding write_tx_def using assms(1-4)
  by (auto simp: wp_eqs intro!: wp_transaction wp_write_range wp_update_size write_dbI assms(5))

section \<open>Rename\<close>

text \<open>What may be replaced by what: an empty directory by a directory, a file by a file.\<close>

definition replaceable :: "db \<Rightarrow> node_kind \<Rightarrow> inode \<Rightarrow> node_cols \<Rightarrow> bool" where
  "replaceable d k i cols \<longleftrightarrow> (k = Dir \<longleftrightarrow> n_kind cols = Dir) \<and> (k = Dir \<longrightarrow> (\<forall>n. entry_of d i n = None))"

definition replaced :: "inode \<Rightarrow> inode \<Rightarrow> string \<Rightarrow> inode \<Rightarrow> node_kind \<Rightarrow> int \<Rightarrow> db \<Rightarrow> db \<Rightarrow> bool" where
  "replaced sp p n i k now d d' \<longleftrightarrow> (\<exists>cols. node_of d i = Some cols \<and> replaceable d k i cols
     \<and> d' = replace_db sp p n i cols now d
     \<and> (word_of_int (n_nlink cols - 1) = (0 :: u32) \<longrightarrow> \<not> referenced (del_entry p n d) i))"

lemma wp_rename_allowed:
  assumes "wf_keys (c_db c)" and "node_of (c_db c) i = Some cols"
    and "\<And>t e. E (Fail e) (c\<lparr>c_tick := t\<rparr>)"
    and "\<And>t. replaceable (c_db c) k i cols \<Longrightarrow> Q () (c\<lparr>c_tick := t\<rparr>)"
  shows "wp (rename_allowed k (n_kind cols) i) Q E c"
proof (cases "k = Dir \<and> n_kind cols = Dir")
  case True
  then show ?thesis
    using assms(3,4) count_zero_iff[OF assms(1), of i] rows_under_Nil[OF assms(1), of i]
    by (auto simp: wp_eqs replaceable_def intro!: wp_entries_count_all)
next
  case False
  then show ?thesis
    using assms(3)[of _ "c_tick c"] assms(4)[of "c_tick c"]
    by (cases k; cases "n_kind cols") (auto simp: wp_eqs replaceable_def)
qed

lemma wp_replace_dst:
  assumes t: "tree (c_db c)" and e: "entry_of (c_db c) p n = Some i" and p: "has_kind (c_db c) p Dir"
    and E: "\<And>t e d'. E (Fail e) (c\<lparr>c_tick := t, c_db := d'\<rparr>)"
    and Q: "\<And>t d'. replaced sp p n i k now (c_db c) d' \<Longrightarrow> Q () (c\<lparr>c_tick := t, c_db := d'\<rparr>)"
  shows "wp (replace_dst k sp p n i now) Q E c"
proof -
  let ?d = "c_db c"
  note keys = tree_keys[OF t]
  obtain cols where cols: "node_of ?d i = Some cols" using tree_entryD[OF t e] by auto
  obtain pc where pc: "node_of ?d p = Some pc" using p by (auto elim: has_kindE)
  have E': "E (Fail e) (c\<lparr>c_tick := t\<rparr>)" for t e using E[of e ?d t] by simp
  have rest: "wp (entries_delete p n) (\<lambda>_. wp (change_nlink i (- 1) now)
       (\<lambda>new_nlink. wp (if n_kind cols = Dir \<and> sp \<noteq> p then bindE (change_nlink p (- 1) now) (\<lambda>_. ret ()) else ret ())
          (\<lambda>_. wp (if new_nlink = 0 then nodes_delete i else ret ()) Q E) E) E) E (c\<lparr>c_tick := t\<rparr>)"
    if r: "replaceable ?d k i cols" for t
  proof -
    have pi: "p \<noteq> i" by (rule no_self_entry[OF t e])
    have "replaced sp p n i k now ?d (replace_db sp p n i cols now ?d)"
      if "word_of_int (n_nlink cols - 1) = (0 :: u32) \<longrightarrow> \<not> referenced (del_entry p n ?d) i"
      using cols r that unfolding replaced_def by blast
    note Q = Q[OF this]
    show ?thesis
    proof (cases "word_of_int (n_nlink cols - 1) = (0 :: u32)")
      case True
      then show ?thesis using E E' Q cols pc pi
        by (auto simp: wp_eqs replace_db_def add_nlink_def Let_def intro!: wp_tx)
    next
      case False
      then show ?thesis using E E' Q cols pc pi
        by (auto simp: wp_eqs replace_db_def add_nlink_def Let_def intro!: wp_tx)
    qed
  qed
  show ?thesis
    unfolding replace_dst_def wp_bindE
  proof (rule wp_nodes_get)
    fix t n' assume n': "node_of ?d i = Some n'"
    show "wp (rename_allowed k (nr_kind (node_row i n')) i) (\<lambda>_. wp (entries_delete p n)
         (\<lambda>_. wp (change_nlink i (- 1) now) (\<lambda>new_nlink. wp (if nr_kind (node_row i n') = Dir \<and> sp \<noteq> p
            then bindE (change_nlink p (- 1) now) (\<lambda>_. ret ()) else ret ())
          (\<lambda>_. wp (if new_nlink = 0 then nodes_delete i else ret ()) Q E) E) E) E) E (c\<lparr>c_tick := t\<rparr>)"
      unfolding node_row_simps
      by (rule wp_rename_allowed) (use keys n' cols E' rest in auto)
  qed (use cols E' in auto)
qed

lemma wp_move_src:
  assumes "entry_of (c_db c) sp sn = Some i" and "node_of (c_db c) sp \<noteq> None" and "node_of (c_db c) p \<noteq> None"
    and E: "\<And>t e d'. E (Fail e) (c\<lparr>c_tick := t, c_db := d'\<rparr>)"
    and Q: "\<And>t. (p, n) = (sp, sn) \<or> entry_of (c_db c) p n = None
      \<Longrightarrow> Q () (c\<lparr>c_tick := t, c_db := move_db k i sp sn p n now (c_db c)\<rparr>)"
  shows "wp (move_src k i sp sn p n now) Q E c"
proof -
  have E': "E (Fail e) (c\<lparr>c_tick := t\<rparr>)" for t e using E[of e "c_db c" t] by simp
  have move: "node_of (move_entry sp sn p n j d) = node_of d" for j d by (simp add: move_entry_def)
  show ?thesis
    unfolding move_src_def
    by (cases "sp = p"; cases "k = Dir")
      (use assms(1-3) E E' Q in \<open>auto simp: wp_eqs move_db_def add_nlink_def touch_def Let_def move
         intro!: wp_tx wp_entries_rename\<close>)
qed

text \<open>The tables after a rename that moves something: the entry in the way replaced, then the move.\<close>

definition renamed :: "node_kind \<Rightarrow> inode \<Rightarrow> inode \<Rightarrow> string \<Rightarrow> inode \<Rightarrow> string \<Rightarrow> int \<Rightarrow> db \<Rightarrow> db \<Rightarrow> bool" where
  "renamed k i sp sn p n now d d' \<longleftrightarrow>
     (if entry_of d p n = None \<or> (p, n) = (sp, sn) then d' = move_db k i sp sn p n now d
      else \<exists>j d1. entry_of d p n = Some j \<and> j \<noteq> i \<and> replaced sp p n j k now d d1
        \<and> d' = move_db k i sp sn p n now d1)"

lemma kind_at_replace_db:
  "j \<noteq> q \<Longrightarrow> map_option n_kind (node_of (replace_db sp p n j cols now d) q) = map_option n_kind (node_of d q)"
  by (simp add: replace_db_def Let_def add_nlink_def option.map_comp o_def)

lemma entry_at_replace_db:
  "j \<noteq> q \<Longrightarrow> entry_of (replace_db sp p n j cols now d) q m = (if (q, m) = (p, n) then None else entry_of d q m)"
  by (simp add: replace_db_def Let_def add_nlink_def)

lemma has_kind_map: "has_kind d q x \<longleftrightarrow> map_option n_kind (node_of d q) = Some x"
  by (auto simp: has_kind_def split: option.split)

lemma replace_db_lookup:
  assumes "replaced sp p n j k now d d'" and "j \<noteq> q"
  shows "node_of d' q \<noteq> None \<longleftrightarrow> node_of d q \<noteq> None" "has_kind d' q x \<longleftrightarrow> has_kind d q x"
    "entry_of d' q m = (if (q, m) = (p, n) then None else entry_of d q m)"
proof -
  obtain cols where d': "d' = replace_db sp p n j cols now d" using assms(1) by (auto simp: replaced_def)
  have kind: "map_option n_kind (node_of d' q) = map_option n_kind (node_of d q)"
    unfolding d' by (rule kind_at_replace_db[OF assms(2)])
  then show "node_of d' q \<noteq> None \<longleftrightarrow> node_of d q \<noteq> None" by (metis option.map_disc_iff)
  show "has_kind d' q x \<longleftrightarrow> has_kind d q x" using kind by (simp add: has_kind_map)
  show "entry_of d' q m = (if (q, m) = (p, n) then None else entry_of d q m)"
    unfolding d' by (rule entry_at_replace_db[OF assms(2)])
qed

text \<open>What is replaced is not the directory the moved name is in: it has no names.\<close>

lemma replaced_apart:
  assumes t: "tree d" and src: "entry_of d sp sn = Some i" and j: "entry_of d p n = Some j" and r: "replaced sp p n j k now d d1"
  shows "j \<noteq> sp" and "j \<noteq> p"
proof
  assume eq: "j = sp"
  then have "has_kind d j Dir" using tree_entryD[OF t src] by simp
  then have "\<forall>m. entry_of d j m = None" using r by (auto simp: replaced_def replaceable_def has_kind_def)
  then show False using src eq by simp
next
  show "j \<noteq> p" using no_self_entry[OF t j] by simp
qed

lemma wp_replace_then_move:
  assumes t: "tree (c_db c)" and src: "entry_of (c_db c) sp sn = Some i" and p: "has_kind (c_db c) p Dir"
    and j: "entry_of (c_db c) p n = Some j" and ne: "j \<noteq> i"
    and E: "\<And>t e d'. E (Fail e) (c\<lparr>c_tick := t, c_db := d'\<rparr>)"
    and Q: "\<And>t d'. renamed k i sp sn p n now (c_db c) d' \<Longrightarrow> Q () (c\<lparr>c_tick := t, c_db := d'\<rparr>)"
  shows "wp (replace_dst k sp p n j now) (\<lambda>_. wp (move_src k i sp sn p n now) Q E) E c"
proof (rule wp_replace_dst)
  fix t' d1 assume r: "replaced sp p n j k now (c_db c) d1"
  have psp: "(p, n) \<noteq> (sp, sn)" using j src ne by auto
  have sp: "node_of (c_db c) sp \<noteq> None" and pn: "node_of (c_db c) p \<noteq> None"
    using tree_entryD[OF t src] p by (auto elim: has_kindE)
  note apart = replaced_apart[OF t src j r] and look = replace_db_lookup[OF r]
  show "wp (move_src k i sp sn p n now) Q E (c\<lparr>c_tick := t', c_db := d1\<rparr>)"
  proof (rule wp_move_src)
    fix t''
    have "renamed k i sp sn p n now (c_db c) (move_db k i sp sn p n now d1)"
      using j ne r psp unfolding renamed_def by auto
    from Q[OF this] show "Q () (c\<lparr>c_tick := t', c_db := d1, c_tick := t'',
        c_db := move_db k i sp sn p n now (c_db (c\<lparr>c_tick := t', c_db := d1\<rparr>))\<rparr>)" by simp
  qed (use look(1)[OF apart(1)] look(1)[OF apart(2)] look(3)[OF apart(1)] src sp pn psp E in auto)
qed (use t j p E in auto)

lemma wp_rename_tx:
  assumes t: "tree (c_db c)" and src: "entry_of (c_db c) sp sn = Some i" and k: "has_kind (c_db c) i k"
    and p: "has_kind (c_db c) p Dir"
    and ex: "case existing of None \<Rightarrow> True | Some e \<Rightarrow> entry_of (c_db c) p n = Some (er_inode e)"
    and E: "\<And>t e. E (Fail e) (c\<lparr>c_tick := t\<rparr>)"
    and same: "\<And>t. entry_of (c_db c) p n = Some i \<Longrightarrow> Q False (c\<lparr>c_tick := t\<rparr>)"
    and moved: "\<And>t d'. renamed k i sp sn p n now (c_db c) d' \<Longrightarrow> Q True (c\<lparr>c_tick := t, c_db := d'\<rparr>)"
  shows "wp (transaction (rename_tx k i sp sn p n existing now)) Q E c"
proof (rule wp_transaction)
  fix t
  let ?c = "c\<lparr>c_tick := t\<rparr>" and ?d = "c_db c"
  let ?Q = "\<lambda>x c'. (\<forall>t. Q x (c'\<lparr>c_tick := t\<rparr>)) \<and> (\<not> reliable c' \<longrightarrow>
      (\<forall>t. E (Fail (Sqlite IoFault)) (c'\<lparr>c_tick := t, c_db := c_db c\<rparr>)))"
  let ?E = "\<lambda>e c'. E e (c'\<lparr>c_db := c_db c\<rparr>)"
  have sp: "node_of ?d sp \<noteq> None" and pn: "node_of ?d p \<noteq> None" using tree_entryD[OF t src] p by (auto elim: has_kindE)
  show "wp (rename_tx k i sp sn p n existing now) ?Q ?E ?c"
  proof (cases existing)
    case None
    have "wp (move_src k i sp sn p n now) (\<lambda>_. ?Q True) ?E ?c"
    proof (rule wp_move_src)
      fix t' assume "(p, n) = (sp, sn) \<or> entry_of (c_db ?c) p n = None"
      then have "renamed k i sp sn p n now ?d (move_db k i sp sn p n now ?d)" by (auto simp: renamed_def)
      from moved[OF this] E
      show "?Q True (c\<lparr>c_tick := t, c_tick := t', c_db := move_db k i sp sn p n now (c_db ?c)\<rparr>)" by simp
    qed (use src sp pn E in auto)
    then show ?thesis unfolding None rename_tx_def by (simp add: wp_eqs)
  next
    case (Some e)
    let ?j = "er_inode e"
    have j: "entry_of ?d p n = Some ?j" using ex Some by simp
    show ?thesis
    proof (cases "?j = i")
      case True
      then show ?thesis unfolding Some rename_tx_def using same[of _] j E by (auto simp: wp_eqs)
    next
      case ne: False
      have "wp (replace_dst k sp p n ?j now) (\<lambda>_. wp (move_src k i sp sn p n now) (\<lambda>_. ?Q True) ?E) ?E ?c"
        by (rule wp_replace_then_move) (use t src p j ne E moved in auto)
      then show ?thesis unfolding Some rename_tx_def using ne by (simp add: wp_eqs)
    qed
  qed
qed (rule E)

lemma tree_unique_parent: "tree d \<Longrightarrow> has_kind d j Dir \<Longrightarrow> unique_parent d j"
  using edges_iff[OF tree_keys, of d] by (auto simp: unique_parent_def tree_def wf_dirs_def)

lemma wp_rename_ancestry:
  assumes "tree (c_db c)" and "has_kind (c_db c) p Dir"
    and "\<And>t e. E (Fail e) (c\<lparr>c_tick := t\<rparr>)"
    and "\<And>t. (k = Dir \<Longrightarrow> (i, p) \<notin> (edges (c_db c))\<^sup>*) \<Longrightarrow> Q () (c\<lparr>c_tick := t\<rparr>)"
  shows "wp (rename_ancestry k i p) Q E c"
proof (cases "k = Dir")
  case True
  have up: "unique_parent (c_db c) j" if "\<exists>m. (j, m) \<in> edges (c_db c)" for j
  proof -
    have "has_kind (c_db c) j Dir" using that edges_iff[OF tree_keys[OF assms(1)]] tree_entryD[OF assms(1)] by blast
    then show ?thesis by (rule tree_unique_parent[OF assms(1)])
  qed
  have "wp (ancestry p) (\<lambda>ps. wp (require (i \<notin> set ps) InvalidArgument) Q E) E c" if ne: "i \<noteq> p"
  proof (rule wp_ancestry)
    fix t ps assume "parent_chain (c_db c) p ps"
    then have "set ps = {a. (a, p) \<in> (edges (c_db c))\<^sup>+}"
      using up tree_unique_parent[OF assms(1,2)] by (rule parent_chain_ancestors)
    then have "i \<notin> set ps \<Longrightarrow> (i, p) \<notin> (edges (c_db c))\<^sup>*" using ne by (auto simp: rtrancl_eq_or_trancl)
    then show "wp (require (i \<notin> set ps) InvalidArgument) Q E (c\<lparr>c_tick := t\<rparr>)"
      using assms(3,4) by (auto simp: wp_eqs)
  qed (use assms in \<open>auto simp: tree_def\<close>)
  then show ?thesis using True assms(3)[of _ "c_tick c"] by (simp add: rename_ancestry_def wp_eqs)
next
  case False
  then show ?thesis using assms(4)[of "c_tick c"] by (simp add: rename_ancestry_def wp_eqs)
qed

end
