(* ===== verification/Fs_Wf.thy ===== *)
theory Fs_Wf
  imports Fs_Tx
begin

text \<open>
  The invariant of the database is kept: every database that a transaction of \<open>fs.rs\<close> commits
  satisfies \<open>wf_db\<close> when the one before did.
\<close>

section \<open>Updates of one node\<close>

lemma fits_same_blobs: "blob_of d' i = blob_of d i \<Longrightarrow> chunks_fit d' i C sz \<longleftrightarrow> chunks_fit d i C sz"
  by (simp add: chunks_fit_def)

lemma wf_db_map_node:
  assumes "wf_db cs d" and "\<And>n. n_kind (f n) = n_kind n" and "\<And>n. n_size (f n) = n_size n"
    and "has_kind d i Dir \<or> (\<forall>n. n_nlink (f n) = n_nlink n)"
  shows "wf_db cs (map_node i f d)"
  unfolding wf_db_def
proof (intro conjI)
  show "tree (map_node i f d)" using assms(1,2) by (simp add: wf_db_def tree_map_node)
  show "wf_links (map_node i f d)"
    using assms(1,2,4) by (fastforce simp: wf_db_def wf_links_def has_kind_def)
  show "wf_symlinks (map_node i f d)" using assms(1,2) by (simp add: wf_db_def wf_symlinks_def)
  show "wf_extents cs (map_node i f d)"
    using assms(1,3) by (fastforce simp: wf_db_def wf_extents_def fits_same_blobs[of "map_node i f d" _ d])
qed

lemma wf_db_touch: "wf_db cs d \<Longrightarrow> wf_db cs (touch i now d)"
  unfolding touch_def by (rule wf_db_map_node) auto

lemma wf_db_dir_nlink: "wf_db cs d \<Longrightarrow> has_kind d i Dir \<Longrightarrow> wf_db cs (add_nlink i k now d)"
  unfolding add_nlink_def by (rule wf_db_map_node) auto

section \<open>New nodes and new entries\<close>

lemma fresh_has_nothing:
  assumes "wf_db cs d" and "node_of d i = None"
  shows "blob_of d i k = None" "xattr_of d i a = None" "symlink_of d i = None" "entry_count d i = 0"
proof -
  have t: "tree d" using assms(1) by (simp add: wf_db_def)
  then show "blob_of d i k = None" "xattr_of d i a = None" "symlink_of d i = None"
    using assms(2) unfolding tree_def wf_refs_def by blast+
  show "entry_count d i = 0" using unlinked_no_entry[OF t assms(2)] by (simp add: entry_count_0 tree_keys[OF t])
qed

lemma new_entry_parts:
  assumes "wf_db cs d" and "room d" and "has_kind d p Dir" and "entry_of d p n = None" and "valid_component n"
    and "n_size cols = 0" and "n_kind cols \<noteq> Dir \<longrightarrow> n_nlink cols = 1"
  shows "tree (new_entry p n cols d)" "wf_links (new_entry p n cols d)" "wf_extents cs (new_entry p n cols d)"
    "symlink_of (new_entry p n cols d) = symlink_of d"
    "has_kind (new_entry p n cols d) j k = (if j = next_inode d then n_kind cols = k else has_kind d j k)"
proof -
  let ?i = "next_inode d" and ?d1 = "add_node (next_inode d) cols d"
  have t: "tree d" and seq: "t_seq d < 2 ^ 63 - 1" and len: "length (t_entries d) < 2 ^ 63 - 1"
    using assms(1,2) by (simp_all add: wf_db_def room_def)
  note fresh = next_inode_fresh[OF t seq]
  note none = fresh_has_nothing[OF assms(1) fresh(2)]
  have t1: "tree ?d1" by (rule tree_add_node[OF t seq])
  have pi: "?i \<noteq> p" using assms(3) fresh(2) by (auto simp: has_kind_def)
  show "tree (new_entry p n cols d)"
    unfolding new_entry_def
  proof (rule tree_add_entry[OF t1])
    show "has_kind ?d1 p Dir" using assms(3) pi by simp
    show "\<forall>q m. entry_of ?d1 q m \<noteq> Some ?i" using unlinked_no_entry[OF t fresh(2)] by simp
    show "(?i, p) \<notin> (edges ?d1)\<^sup>*"
      using not_above[OF t1 _ pi] unlinked_no_children[OF t fresh(2)] by simp
  qed (use assms(4,5) fresh(3) len in auto)
  have e1: "entry_of ?d1 p n = None" using assms(4) by simp
  show "wf_links (new_entry p n cols d)"
    using assms(1,7) none(4)
    by (auto simp: wf_db_def wf_links_def new_entry_def entry_count_add[OF e1])
  show "wf_extents cs (new_entry p n cols d)"
    using assms(1,6) none(1) by (auto simp: wf_db_def wf_extents_def new_entry_def chunks_fit_def)
  show "symlink_of (new_entry p n cols d) = symlink_of d" by (simp add: new_entry_def)
  show "has_kind (new_entry p n cols d) j k = (if j = ?i then n_kind cols = k else has_kind d j k)"
    by (simp add: new_entry_def)
qed

lemma wf_db_new_entry:
  assumes "wf_db cs d" and "room d" and "has_kind d p Dir" and "entry_of d p n = None" and "valid_component n"
    and "n_size cols = 0" and "n_kind cols \<noteq> Dir \<longrightarrow> n_nlink cols = 1" and "n_kind cols \<noteq> Symlink"
  shows "wf_db cs (new_entry p n cols d)"
proof -
  note parts = new_entry_parts[OF assms(1-7)]
  have t: "tree d" and "t_seq d < 2 ^ 63 - 1" using assms(1,2) by (simp_all add: wf_db_def room_def)
  note fresh = next_inode_fresh[OF this]
  have "\<not> has_kind d (next_inode d) Symlink" using fresh(2) by (simp add: has_kind_def)
  then have "wf_symlinks (new_entry p n cols d)"
    using assms(1,8) parts(4) fresh_has_nothing(3)[OF assms(1) fresh(2)]
    unfolding wf_db_def wf_symlinks_def by (simp add: parts(5))
  then show ?thesis using parts(1-3) by (simp add: wf_db_def)
qed

lemma wf_mkdir:
  assumes "wf_db cs d" and "room d" and "has_kind d p Dir" and "entry_of d p n = None" and "valid_component n"
  shows "wf_db cs (mkdir_db p n m u g now d)"
proof -
  have p: "p \<noteq> next_inode d"
    using assms(1-3) next_inode_fresh(2)[of d] by (auto simp: wf_db_def room_def has_kind_def)
  show ?thesis
    unfolding mkdir_db_def
    by (intro wf_db_touch wf_db_dir_nlink wf_db_new_entry)
      (use assms p in \<open>auto simp: has_kind_map fun_upd_apply\<close>)
qed

lemma wf_create:
  assumes "wf_db cs d" and "room d" and "has_kind d p Dir" and "entry_of d p n = None" and "valid_component n"
  shows "wf_db cs (create_db p n m u g now d)"
  unfolding create_db_def by (intro wf_db_touch wf_db_new_entry) (use assms in auto)

lemma wf_symlink:
  assumes "wf_db cs d" and "room d" and "has_kind d p Dir" and "entry_of d p n = None" and "valid_component n"
  shows "wf_db cs (symlink_db x p n u g now d)"
proof -
  let ?cols = "fresh_node Symlink 0x1FF u g now"
  have parts: "tree (new_entry p n ?cols d)" "wf_links (new_entry p n ?cols d)"
      "wf_extents cs (new_entry p n ?cols d)" "symlink_of (new_entry p n ?cols d) = symlink_of d"
      "has_kind (new_entry p n ?cols d) j k = (if j = next_inode d then n_kind ?cols = k else has_kind d j k)" for j k
    by (rule new_entry_parts[OF assms]; simp)+
  let ?d = "add_symlink (next_inode d) x (new_entry p n ?cols d)"
  have "tree ?d" by (rule tree_add_symlink[OF parts(1)]) simp
  moreover have "wf_links ?d" using parts(2) by (simp add: wf_links_def)
  moreover have "wf_extents cs ?d" using parts(3) by (simp add: wf_extents_def chunks_fit_def)
  moreover have "wf_symlinks ?d"
    using assms(1) parts(4) unfolding wf_db_def wf_symlinks_def by (simp add: parts(5))
  ultimately show ?thesis unfolding symlink_db_def by (intro wf_db_touch) (simp add: wf_db_def)
qed

section \<open>Links\<close>

lemma wf_link:
  assumes "wf_db cs d" and "length (t_entries d) < 2 ^ 63 - 1" and "has_kind d p Dir" and "entry_of d p n = None"
    and "valid_component n" and "node_of d i \<noteq> None" and "\<not> has_kind d i Dir"
  shows "wf_db cs (link_db p n i now d)"
proof -
  have t: "tree d" using assms(1) by (simp add: wf_db_def)
  let ?d = "add_nlink i 1 now (add_entry p n i d)"
  have root: "i \<noteq> ROOT_INODE" using assms(7) t by (auto simp: tree_def wf_root_def)
  have pi: "i \<noteq> p" using assms(3,7) by auto
  have "tree (add_entry p n i d)"
    by (rule tree_add_entry[OF t]) (use assms root not_above[OF t file_no_children[OF t assms(7)] pi] in auto)
  then have "tree ?d" unfolding add_nlink_def by (rule tree_map_node) simp
  moreover have "wf_links ?d"
    using assms(1) by (auto simp: wf_db_def wf_links_def add_nlink_def entry_count_add[OF assms(4)])
  moreover have "wf_symlinks ?d" using assms(1) by (simp add: wf_db_def wf_symlinks_def add_nlink_def)
  moreover have "wf_extents cs ?d"
    using assms(1) by (fastforce simp: wf_db_def wf_extents_def add_nlink_def chunks_fit_def)
  ultimately show ?thesis unfolding link_db_def by (intro wf_db_touch) (simp add: wf_db_def)
qed

lemma unlink_parts:
  assumes "wf_db cs d" and "entry_of d p n = Some i"
  shows "tree (add_nlink i (- 1) now (del_entry p n d))"
    "wf_links (add_nlink i (- 1) now (del_entry p n d))" "wf_symlinks (add_nlink i (- 1) now (del_entry p n d))"
    "wf_extents cs (add_nlink i (- 1) now (del_entry p n d))"
proof -
  have t: "tree d" using assms(1) by (simp add: wf_db_def)
  show "tree (add_nlink i (- 1) now (del_entry p n d))"
    unfolding add_nlink_def by (rule tree_map_node[OF tree_del_entry[OF t]]) simp
  have "entry_count (del_entry p n d) j = entry_count d j - (if i = j then 1 else 0)"
    and "i = j \<Longrightarrow> 0 < entry_count d j" for j
    using entry_count_del[OF tree_keys[OF t] assms(2), of j] by auto
  then show "wf_links (add_nlink i (- 1) now (del_entry p n d))"
    using assms(1) by (auto simp: wf_db_def wf_links_def add_nlink_def of_nat_diff Suc_le_eq)
  show "wf_symlinks (add_nlink i (- 1) now (del_entry p n d))"
    using assms(1) by (simp add: wf_db_def wf_symlinks_def add_nlink_def)
  show "wf_extents cs (add_nlink i (- 1) now (del_entry p n d))"
    using assms(1) by (fastforce simp: wf_db_def wf_extents_def add_nlink_def chunks_fit_def)
qed

lemma wf_unlink: "wf_db cs d \<Longrightarrow> entry_of d p n = Some i \<Longrightarrow> wf_db cs (unlink_db p n i now d)"
  unfolding unlink_db_def by (intro wf_db_touch) (unfold wf_db_def[of cs "add_nlink _ _ _ _"], intro conjI unlink_parts)

lemma wf_del_node:
  assumes "wf_db cs d" and "\<And>n. entry_of d i n = None" and "\<And>p n. entry_of d p n \<noteq> Some i" and "i \<noteq> ROOT_INODE"
  shows "wf_db cs (del_node i d)"
proof -
  have t: "tree d" using assms(1) by (simp add: wf_db_def)
  have "tree (del_node i d)" by (rule tree_del_node[OF t assms(2-4)])
  moreover have "wf_links (del_node i d)"
    using assms(1) entry_count_del_node[OF tree_keys[OF t] assms(2)] by (auto simp: wf_db_def wf_links_def)
  moreover have "wf_symlinks (del_node i d)" using assms(1) by (auto simp: wf_db_def wf_symlinks_def)
  moreover have "wf_extents cs (del_node i d)"
    using assms(1) by (auto simp: wf_db_def wf_extents_def chunks_fit_def split: if_splits)
  ultimately show ?thesis by (simp add: wf_db_def)
qed

text \<open>\<open>nodes::delete\<close> as \<open>unlink\<close> and \<open>close_fd\<close> use it: on a node that is no directory and not referenced.\<close>

lemma wf_delete_unreferenced:
  assumes "wf_db cs d" and "\<not> referenced d i" and "\<not> has_kind d i Dir"
  shows "wf_db cs (del_node i d)"
proof (rule wf_del_node[OF assms(1)])
  have t: "tree d" using assms(1) by (simp add: wf_db_def)
  show "entry_of d i n = None" for n by (rule file_no_children[OF t assms(3)])
  show "entry_of d p n \<noteq> Some i" for p n
    using assms(2) no_self_entry[OF t] by (auto simp: referenced_iff tree_keys[OF t])
  show "i \<noteq> ROOT_INODE" using assms(3) t by (auto simp: tree_def wf_root_def)
qed

lemma wf_rmdir:
  assumes "wf_db cs d" and "entry_of d p n = Some i" and "has_kind d i Dir" and "\<And>m. entry_of d i m = None"
  shows "wf_db cs (rmdir_db p n i now d)"
proof -
  have t: "tree d" using assms(1) by (simp add: wf_db_def)
  have p: "has_kind d p Dir" using tree_entryD[OF t assms(2)] by simp
  have "wf_db cs (del_entry p n d)"
    unfolding wf_db_def
  proof (intro conjI)
    show "tree (del_entry p n d)" by (rule tree_del_entry[OF t])
    show "wf_links (del_entry p n d)"
      using assms(1,3) entry_count_del[OF tree_keys[OF t] assms(2)]
      by (auto simp: wf_db_def wf_links_def has_kind_def split: option.splits if_splits)
    show "wf_symlinks (del_entry p n d)" using assms(1) by (simp add: wf_db_def wf_symlinks_def)
    show "wf_extents cs (del_entry p n d)" using assms(1) by (simp add: wf_db_def wf_extents_def chunks_fit_def)
  qed
  then have "wf_db cs (touch p now (add_nlink p (- 1) now (del_entry p n d)))"
    by (intro wf_db_touch wf_db_dir_nlink) (use p in auto)
  then show ?thesis
    unfolding rmdir_db_def
  proof (rule wf_del_node)
    show "entry_of (touch p now (add_nlink p (- 1) now (del_entry p n d))) i m = None" for m
      using assms(4)[of m] by (auto simp: touch_def add_nlink_def)
    show "entry_of (touch p now (add_nlink p (- 1) now (del_entry p n d))) q m \<noteq> Some i" for q m
    proof -
      have "entry_of d q m = Some i \<Longrightarrow> q = p \<and> m = n"
        using t assms(2,3) unfolding tree_def wf_dirs_def by blast
      then show ?thesis by (auto simp: touch_def add_nlink_def)
    qed
    show "i \<noteq> ROOT_INODE" using assms(2) t by (auto simp: tree_def wf_root_def)
  qed
qed

section \<open>Rename\<close>

lemma replaced_parts:
  assumes "wf_db cs d" and "entry_of d p n = Some j" and "replaced sp p n j k now d d'"
  shows "wf_db cs d'" "edges d' \<subseteq> edges d"
proof -
  have t: "tree d" using assms(1) by (simp add: wf_db_def)
  obtain cols where cols: "node_of d j = Some cols" and ok: "replaceable d k j cols"
    and d': "d' = replace_db sp p n j cols now d"
    and ref: "word_of_int (n_nlink cols - 1) = (0 :: u32) \<longrightarrow> \<not> referenced (del_entry p n d) j"
    using assms(3) by (auto simp: replaced_def)
  let ?d1 = "add_nlink j (- 1) now (del_entry p n d)"
  let ?d2 = "if n_kind cols = Dir \<and> sp \<noteq> p then add_nlink p (- 1) now ?d1 else ?d1"
  have p: "has_kind d p Dir" using tree_entryD[OF t assms(2)] by simp
  have w1: "wf_db cs ?d1" unfolding wf_db_def by (intro conjI unlink_parts[OF assms(1,2)])
  have w2: "wf_db cs ?d2"
    using wf_db_dir_nlink[OF w1, of p] w1 p by (simp add: add_nlink_def)
  have e2: "entry_of ?d2 = entry_of (del_entry p n d)" "t_entries ?d2 = t_entries (del_entry p n d)"
    by (simp_all add: add_nlink_def)
  have keys1: "wf_keys (del_entry p n d)" using tree_keys[OF t] by (rule wf_keys_effects)
  have gone: "wf_db cs (del_node j ?d2)" if "word_of_int (n_nlink cols - 1) = (0 :: u32)"
  proof (rule wf_del_node[OF w2])
    have no_child: "entry_of d j m = None" for m
      using ok cols file_no_children[OF t, of j] by (cases "n_kind cols = Dir") (auto simp: replaceable_def has_kind_def)
    show "entry_of ?d2 j m = None" for m using no_child[of m] unfolding e2 by auto
    have "\<not> referenced (del_entry p n d) j" using ref that by simp
    then have "entry_of (del_entry p n d) q m \<noteq> Some j" if "q \<noteq> j" for q m
      using that referenced_iff[OF keys1] by blast
    moreover have "entry_of (del_entry p n d) j m \<noteq> Some j" for m using no_child[of m] by auto
    ultimately show "entry_of ?d2 q m \<noteq> Some j" for q m unfolding e2 by (cases "q = j") auto
    show "j \<noteq> ROOT_INODE" using assms(2) t by (auto simp: tree_def wf_root_def)
  qed
  have d'_eq: "d' = (if word_of_int (n_nlink cols - 1) = (0 :: u32) then del_node j ?d2 else ?d2)"
    by (simp add: d' replace_db_def Let_def)
  then show "wf_db cs d'" using gone w2 by simp
  have "edges ?d2 = edges (del_entry p n d)" by (rule edges_cong[OF e2(2)])
  moreover have "edges (del_node j ?d2) \<subseteq> edges ?d2" by (auto simp: edges_def del_node_def)
  ultimately show "edges d' \<subseteq> edges d" using d'_eq edges_del_entry_sub[of p n d] by auto
qed

lemma move_parts:
  assumes "wf_db cs d" and src: "entry_of d sp sn = Some i" and p: "has_kind d p Dir" and v: "valid_component n"
    and free: "(p, n) = (sp, sn) \<or> entry_of d p n = None" and acyc: "(i, p) \<notin> (edges d)\<^sup>*"
  shows "wf_db cs (move_entry sp sn p n i d)"
proof -
  have t: "tree d" using assms(1) by (simp add: wf_db_def)
  let ?d1 = "del_entry sp sn d"
  have t1: "tree ?d1" by (rule tree_del_entry[OF t])
  have len: "length (t_entries ?d1) < 2 ^ 63 - 1"
  proof -
    have k: "keyed (t_entries d)" and row: "map_of (t_entries d) (sp, sn) = Some i"
      using src tree_keys[OF t] by (simp_all add: wf_keys_def entry_of_def)
    have "length (t_entries d) = Suc (length (AList.delete (sp, sn) (t_entries d)))"
      using count_rows_delete[OF k row, of "\<lambda>_ _. True"] by (simp add: count_rows_def split_def)
    then have "Suc (length (t_entries ?d1)) = length (t_entries d)" by (simp add: del_entry_def)
    then show ?thesis using tree_keys[OF t] by (simp add: wf_keys_def)
  qed
  have free1: "entry_of ?d1 p n = None" using free by auto
  have up: "(i, p) \<notin> (edges ?d1)\<^sup>*" using acyc rtrancl_mono[OF edges_del_entry_sub] by blast
  have only: "entry_of ?d1 q m \<noteq> Some i" if "has_kind d i Dir" for q m
  proof -
    have "entry_of d q m = Some i \<Longrightarrow> q = sp \<and> m = sn"
      using t src that unfolding tree_def wf_dirs_def by blast
    then show ?thesis by auto
  qed
  have "tree (move_entry sp sn p n i d)"
    unfolding move_entry_def
  proof (rule tree_add_entry[OF t1 _ _ free1 v _ len _ up])
    show "has_kind ?d1 p Dir" using p by simp
    show "node_of ?d1 i \<noteq> None" using tree_entryD[OF t src] by simp
    show "i \<noteq> ROOT_INODE" using src t by (auto simp: tree_def wf_root_def)
    show "\<forall>q m. entry_of ?d1 q m \<noteq> Some i" if "has_kind ?d1 i Dir" using only that by auto
  qed
  moreover have "entry_count (move_entry sp sn p n i d) j = entry_count d j" for j
    unfolding move_entry_def entry_count_add[OF free1]
    by (rule entry_count_del[OF tree_keys[OF t] src, symmetric])
  then have "wf_links (move_entry sp sn p n i d)"
    using assms(1) by (simp add: wf_db_def wf_links_def) (simp add: move_entry_def)
  moreover have "wf_symlinks (move_entry sp sn p n i d)"
    using assms(1) by (simp add: wf_db_def wf_symlinks_def move_entry_def)
  moreover have "wf_extents cs (move_entry sp sn p n i d)"
    using assms(1) by (simp add: wf_db_def wf_extents_def move_entry_def chunks_fit_def)
  ultimately show ?thesis by (simp add: wf_db_def)
qed

lemma wf_move:
  assumes "wf_db cs d" and "entry_of d sp sn = Some i" and "has_kind d p Dir" and "valid_component n"
    and "(p, n) = (sp, sn) \<or> entry_of d p n = None" and "(i, p) \<notin> (edges d)\<^sup>*"
  shows "wf_db cs (move_db k i sp sn p n now d)"
proof -
  have t: "tree d" using assms(1) by (simp add: wf_db_def)
  have kinds: "has_kind (move_entry sp sn p n i d) p Dir" "has_kind (move_entry sp sn p n i d) sp Dir"
    using assms(3) tree_entryD[OF t assms(2)] by (simp_all add: move_entry_def)
  show ?thesis
    unfolding move_db_def Let_def
    by (cases "k = Dir \<and> sp \<noteq> p"; cases "sp = p"; simp only: if_True if_False simp_thms;
        rule wf_db_map_node; (intro wf_db_touch wf_db_dir_nlink move_parts)?)
      (use assms kinds in \<open>auto simp: add_nlink_def\<close>)
qed

lemma wf_renamed:
  assumes w: "wf_db cs d" and src: "entry_of d sp sn = Some i" and p: "has_kind d p Dir" and v: "valid_component n"
    and k: "has_kind d i k" and acyc: "k = Dir \<Longrightarrow> (i, p) \<notin> (edges d)\<^sup>*" and r: "renamed k i sp sn p n now d d'"
  shows "wf_db cs d'"
proof -
  have t: "tree d" using w by (simp add: wf_db_def)
  have up: "(i, p) \<notin> (edges d)\<^sup>*"
  proof (cases "k = Dir")
    case False
    then have nd: "\<not> has_kind d i Dir" using k by (auto simp: has_kind_map)
    then have "i \<noteq> p" using p by auto
    then show ?thesis using not_above[OF t file_no_children[OF t nd]] by simp
  qed (use acyc in simp)
  show ?thesis
  proof (cases "entry_of d p n = None \<or> (p, n) = (sp, sn)")
    case True
    then have "d' = move_db k i sp sn p n now d" using r by (simp add: renamed_def)
    then show ?thesis using wf_move[OF w src p v _ up] True by auto
  next
    case False
    then obtain j d1 where j: "entry_of d p n = Some j" "j \<noteq> i" and rep: "replaced sp p n j k now d d1"
      and d': "d' = move_db k i sp sn p n now d1" using r by (auto simp: renamed_def split: if_splits)
    note parts = replaced_parts[OF w j(1) rep]
    have jp: "j \<noteq> p" using no_self_entry[OF t j(1)] by simp
    have jsp: "j \<noteq> sp"
    proof
      assume eq: "j = sp"
      then have "has_kind d j Dir" using tree_entryD[OF t src] by simp
      then have "\<forall>m. entry_of d j m = None" using rep by (auto simp: replaced_def replaceable_def has_kind_def)
      then show False using src eq by simp
    qed
    have "entry_of d1 sp sn = Some i" using replace_db_lookup(3)[OF rep jsp] src False by auto
    moreover have "has_kind d1 p Dir" using replace_db_lookup(2)[OF rep jp] p by simp
    moreover have "entry_of d1 p n = None" using replace_db_lookup(3)[OF rep jp] by simp
    moreover have "(i, p) \<notin> (edges d1)\<^sup>*" using up rtrancl_mono[OF parts(2)] by blast
    ultimately show ?thesis unfolding d' by (intro wf_move[OF parts(1)]) (use v in auto)
  qed
qed

section \<open>Contents and attributes\<close>

lemma wf_contents:
  assumes "wf_db cs d" and "node_of d i \<noteq> None" and "blobs_only d d1" and "\<And>j. j \<noteq> i \<Longrightarrow> blob_of d1 j = blob_of d j"
    and "chunks_fit d1 i (unat cs) (unat sz)" and "unat sz < 2 ^ 63"
  shows "wf_db cs (map_node i (set_size_cols sz x y) d1)"
proof -
  note same = blobs_only_same[OF assms(3)]
  have t: "tree d" using assms(1) by (simp add: wf_db_def)
  have t1: "tree d1" by (rule tree_blobs_only[OF t assms(3)]) (rule assms(4), use assms(2) in auto)
  have kind: "has_kind d1 = has_kind d" using same by (simp add: has_kind_def fun_eq_iff)
  have "tree (map_node i (set_size_cols sz x y) d1)" by (rule tree_map_node[OF t1]) simp
  moreover have "wf_links (map_node i (set_size_cols sz x y) d1)"
    using assms(1) same by (auto simp: wf_db_def wf_links_def entry_count_def split: if_splits)
  moreover have "symlink_of d1 = symlink_of d" using same by (simp add: symlink_of_def)
  then have "wf_symlinks (map_node i (set_size_cols sz x y) d1)"
    using assms(1) kind by (simp add: wf_db_def wf_symlinks_def)
  moreover have "wf_extents cs (map_node i (set_size_cols sz x y) d1)"
    using assms(1,4-6) same
    by (auto simp: wf_db_def wf_extents_def fits_same_blobs[of "map_node i (set_size_cols sz x y) d1" _ d1]
        fits_same_blobs[of d1 _ d] split: if_splits)
  ultimately show ?thesis by (simp add: wf_db_def)
qed

lemma wf_trunc: "wf_db cs d \<Longrightarrow> node_of d i \<noteq> None \<Longrightarrow> trunc_db i cs now d d' \<Longrightarrow> wf_db cs d'"
  by (auto simp: trunc_db_def range_truncated_def intro!: wf_contents)

lemma wf_write:
  assumes "wf_db cs d" and "node_of d i = Some cols" and "off + length data < 2 ^ 63" and "off = unat offset"
    and "sz = (if data = [] then n_size cols else max (n_size cols) (offset + of_nat (length data)))"
    and "write_db i cs off data sz now d d'"
  shows "wf_db cs d'"
proof -
  have fit: "chunks_fit d i (unat cs) (unat (n_size cols))" and small: "unat (n_size cols) < 2 ^ 63"
    using assms(1,2) by (auto simp: wf_db_def wf_extents_def)
  have n: "unat (of_nat (length data) :: u64) = length data"
    by (rule unat_of_nat64) (use assms(3) in simp)
  have s: "unat sz = (if data = [] then unat (n_size cols) else max (unat (n_size cols)) (off + length data))"
    using assms(3,4) n by (auto simp: assms(5) unat_add64)
  obtain d1 where w: "range_written d i (unat cs) off data d1" and d': "d' = map_node i (set_size_cols sz now now) d1"
    using assms(6) by (auto simp: write_db_def)
  have fit1: "chunks_fit d1 i (unat cs) (max (unat (n_size cols)) (off + length data))"
    using w fit by (auto simp: range_written_def)
  have fit': "chunks_fit d1 i (unat cs) (unat sz)"
  proof (cases "data = []")
    case True
    then have "d1 = d" using w by (simp add: range_written_def)
    then show ?thesis using True s fit by simp
  next
    case False
    then show ?thesis using fit1 s by simp
  qed
  show ?thesis unfolding d'
    by (rule wf_contents[OF assms(1) _ _ _ fit'])
      (use assms(2,3) w s small in \<open>auto simp: range_written_def\<close>)
qed

end
