(* ===== verification/Fs_Ops.thy ===== *)
theory Fs_Ops
  imports Fs_Wf
begin

text \<open>
  The operations of \<open>fs.rs\<close> on names: \<open>mkdir\<close>, \<open>symlink\<close>, \<open>create\<close>, \<open>link\<close>, \<open>unlink\<close>, \<open>rmdir\<close> and
  \<open>rename\<close>.  For each there is a check, a pure function of the state that gives the error the
  operation stops with or the arguments its transaction runs on, and a rule which says that the
  operation fails with that error and changes nothing, or that it commits the tables of \<open>Fs_Tx\<close>
  and notifies the watchers of exactly one event.
\<close>

section \<open>Invariant and outcomes\<close>

definition fs_inv :: "filesystem \<Rightarrow> bool" where
  "fs_inv s \<longleftrightarrow> wf_db (fs_chunk_size s) (fs_db s) \<and> fs_chunk_size s \<noteq> 0
     \<and> fdtable_inv (fs_fdtable s) \<and> locks_inv (fs_locks s)"

definition becomes ::
  "filesystem \<Rightarrow> db \<Rightarrow> fd_table \<Rightarrow> lock_manager \<Rightarrow> watch_registry \<Rightarrow> filesystem \<Rightarrow> bool" where
  "becomes s d t l w s' \<longleftrightarrow> same_env s s' \<and> fs_db s' = d \<and> fs_fdtable s' = t \<and> fs_locks s' = l
     \<and> fs_watchers s' = w"

definition notify ::
  "event_kind \<Rightarrow> string \<Rightarrow> node_kind \<Rightarrow> inode \<Rightarrow> string option \<Rightarrow> string option \<Rightarrow> int
    \<Rightarrow> watch_registry \<Rightarrow> watch_registry" where
  "notify kind path nk ino src dst now =
     watch_emit \<lparr>ev_kind = kind, ev_path = path, ev_src_path = src, ev_dst_path = dst,
       ev_node_kind = nk, ev_inode = ino, ev_timestamp_ns = now\<rparr>"

lemma fs_quiet_becomes: "fs_quiet s s' \<longleftrightarrow> becomes s (fs_db s) (fs_fdtable s) (fs_locks s) (fs_watchers s) s'"
  by (simp add: fs_quiet_def becomes_def)

lemma wp_emit [wp_eqs]:
  "wp (emit kind path nk ino src dst) Q E s =
    Q () (s\<lparr>fs_clock_pos := Suc (fs_clock_pos s),
        fs_watchers := notify kind path nk ino src dst (fs_clock s (fs_clock_pos s)) (fs_watchers s)\<rparr>)"
  by (simp add: emit_def wp_eqs notify_def)

lemma wp_require_writable [wp_eqs]:
  "wp require_writable Q E s = (if fs_readonly s then E (Fail ReadOnlyFilesystem) s else Q () s)"
  by (simp add: require_writable_def wp_eqs)

lemma wp_caller [wp_eqs]: "wp caller Q E s = Q (fs_caller_uid s, fs_caller_gid s) s"
  by (simp add: caller_def wp_eqs)

definition grants :: "filesystem \<Rightarrow> node_cols \<Rightarrow> access \<Rightarrow> bool" where
  "grants s cols a = check_access (n_mode cols) (n_uid cols) (n_gid cols) (fs_caller_uid s) (fs_caller_gid s) a"

text \<open>The checks on the parent of a path at which something is to be added.\<close>

definition parent_check :: "filesystem \<Rightarrow> string \<Rightarrow> error + inode \<times> string" where
  "parent_check s path =
     (if fs_readonly s then Inl ReadOnlyFilesystem
      else case parent_lookup (fs_db s) path of
        Inl e \<Rightarrow> Inl e
      | Inr (p, n) \<Rightarrow>
          (case node_of (fs_db s) p of
             None \<Rightarrow> Inl NotFound
           | Some cols \<Rightarrow>
               if n_kind cols \<noteq> Dir then Inl NotADirectory
               else if \<not> grants s cols (ACCESS_W OR ACCESS_X) then Inl PermissionDenied
               else Inr (p, n)))"

definition add_check :: "filesystem \<Rightarrow> string \<Rightarrow> error + inode \<times> string" where
  "add_check s path = (case parent_check s path of Inl e \<Rightarrow> Inl e
     | Inr (p, n) \<Rightarrow> if entry_of (fs_db s) p n \<noteq> None then Inl AlreadyExists else Inr (p, n))"

text \<open>A failure of the engine: a fault, or no room for another row.\<close>

definition engine_error :: "filesystem \<Rightarrow> error \<Rightarrow> bool" where
  "engine_error s e \<longleftrightarrow> \<not> reliable (fs_conn s) \<or> \<not> room (fs_db s) \<and> e = Sqlite DatabaseFull"

lemmas outcome_defs = becomes_def fs_quiet_def same_env_def

lemma add_errorE:
  "add_error c p n e \<Longrightarrow> (\<And>x. e = Fail x \<Longrightarrow> (\<not> reliable c \<and> x = Sqlite IoFault \<or> \<not> room (c_db c) \<and> x = Sqlite DatabaseFull
    \<or> entry_of (c_db c) p n \<noteq> None \<and> x = AlreadyExists) \<Longrightarrow> P) \<Longrightarrow> P"
  by (auto simp: add_error_def room_def)

lemma inv_tree: "fs_inv s \<Longrightarrow> tree (fs_db s)"
  by (simp add: fs_inv_def wf_db_def)

lemma next_inode_free: "tree d \<Longrightarrow> node_of d (next_inode d) = None"
proof (cases "t_seq d < 2 ^ 63 - 1")
  case False
  assume t: "tree d"
  then have "t_seq d = 2 ^ 63 - 1" using False by (simp add: tree_def wf_seq_def)
  then have "sint (next_inode d) < 1" by (simp add: next_inode_def)
  then show ?thesis using t by (force simp: tree_def wf_seq_def)
qed (rule next_inode_fresh)

text \<open>The two clock readings of an operation: for the time stamps, and for the event.\<close>

abbreviation now1 :: "filesystem \<Rightarrow> int" where
  "now1 s \<equiv> fs_clock s (fs_clock_pos s)"

abbreviation now2 :: "filesystem \<Rightarrow> int" where
  "now2 s \<equiv> fs_clock s (Suc (fs_clock_pos s))"

lemma parent_check_Inr:
  "parent_check s path = Inr (p, n) \<longleftrightarrow> \<not> fs_readonly s \<and> parent_lookup (fs_db s) path = Inr (p, n)
     \<and> (\<exists>cols. node_of (fs_db s) p = Some cols \<and> n_kind cols = Dir \<and> grants s cols (ACCESS_W OR ACCESS_X))"
  by (auto simp: parent_check_def split: sum.splits option.splits if_splits)

lemma add_check_Inr:
  "add_check s path = Inr (p, n) \<longleftrightarrow> \<not> fs_readonly s \<and> parent_lookup (fs_db s) path = Inr (p, n)
     \<and> (\<exists>cols. node_of (fs_db s) p = Some cols \<and> n_kind cols = Dir \<and> grants s cols (ACCESS_W OR ACCESS_X))
     \<and> entry_of (fs_db s) p n = None"
  by (auto simp: add_check_def parent_check_def split: sum.splits option.splits if_splits)

lemmas op_defs = writable_parent_def outcome_defs add_check_def parent_check_def grants_def
  engine_error_def
lemmas op_rules = wp_resolve_to_inode wp_resolve_parent_and_name wp_nodes_get wp_entries_get wp_entries_count_all
  wp_mkdir_tx wp_create_tx wp_symlink_tx wp_link_tx wp_unlink_tx wp_rmdir_tx wp_rename_ancestry
lemmas split_outcome = sum.splits option.splits if_splits

lemma wp_fs_mkdir:
  assumes inv: "fs_inv s"
    and E: "\<And>e s'. fs_quiet s s' \<Longrightarrow> add_check s path = Inl e \<or> engine_error s e \<Longrightarrow> E (Fail e) s'"
    and Q: "\<And>s' p n. add_check s path = Inr (p, n) \<Longrightarrow> valid_component n \<Longrightarrow> room (fs_db s) \<Longrightarrow>
      becomes s (mkdir_db p n mode (fs_caller_uid s) (fs_caller_gid s) (now1 s) (fs_db s)) (fs_fdtable s) (fs_locks s)
        (notify Create path Dir (next_inode (fs_db s)) None None (now2 s) (fs_watchers s)) s' \<Longrightarrow> Q () s'"
  shows "wp (fs_mkdir path mode) Q E s"
proof (cases "add_check s path")
  case (Inl e)
  then show ?thesis
    by (auto simp: fs_mkdir_def wp_eqs op_defs inv_tree[OF inv] next_inode_free
        intro!: op_rules E elim!: add_errorE)
next
  case (Inr pn)
  then obtain p n where pn: "add_check s path = Inr (p, n)" by (cases pn) auto
  show ?thesis using inv_tree[OF inv] pn[unfolded add_check_Inr]
    by (auto simp: fs_mkdir_def wp_eqs op_defs next_inode_free intro!: op_rules E Q[OF pn] elim!: add_errorE)
qed

lemma wp_fs_symlink:
  assumes inv: "fs_inv s"
    and E: "\<And>e s'. fs_quiet s s' \<Longrightarrow> add_check s path = Inl e \<or> engine_error s e \<Longrightarrow> E (Fail e) s'"
    and Q: "\<And>s' p n. add_check s path = Inr (p, n) \<Longrightarrow> valid_component n \<Longrightarrow> room (fs_db s) \<Longrightarrow>
      becomes s (symlink_db target p n (fs_caller_uid s) (fs_caller_gid s) (now1 s) (fs_db s)) (fs_fdtable s) (fs_locks s)
        (notify Create path Symlink (next_inode (fs_db s)) None None (now2 s) (fs_watchers s)) s' \<Longrightarrow> Q () s'"
  shows "wp (fs_symlink target path) Q E s"
proof -
  have free: "symlink_of (fs_db s) (next_inode (fs_db s)) = None"
    using inv next_inode_free[OF inv_tree[OF inv]] by (auto simp: fs_inv_def intro: fresh_has_nothing)
  show ?thesis
  proof (cases "add_check s path")
    case (Inl e)
    then show ?thesis using free inv_tree[OF inv]
      by (auto simp: fs_symlink_def wp_eqs op_defs next_inode_free
          intro!: op_rules E elim!: add_errorE)
  next
    case (Inr pn)
    then obtain p n where pn: "add_check s path = Inr (p, n)" by (cases pn) auto
    show ?thesis using inv_tree[OF inv] free pn[unfolded add_check_Inr]
      by (auto simp: fs_symlink_def wp_eqs op_defs next_inode_free intro!: op_rules E Q[OF pn] elim!: add_errorE)
  qed
qed

section \<open>create\<close>

text \<open>\<open>create\<close> opens what is there, unless \<open>O_EXCL\<close> is given, and makes a file otherwise.\<close>

definition open_check :: "filesystem \<Rightarrow> inode \<Rightarrow> u32 \<Rightarrow> error + inode" where
  "open_check s i flags = (case node_of (fs_db s) i of None \<Rightarrow> Inl NotFound
     | Some cols \<Rightarrow> if grants s cols (open_access flags) then Inr i else Inl PermissionDenied)"

definition create_check :: "filesystem \<Rightarrow> string \<Rightarrow> u32 \<Rightarrow> error + inode option" where
  "create_check s path flags =
     (if fs_readonly s then Inl ReadOnlyFilesystem
      else case parent_lookup (fs_db s) path of
        Inl e \<Rightarrow> Inl e
      | Inr (p, n) \<Rightarrow>
          (case entry_of (fs_db s) p n of
             Some i \<Rightarrow> if flags AND O_EXCL \<noteq> 0 then Inl AlreadyExists
                       else (case open_check s i flags of Inl e \<Rightarrow> Inl e | Inr i \<Rightarrow> Inr (Some i))
           | None \<Rightarrow> (case parent_check s path of Inl e \<Rightarrow> Inl e | Inr _ \<Rightarrow> Inr None)))"

abbreviation opened :: "filesystem \<Rightarrow> inode \<Rightarrow> u32 \<Rightarrow> u64 \<times> fd_table" where
  "opened s i flags \<equiv> fdtable_open i flags (fs_caller_uid s) (fs_caller_gid s) (fs_fdtable s)"

lemma wp_open_fd [wp_eqs]:
  "wp (open_fd i flags) Q E s = Q (fst (opened s i flags)) (s\<lparr>fs_fdtable := snd (opened s i flags)\<rparr>)"
  by (simp add: wp_def open_fd_def split: prod.split)

lemma wp_get_fd [wp_eqs]:
  "wp (get_fd fd) Q E s = (case fdtable_get fd (fs_fdtable s) of Inl e \<Rightarrow> E (Fail e) s | Inr x \<Rightarrow> Q x s)"
  by (simp add: get_fd_def wp_def of_result_def split: sum.split)

lemma wp_check_open [wp_eqs]:
  "wp (check_open_access (node_row i cols) flags) Q E s
    = (if grants s cols (open_access flags) then Q () s else E (Fail PermissionDenied) s)"
  by (simp add: check_open_access_def wp_eqs grants_def)

lemma wp_fs_create:
  assumes inv: "fs_inv s"
    and E: "\<And>e s'. fs_quiet s s' \<Longrightarrow> create_check s path flags = Inl e \<or> engine_error s e \<Longrightarrow> E (Fail e) s'"
    and old: "\<And>s' i. create_check s path flags = Inr (Some i) \<Longrightarrow>
      becomes s (fs_db s) (snd (opened s i flags)) (fs_locks s) (fs_watchers s) s' \<Longrightarrow> Q (fst (opened s i flags)) s'"
    and new: "\<And>s' p n i. add_check s path = Inr (p, n) \<Longrightarrow> valid_component n \<Longrightarrow> room (fs_db s) \<Longrightarrow>
      i = next_inode (fs_db s) \<Longrightarrow>
      becomes s (create_db p n mode (fs_caller_uid s) (fs_caller_gid s) (now1 s) (fs_db s)) (snd (opened s i flags))
        (fs_locks s) (notify Create path File i None None (now2 s) (fs_watchers s)) s' \<Longrightarrow> Q (fst (opened s i flags)) s'"
  shows "wp (fs_create path flags mode) Q E s"
proof (cases "parent_lookup (fs_db s) path")
  case (Inl e)
  then show ?thesis
    by (auto simp: fs_create_def wp_eqs op_defs create_check_def intro!: op_rules E)
next
  case (Inr pn)
  then obtain p n where pn: "parent_lookup (fs_db s) path = Inr (p, n)" by (cases pn) auto
  show ?thesis
  proof (cases "entry_of (fs_db s) p n")
    case None
    show ?thesis
    proof (cases "add_check s path")
      case (Inl e)
      then show ?thesis using None pn inv_tree[OF inv]
        by (auto simp: fs_create_def wp_eqs op_defs create_check_def next_inode_free
            intro!: op_rules E elim!: add_errorE)
    next
      case (Inr pn')
      then have ok: "add_check s path = Inr (p, n)" using pn
        by (auto simp: add_check_def parent_check_def split: split_outcome)
      show ?thesis using inv_tree[OF inv] ok[unfolded add_check_Inr]
        by (auto simp: fs_create_def wp_eqs op_defs next_inode_free intro!: op_rules E new[OF ok] elim!: add_errorE)
    qed
  next
    case (Some i)
    then show ?thesis using pn inv_tree[OF inv]
      apply (auto simp: fs_create_def wp_eqs op_defs create_check_def next_inode_free open_check_def
          intro!: op_rules E old[of i] elim!: add_errorE split: split_outcome)
      done
  qed
qed

section \<open>Links\<close>

definition link_check :: "filesystem \<Rightarrow> string \<Rightarrow> string \<Rightarrow> error + inode \<times> string \<times> inode" where
  "link_check s target path =
     (if fs_readonly s then Inl ReadOnlyFilesystem
      else case lookup (fs_db s) target of
        Inl e \<Rightarrow> Inl e
      | Inr i \<Rightarrow>
          (case node_of (fs_db s) i of
             None \<Rightarrow> Inl NotFound
           | Some cols \<Rightarrow>
               if n_kind cols = Dir then Inl IsADirectory
               else (case add_check s path of Inl e \<Rightarrow> Inl e | Inr (p, n) \<Rightarrow> Inr (p, n, i))))"

lemma link_check_Inr:
  "link_check s target path = Inr (p, n, i) \<longleftrightarrow> add_check s path = Inr (p, n) \<and> lookup (fs_db s) target = Inr i
     \<and> (\<exists>cols. node_of (fs_db s) i = Some cols \<and> n_kind cols \<noteq> Dir)"
proof -
  have "add_check s path = Inr (p, n) \<Longrightarrow> \<not> fs_readonly s" by (simp add: add_check_Inr)
  then show ?thesis by (auto simp: link_check_def split: split_outcome)
qed

lemma wp_fs_link:
  assumes inv: "fs_inv s"
    and E: "\<And>e s'. fs_quiet s s' \<Longrightarrow> link_check s target path = Inl e \<or> engine_error s e \<Longrightarrow> E (Fail e) s'"
    and Q: "\<And>s' p n i cols. link_check s target path = Inr (p, n, i) \<Longrightarrow> valid_component n \<Longrightarrow>
      length (t_entries (fs_db s)) < 2 ^ 63 - 1 \<Longrightarrow> node_of (fs_db s) i = Some cols \<Longrightarrow>
      becomes s (link_db p n i (now1 s) (fs_db s)) (fs_fdtable s) (fs_locks s)
        (notify Create path (n_kind cols) i None None (now2 s) (fs_watchers s)) s' \<Longrightarrow> Q () s'"
  shows "wp (fs_link target path) Q E s"
proof (cases "link_check s target path")
  case (Inl e)
  then show ?thesis
    by (auto simp: fs_link_def wp_eqs op_defs link_check_def
        intro!: op_rules E elim!: add_errorE)
next
  case (Inr pni)
  then obtain p n i where ok: "link_check s target path = Inr (p, n, i)" by (cases pni) auto
  then show ?thesis
    using ok[unfolded link_check_Inr add_check_Inr]
    by (auto simp: fs_link_def wp_eqs op_defs intro!: op_rules E Q[OF ok] elim!: add_errorE)
qed

text \<open>The entry that \<open>unlink\<close> removes, and the file with its last name and no descriptor gone.\<close>

definition unlink_check :: "filesystem \<Rightarrow> string \<Rightarrow> error + inode \<times> string \<times> inode" where
  "unlink_check s path =
     (if fs_readonly s then Inl ReadOnlyFilesystem
      else case parent_lookup (fs_db s) path of
        Inl e \<Rightarrow> Inl e
      | Inr (p, n) \<Rightarrow>
          (case entry_of (fs_db s) p n of
             None \<Rightarrow> Inl NotFound
           | Some i \<Rightarrow>
               if has_kind (fs_db s) i Dir then Inl IsADirectory
               else (case node_of (fs_db s) p of
                       None \<Rightarrow> Inl NotFound
                     | Some cols \<Rightarrow> if grants s cols (ACCESS_W OR ACCESS_X) then Inr (p, n, i)
                                    else Inl PermissionDenied)))"

lemma unlink_check_Inr:
  "unlink_check s path = Inr (p, n, i) \<longleftrightarrow> \<not> fs_readonly s \<and> parent_lookup (fs_db s) path = Inr (p, n)
     \<and> entry_of (fs_db s) p n = Some i \<and> \<not> has_kind (fs_db s) i Dir
     \<and> (\<exists>cols. node_of (fs_db s) p = Some cols \<and> grants s cols (ACCESS_W OR ACCESS_X))"
  by (auto simp: unlink_check_def split: split_outcome)

definition last_link :: "filesystem \<Rightarrow> inode \<Rightarrow> bool" where
  "last_link s i \<longleftrightarrow> (case node_of (fs_db s) i of None \<Rightarrow> False
     | Some cols \<Rightarrow> word_of_int (n_nlink cols - 1) = (0 :: u32))"

definition unlink_final :: "filesystem \<Rightarrow> inode \<Rightarrow> string \<Rightarrow> inode \<Rightarrow> db" where
  "unlink_final s p n i = (let d = unlink_db p n i (now1 s) (fs_db s) in
     if last_link s i \<and> open_count i (fs_fdtable s) = 0 then del_node i d else d)"

lemma wp_fs_unlink:
  assumes inv: "fs_inv s"
    and E: "\<And>e s'. fs_quiet s s' \<Longrightarrow> unlink_check s path = Inl e \<or> \<not> reliable (fs_conn s) \<Longrightarrow> E (Fail e) s'"
    and late: "\<And>e s' p n i. unlink_check s path = Inr (p, n, i) \<Longrightarrow> last_link s i \<Longrightarrow> open_count i (fs_fdtable s) = 0 \<Longrightarrow>
      \<not> reliable (fs_conn s) \<or> referenced (unlink_db p n i (now1 s) (fs_db s)) i \<Longrightarrow>
      becomes s (unlink_db p n i (now1 s) (fs_db s)) (fs_fdtable s) (fs_locks s) (fs_watchers s) s' \<Longrightarrow> E (Fail e) s'"
    and Q: "\<And>s' p n i cols. unlink_check s path = Inr (p, n, i) \<Longrightarrow> node_of (fs_db s) i = Some cols \<Longrightarrow>
      last_link s i \<and> open_count i (fs_fdtable s) = 0 \<longrightarrow> \<not> referenced (unlink_db p n i (now1 s) (fs_db s)) i \<Longrightarrow>
      becomes s (unlink_final s p n i) (fs_fdtable s) (fs_locks s)
        (notify Remove path (n_kind cols) i None None (now2 s) (fs_watchers s)) s' \<Longrightarrow> Q () s'"
  shows "wp (fs_unlink path) Q E s"
proof (cases "unlink_check s path")
  case (Inl e)
  have n: "entry_of (fs_db s) p n = Some i \<Longrightarrow> node_of (fs_db s) i \<noteq> None" for p n i
    using tree_entryD[OF inv_tree[OF inv]] by simp
  from Inl show ?thesis
    by (auto simp: fs_unlink_def wp_eqs op_defs unlink_check_def has_kind_def dest!: n
        intro!: op_rules E)
next
  case (Inr pni)
  then obtain p n i where ok: "unlink_check s path = Inr (p, n, i)" by (cases pni) auto
  obtain cols where cols: "node_of (fs_db s) i = Some cols"
    using ok[unfolded unlink_check_Inr] tree_entryD[OF inv_tree[OF inv]] by blast
  then have "node_of (unlink_db p n i (now1 s) (fs_db s)) i \<noteq> None"
    by (auto simp: unlink_db_def touch_def add_nlink_def)
  moreover have "E (Fail e) s'" if "fs_quiet s s' \<and> \<not> reliable (fs_conn s)
      \<or> (\<not> reliable (fs_conn s) \<or> referenced (unlink_db p n i (now1 s) (fs_db s)) i)
        \<and> last_link s i \<and> open_count i (fs_fdtable s) = 0
        \<and> becomes s (unlink_db p n i (now1 s) (fs_db s)) (fs_fdtable s) (fs_locks s) (fs_watchers s) s'" for e s'
    using that E late[OF ok] by blast
  ultimately show ?thesis
    using ok[unfolded unlink_check_Inr] cols
    by (auto simp: fs_unlink_def wp_eqs op_defs has_kind_def unlink_final_def last_link_def Let_def
        intro!: op_rules wp_nodes_delete Q[OF ok cols])
qed

section \<open>Directories removed\<close>

definition rmdir_check :: "filesystem \<Rightarrow> string \<Rightarrow> error + inode \<times> string \<times> inode" where
  "rmdir_check s path =
     (if fs_readonly s then Inl ReadOnlyFilesystem
      else if path = ''/'' then Inl InvalidArgument
      else case parent_lookup (fs_db s) path of
        Inl e \<Rightarrow> Inl e
      | Inr (p, n) \<Rightarrow>
          (case entry_of (fs_db s) p n of
             None \<Rightarrow> Inl NotFound
           | Some i \<Rightarrow>
               if \<not> has_kind (fs_db s) i Dir then Inl NotADirectory
               else if rows_under (fs_db s) i \<noteq> [] then Inl DirectoryNotEmpty
               else (case node_of (fs_db s) p of
                       None \<Rightarrow> Inl NotFound
                     | Some cols \<Rightarrow> if grants s cols (ACCESS_W OR ACCESS_X) then Inr (p, n, i)
                                    else Inl PermissionDenied)))"

lemma rmdir_check_Inr:
  "rmdir_check s path = Inr (p, n, i) \<longleftrightarrow> \<not> fs_readonly s \<and> path \<noteq> ''/'' \<and> parent_lookup (fs_db s) path = Inr (p, n)
     \<and> entry_of (fs_db s) p n = Some i \<and> has_kind (fs_db s) i Dir \<and> rows_under (fs_db s) i = []
     \<and> (\<exists>cols. node_of (fs_db s) p = Some cols \<and> grants s cols (ACCESS_W OR ACCESS_X))"
  by (auto simp: rmdir_check_def split: split_outcome)

lemma count_pos_iff: "wf_keys d \<Longrightarrow> 0 < (of_nat (length (rows_under d p)) :: u64) \<longleftrightarrow> rows_under d p \<noteq> []"
  using count_zero_iff by blast

lemma wp_fs_rmdir:
  assumes inv: "fs_inv s"
    and E: "\<And>e s'. fs_quiet s s' \<Longrightarrow> rmdir_check s path = Inl e \<or> \<not> reliable (fs_conn s) \<Longrightarrow> E (Fail e) s'"
    and Q: "\<And>s' p n i. rmdir_check s path = Inr (p, n, i) \<Longrightarrow>
      becomes s (rmdir_db p n i (now1 s) (fs_db s)) (fs_fdtable s) (fs_locks s)
        (notify Remove path Dir i None None (now2 s) (fs_watchers s)) s' \<Longrightarrow> Q () s'"
  shows "wp (fs_rmdir path) Q E s"
proof (cases "rmdir_check s path")
  case (Inl e)
  have n: "entry_of (fs_db s) p n = Some i \<Longrightarrow> node_of (fs_db s) i \<noteq> None" for p n i
    using tree_entryD[OF inv_tree[OF inv]] by simp
  from Inl show ?thesis using tree_keys[OF inv_tree[OF inv]]
    by (auto simp: fs_rmdir_def wp_eqs op_defs rmdir_check_def has_kind_def count_pos_iff dest!: n
        intro!: op_rules E)
next
  case (Inr pni)
  then obtain p n i where ok: "rmdir_check s path = Inr (p, n, i)" by (cases pni) auto
  have wf: "wf_dirs (fs_db s)" "wf_keys (fs_db s)" using inv_tree[OF inv] by (simp_all add: tree_def)
  have kind: "has_kind (fs_db s) i Dir" using ok[unfolded rmdir_check_Inr] by simp
  then obtain cols where "node_of (fs_db s) i = Some cols" "n_kind cols = Dir" by (rule has_kindE)
  then show ?thesis
    using ok[unfolded rmdir_check_Inr] wf kind
    by (auto simp: fs_rmdir_def wp_eqs op_defs intro!: op_rules E Q[OF ok])
qed


section \<open>Rename\<close>

text \<open>The arguments of a rename that goes through to its transaction.\<close>

definition renames ::
  "filesystem \<Rightarrow> string \<Rightarrow> string \<Rightarrow> inode \<Rightarrow> string \<Rightarrow> inode \<Rightarrow> string \<Rightarrow> inode \<Rightarrow> node_kind \<Rightarrow> bool" where
  "renames s src dst sp sn p n i k \<longleftrightarrow> \<not> fs_readonly s
     \<and> parent_lookup (fs_db s) src = Inr (sp, sn) \<and> entry_of (fs_db s) sp sn = Some i
     \<and> map_option n_kind (node_of (fs_db s) i) = Some k
     \<and> parent_lookup (fs_db s) dst = Inr (p, n) \<and> valid_component n
     \<and> (\<exists>cols. node_of (fs_db s) sp = Some cols \<and> grants s cols (ACCESS_W OR ACCESS_X))
     \<and> (\<exists>cols. node_of (fs_db s) p = Some cols \<and> n_kind cols = Dir \<and> grants s cols (ACCESS_W OR ACCESS_X))
     \<and> (k = Dir \<longrightarrow> (i, p) \<notin> (edges (fs_db s))\<^sup>*)"

definition rename_same :: "filesystem \<Rightarrow> string \<Rightarrow> string \<Rightarrow> bool" where
  "rename_same s src dst \<longleftrightarrow> \<not> fs_readonly s \<and> (src = dst \<or> (\<exists>sp sn p n i k. renames s src dst sp sn p n i k \<and> entry_of (fs_db s) p n = Some i))"

definition rename_moved :: "filesystem \<Rightarrow> string \<Rightarrow> string \<Rightarrow> filesystem \<Rightarrow> bool" where
  "rename_moved s src dst s' \<longleftrightarrow> (\<exists>sp sn p n i k d'. renames s src dst sp sn p n i k
     \<and> renamed k i sp sn p n (now1 s) (fs_db s) d'
     \<and> becomes s d' (fs_fdtable s) (fs_locks s) (notify Move dst k i (Some src) (Some dst) (now2 s) (fs_watchers s)) s')"

lemma wp_fs_rename:
  assumes inv: "fs_inv s"
    and E: "\<And>e s'. fs_quiet s s' \<Longrightarrow> E (Fail e) s'"
    and same: "\<And>s'. rename_same s src dst \<Longrightarrow> fs_quiet s s' \<Longrightarrow> Q () s'"
    and moved: "\<And>s'. rename_moved s src dst s' \<Longrightarrow> Q () s'"
  shows "wp (fs_rename src dst) Q E s"
  using inv_tree[OF inv]
  by (auto simp: fs_rename_def wp_eqs op_defs has_kind_map intro!: op_rules wp_rename_tx E)
    ((rule same moved; force simp: rename_same_def rename_moved_def renames_def op_defs)+)

end
