(* ===== verification/Fs_Files.thy ===== *)
theory Fs_Files
  imports Fs_Ops
begin

text \<open>
  The operations of \<open>fs.rs\<close> on open files (\<open>open\<close>, \<open>read_fd\<close>, \<open>write_fd\<close>, \<open>close_fd\<close>) and the ones that read
  the tree (\<open>stat\<close>, \<open>readdir\<close>), in the form of \<open>Fs_Ops\<close>: a pure check and a rule.
\<close>

section \<open>Open files\<close>

definition fs_open_check :: "filesystem \<Rightarrow> string \<Rightarrow> u32 \<Rightarrow> error + inode" where
  "fs_open_check s path flags =
     (case lookup (fs_db s) path of
        Inl e \<Rightarrow> Inl e
      | Inr i \<Rightarrow>
          if node_of (fs_db s) i = None then Inl NotFound
          else if has_kind (fs_db s) i Dir then Inl IsADirectory
          else (case open_check s i flags of
                  Inl e \<Rightarrow> Inl e
                | Inr i \<Rightarrow> if flags AND O_TRUNC \<noteq> 0 \<and> fs_readonly s then Inl ReadOnlyFilesystem else Inr i))"

lemma fs_open_check_Inr:
  "fs_open_check s path flags = Inr i \<longleftrightarrow> lookup (fs_db s) path = Inr i
     \<and> (\<exists>cols. node_of (fs_db s) i = Some cols \<and> n_kind cols \<noteq> Dir \<and> grants s cols (open_access flags))
     \<and> (flags AND O_TRUNC \<noteq> 0 \<longrightarrow> \<not> fs_readonly s)"
  by (auto simp: fs_open_check_def open_check_def has_kind_def split: split_outcome)

lemma inv_extents:
  "fs_inv s \<Longrightarrow> node_of (fs_db s) i = Some cols \<Longrightarrow> chunks_fit (fs_db s) i (unat (fs_chunk_size s)) (unat (n_size cols))"
  "fs_inv s \<Longrightarrow> node_of (fs_db s) i = Some cols \<Longrightarrow> unat (n_size cols) < 2 ^ 63"
  by (auto simp: fs_inv_def wf_db_def wf_extents_def)

lemma inv_chunk: "fs_inv s \<Longrightarrow> fs_chunk_size s \<noteq> 0"
  by (simp add: fs_inv_def)

lemma wp_fs_open:
  assumes inv: "fs_inv s"
    and E: "\<And>e s'. fs_quiet s s' \<Longrightarrow> fs_open_check s path flags = Inl e \<or> \<not> reliable (fs_conn s) \<Longrightarrow> E (Fail e) s'"
    and Q: "\<And>s' i d'. fs_open_check s path flags = Inr i \<Longrightarrow>
      (if flags AND O_TRUNC \<noteq> 0 then trunc_db i (fs_chunk_size s) (now1 s) (fs_db s) d' else d' = fs_db s) \<Longrightarrow>
      becomes s d' (snd (opened s i flags)) (fs_locks s) (fs_watchers s) s' \<Longrightarrow> Q (fst (opened s i flags)) s'"
  shows "wp (fs_open path flags) Q E s"
proof (cases "fs_open_check s path flags")
  case (Inl e)
  then show ?thesis using inv_extents[OF inv] inv_chunk[OF inv]
    by (auto simp: fs_open_def wp_eqs op_defs fs_open_check_def open_check_def has_kind_def
        intro!: op_rules wp_open_trunc_tx E)
next
  case (Inr i)
  then obtain cols where cols: "node_of (fs_db s) i = Some cols" by (auto simp: fs_open_check_Inr)
  note fit = inv_extents[OF inv cols] and rest = Inr[unfolded fs_open_check_Inr]
  show ?thesis
  proof (cases "flags AND O_TRUNC = 0")
    case True
    then have "Q (fst (opened s i flags)) s'"
      if "becomes s (fs_db s) (snd (opened s i flags)) (fs_locks s) (fs_watchers s) s'" for s'
      using Q[OF Inr _ that] by simp
    then show ?thesis using cols rest True
      by (auto simp: fs_open_def wp_eqs op_defs intro!: op_rules E)
  next
    case False
    then have "Q (fst (opened s i flags)) s'" if "trunc_db i (fs_chunk_size s) (now1 s) (fs_db s) (fs_db s')"
      and "becomes s (fs_db s') (snd (opened s i flags)) (fs_locks s) (fs_watchers s) s'" for s'
      using Q[OF Inr _ that(2)] that(1) by simp
    then show ?thesis using cols rest False fit inv_chunk[OF inv]
      by (auto simp: fs_open_def wp_eqs op_defs intro!: op_rules wp_open_trunc_tx E)
  qed
qed

text \<open>A descriptor and what it was opened for.\<close>

definition fd_check :: "filesystem \<Rightarrow> u64 \<Rightarrow> u32 \<Rightarrow> error + inode" where
  "fd_check s fd mode =
     (case fdtable_get fd (fs_fdtable s) of
        Inl e \<Rightarrow> Inl e
      | Inr x \<Rightarrow>
          if fe_flags x AND O_ACCMODE \<noteq> mode \<and> fe_flags x AND O_ACCMODE \<noteq> O_RDWR then Inl PermissionDenied
          else if node_of (fs_db s) (fe_inode x) = None then Inl NotFound
          else Inr (fe_inode x))"

lemma fd_check_Inr:
  "fd_check s fd mode = Inr i \<longleftrightarrow> (\<exists>x. fdtable_get fd (fs_fdtable s) = Inr x \<and> fe_inode x = i
     \<and> (fe_flags x AND O_ACCMODE = mode \<or> fe_flags x AND O_ACCMODE = O_RDWR)) \<and> node_of (fs_db s) i \<noteq> None"
  by (auto simp: fd_check_def split: split_outcome)

lemma wp_fs_read_fd:
  assumes inv: "fs_inv s" and len: "unat offset + unat n < 2 ^ 64"
    and E: "\<And>e s'. fs_quiet s s' \<Longrightarrow> fd_check s fd O_RDONLY = Inl e \<or> \<not> reliable (fs_conn s) \<Longrightarrow> E (Fail e) s'"
    and Q: "\<And>s' i cols. fd_check s fd O_RDONLY = Inr i \<Longrightarrow> node_of (fs_db s) i = Some cols \<Longrightarrow> fs_quiet s s' \<Longrightarrow>
      Q (file_range (fs_db s) i (unat (fs_chunk_size s)) (unat offset)
        (min (unat offset + unat n) (unat (n_size cols)))) s'"
  shows "wp (fs_read_fd fd offset n) Q E s"
proof (cases "fd_check s fd O_RDONLY")
  case (Inl e)
  then show ?thesis using inv_extents[OF inv] inv_chunk[OF inv] len tree_keys[OF inv_tree[OF inv]]
    by (auto simp: fs_read_fd_def wp_eqs op_defs fd_check_def wf_keys_def split: sum.split intro!: op_rules E)
next
  case (Inr i)
  then obtain cols x where cols: "node_of (fs_db s) i = Some cols" and i: "i = fe_inode x"
    and x: "fdtable_get fd (fs_fdtable s) = Inr x" by (auto simp: fd_check_Inr)
  have keys: "keyed (t_blobs (fs_db s))" using tree_keys[OF inv_tree[OF inv]] by (simp add: wf_keys_def)
  show ?thesis
    using inv_extents(2)[OF inv cols] inv_chunk[OF inv] len cols keys Inr[unfolded fd_check_Inr] x
    unfolding fs_read_fd_def i
    by (auto simp: wp_eqs op_defs intro!: op_rules wp_read_range E Q[OF Inr cols, unfolded i])
qed

definition write_check :: "filesystem \<Rightarrow> u64 \<Rightarrow> error + inode" where
  "write_check s fd = (if fs_readonly s then Inl ReadOnlyFilesystem else fd_check s fd O_WRONLY)"

definition new_size :: "node_cols \<Rightarrow> u64 \<Rightarrow> byte list \<Rightarrow> u64" where
  "new_size cols offset data = (if data = [] then n_size cols else max (n_size cols) (offset + of_nat (length data)))"

lemma wp_write_node_tx:
  assumes "cs \<noteq> 0" and "unat offset + length data < 2 ^ 63" and "node_of (c_db c) i = Some cols"
    and "\<And>t. \<not> reliable c \<Longrightarrow> E (Fail (Sqlite IoFault)) (c\<lparr>c_tick := t\<rparr>)"
    and "\<And>t d'. write_db i cs (unat offset) data (new_size cols offset data) now (c_db c) d'
      \<Longrightarrow> Q (new_size cols offset data) (c\<lparr>c_tick := t, c_db := d'\<rparr>)"
  shows "wp (transaction (write_tx i data offset (n_size cols) cs now)) Q E c"
  by (rule wp_write_tx) (use assms in \<open>auto simp: new_size_def\<close>)

text \<open>A write tells the watchers of the path that it finds for the file, if there is one.\<close>

definition write_event :: "filesystem \<Rightarrow> inode \<Rightarrow> db \<Rightarrow> watch_registry \<Rightarrow> bool" where
  "write_event s i d w \<longleftrightarrow> w = fs_watchers s
     \<or> (\<exists>cs. cs \<noteq> [] \<and> walk d ROOT_INODE cs = Inr i
          \<and> w = notify Modify (path_string cs) File i None None (now2 s) (fs_watchers s))"

lemma write_event_silent: "write_event s i d (fs_watchers s)"
  by (simp add: write_event_def)

lemma write_event_path: "cs \<noteq> [] \<Longrightarrow> walk d ROOT_INODE cs = Inr i
    \<Longrightarrow> write_event s i d (notify Modify (path_string cs) File i None None (now2 s) (fs_watchers s))"
  by (auto simp: write_event_def)

lemma wp_fs_write_fd:
  assumes inv: "fs_inv s" and len: "unat offset + length data < 2 ^ 63"
    and E: "\<And>e s'. fs_quiet s s' \<Longrightarrow> write_check s fd = Inl e \<or> \<not> reliable (fs_conn s) \<Longrightarrow> E (Fail e) s'"
    and Q: "\<And>s' i cols. write_check s fd = Inr i \<Longrightarrow> node_of (fs_db s) i = Some cols \<Longrightarrow>
      write_db i (fs_chunk_size s) (unat offset) data (new_size cols offset data) (now1 s) (fs_db s) (fs_db s') \<Longrightarrow>
      write_event s i (fs_db s') (fs_watchers s') \<Longrightarrow>
      becomes s (fs_db s') (fs_fdtable s) (fs_locks s) (fs_watchers s') s' \<Longrightarrow> Q (new_size cols offset data) s'"
  shows "wp (fs_write_fd fd offset data) Q E s"
proof (cases "write_check s fd")
  case (Inl e)
  then show ?thesis using inv_chunk[OF inv] len
    by (auto simp: fs_write_fd_def wp_eqs op_defs fd_check_def write_check_def split: sum.split
        intro!: op_rules wp_write_tx E)
next
  case (Inr i)
  then obtain cols x where cols: "node_of (fs_db s) i = Some cols" and i: "i = fe_inode x"
    and x: "fdtable_get fd (fs_fdtable s) = Inr x"
    by (auto simp: write_check_def fd_check_Inr split: if_splits)
  have t: "tree d'" if "write_db i (fs_chunk_size s) (unat offset) data (new_size cols offset data) (now1 s) (fs_db s) d'" for d'
    using wf_write[OF _ cols len refl new_size_def that] inv by (simp add: fs_inv_def wf_db_def)
  show ?thesis
    using inv_chunk[OF inv] len cols Inr x t[unfolded i]
    unfolding fs_write_fd_def i
    by (auto simp: wp_eqs op_defs write_check_def fd_check_Inr write_event_silent write_event_path
        intro!: op_rules wp_write_node_tx wp_path_for_inode E Q[OF Inr cols, unfolded i] split: if_splits)
qed


text \<open>
  Closing drops the descriptor and the locks first; what follows may fail only because the node
  is gone, a statement fails, or the 32-bit link count of a node that is still linked reads zero.
\<close>

definition closed_fds :: "filesystem \<Rightarrow> u64 \<Rightarrow> fd_table" where
  "closed_fds s fd = snd (fdtable_close fd (fs_fdtable s))"

definition closed_locks :: "filesystem \<Rightarrow> u64 \<Rightarrow> inode \<Rightarrow> lock_manager" where
  "closed_locks s fd i = on_fd_close i (sint fd) 0 (fs_locks s)"

definition close_deletes :: "filesystem \<Rightarrow> u64 \<Rightarrow> inode \<Rightarrow> bool" where
  "close_deletes s fd i \<longleftrightarrow> (case node_of (fs_db s) i of None \<Rightarrow> False
     | Some cols \<Rightarrow> word_of_int (n_nlink cols) = (0 :: u32) \<and> open_count i (closed_fds s fd) = 0)"

lemma wp_fs_close_fd:
  assumes bad: "\<And>e s'. fs_quiet s s' \<Longrightarrow> fdtable_get fd (fs_fdtable s) = Inl e \<Longrightarrow> E (Fail e) s'"
    and late: "\<And>x e s'. fdtable_get fd (fs_fdtable s) = Inr x \<Longrightarrow>
      node_of (fs_db s) (fe_inode x) = None \<and> e = NotFound \<or> \<not> reliable (fs_conn s)
        \<or> close_deletes s fd (fe_inode x) \<and> referenced (fs_db s) (fe_inode x) \<Longrightarrow>
      becomes s (fs_db s) (closed_fds s fd) (closed_locks s fd (fe_inode x)) (fs_watchers s) s' \<Longrightarrow> E (Fail e) s'"
    and Q: "\<And>x s'. fdtable_get fd (fs_fdtable s) = Inr x \<Longrightarrow> node_of (fs_db s) (fe_inode x) \<noteq> None \<Longrightarrow>
      close_deletes s fd (fe_inode x) \<longrightarrow> \<not> referenced (fs_db s) (fe_inode x) \<Longrightarrow>
      becomes s (if close_deletes s fd (fe_inode x) then del_node (fe_inode x) (fs_db s) else fs_db s)
        (closed_fds s fd) (closed_locks s fd (fe_inode x)) (fs_watchers s) s' \<Longrightarrow> Q () s'"
  shows "wp (fs_close_fd fd) Q E s"
proof (cases "fdtable_get fd (fs_fdtable s)")
  case (Inl e)
  then have "fdtable_close fd (fs_fdtable s) = (Inl e, fs_fdtable s)"
    by (auto simp: fdtable_get_def fdtable_close_def split: option.splits)
  then show ?thesis using bad[OF _ Inl, of s]
    by (simp add: fs_close_fd_def wp_def bindE_def of_result_def outcome_defs)
next
  case (Inr x)
  let ?i = "fe_inode x"
  have "fdtable_close fd (fs_fdtable s) = (Inr ?i, closed_fds s fd)"
    using Inr by (auto simp: fdtable_get_def fdtable_close_def closed_fds_def split: option.splits)
  then have start: "wp (fs_close_fd fd) Q E s
      = wp (bindE (db_op (nodes_get ?i)) (\<lambda>row. bindE (gets (\<lambda>s. open_count ?i (fs_fdtable s))) (\<lambda>n.
          if nr_nlink row = 0 \<and> n = 0 then db_op (nodes_delete ?i) else ret ()))) Q E
          (s\<lparr>fs_fdtable := closed_fds s fd, fs_locks := closed_locks s fd ?i\<rparr>)"
    by (simp add: fs_close_fd_def wp_def bindE_def of_result_def modify_def closed_locks_def)
  show ?thesis unfolding start using Inr
    by (auto simp: wp_eqs op_defs close_deletes_def intro!: op_rules wp_nodes_delete late[OF Inr] Q[OF Inr])
qed

section \<open>Reading the tree\<close>

lemma wp_fs_stat:
  assumes "tree (c_db c)"
    and "\<And>t e. lookup (c_db c) path = Inl e \<or> \<not> reliable c \<Longrightarrow> E (Fail e) (c\<lparr>c_tick := t\<rparr>)"
    and "\<And>t i cols. lookup (c_db c) path = Inr i \<Longrightarrow> node_of (c_db c) i = Some cols
      \<Longrightarrow> Q (stat_of_row (node_row i cols)) (c\<lparr>c_tick := t\<rparr>)"
  shows "wp (fs_stat path) Q E c"
proof -
  have "lookup (c_db c) path = Inr i \<Longrightarrow> node_of (c_db c) i \<noteq> None" for i
    using walk_node[OF assms(1)] by (auto simp: lookup_def split: sum.splits)
  then show ?thesis using assms(2,3) unfolding fs_stat_def by (auto simp: wp_eqs intro!: op_rules)
qed

definition dir_list :: "db \<Rightarrow> inode \<Rightarrow> dir_entry list" where
  "dir_list d i = map (\<lambda>e. \<lparr>de_name = er_name e, de_kind = (case node_of d (er_inode e) of Some cols \<Rightarrow> n_kind cols),
     de_inode = er_inode e\<rparr>) (sort_key er_name (rows_under d i))"

definition readdir_check :: "filesystem \<Rightarrow> string \<Rightarrow> error + inode" where
  "readdir_check s path =
     (case lookup (fs_db s) path of
        Inl e \<Rightarrow> Inl e
      | Inr i \<Rightarrow>
          (case node_of (fs_db s) i of
             None \<Rightarrow> Inl NotFound
           | Some cols \<Rightarrow> if n_kind cols \<noteq> Dir then Inl NotADirectory
                          else if grants s cols ACCESS_R then Inr i else Inl PermissionDenied))"

lemma readdir_check_Inr:
  "readdir_check s path = Inr i \<longleftrightarrow> lookup (fs_db s) path = Inr i
     \<and> (\<exists>cols. node_of (fs_db s) i = Some cols \<and> n_kind cols = Dir \<and> grants s cols ACCESS_R)"
  by (auto simp: readdir_check_def split: split_outcome)

lemma wp_list_children:
  assumes "\<forall>e\<in>set es. node_of (fs_db s) (er_inode e) \<noteq> None"
    and E: "\<And>e s'. fs_quiet s s' \<Longrightarrow> \<not> reliable (fs_conn s) \<Longrightarrow> E (Fail e) s'"
    and Q: "\<And>s'. fs_quiet s s' \<Longrightarrow> Q (map (\<lambda>e. \<lparr>de_name = er_name e,
      de_kind = (case node_of (fs_db s) (er_inode e) of Some cols \<Rightarrow> n_kind cols), de_inode = er_inode e\<rparr>) es) s'"
  shows "wp (map_each es (\<lambda>e. bindE (db_op (nodes_get (er_inode e))) (\<lambda>child.
    ret \<lparr>de_name = er_name e, de_kind = nr_kind child, de_inode = er_inode e\<rparr>))) Q E s"
  using assms
proof (induction es arbitrary: s Q)
  case Nil
  then show ?case by (simp add: wp_eqs outcome_defs)
next
  case (Cons e es)
  then obtain cols where cols: "node_of (fs_db s) (er_inode e) = Some cols" by auto
  have "wp (map_each es (\<lambda>e. bindE (db_op (nodes_get (er_inode e))) (\<lambda>child.
      ret \<lparr>de_name = er_name e, de_kind = nr_kind child, de_inode = er_inode e\<rparr>)))
      (\<lambda>ys. Q (\<lparr>de_name = er_name e, de_kind = n_kind cols, de_inode = er_inode e\<rparr> # ys)) E
      (s\<lparr>fs_conn := (fs_conn s)\<lparr>c_tick := t\<rparr>\<rparr>)" for t
    by (rule Cons.IH) (use Cons.prems cols in \<open>auto simp: outcome_defs\<close>)
  then show ?case using Cons.prems(2) cols by (auto simp: wp_eqs outcome_defs intro!: wp_nodes_get)
qed

lemma wp_fs_readdir:
  assumes inv: "fs_inv s"
    and E: "\<And>e s'. fs_quiet s s' \<Longrightarrow> readdir_check s path = Inl e \<or> \<not> reliable (fs_conn s) \<Longrightarrow> E (Fail e) s'"
    and Q: "\<And>s' i. readdir_check s path = Inr i \<Longrightarrow> fs_quiet s s' \<Longrightarrow> Q (dir_list (fs_db s) i) s'"
  shows "wp (fs_readdir path) Q E s"
proof (cases "readdir_check s path")
  case (Inl e)
  then show ?thesis
    by (auto simp: fs_readdir_def wp_eqs op_defs readdir_check_def intro!: op_rules E)
next
  case (Inr i)
  have child: "\<forall>e\<in>set (sort_key er_name (rows_under (fs_db s) i)). node_of (fs_db s) (er_inode e) \<noteq> None"
    using tree_entryD[OF inv_tree[OF inv]] tree_keys[OF inv_tree[OF inv]]
    by (fastforce simp: rows_under_def wf_keys_def entry_in_table)
  show ?thesis using Inr[unfolded readdir_check_Inr] child
    by (auto simp: fs_readdir_def wp_eqs op_defs
        intro!: op_rules wp_entries_list wp_list_children E Q[OF Inr, unfolded dir_list_def])
qed

end
