(* ===== verification/Fs_Attr.thy ===== *)
theory Fs_Attr
  imports Fs_Files
begin

text \<open>
  The operations of \<open>fs.rs\<close> on attributes and extended attributes, the lock calls, \<open>watch\<close>,
  \<open>readlink\<close> and the synchronisation calls, in the form of \<open>Fs_Ops\<close>.
\<close>

section \<open>Attributes\<close>

text \<open>\<open>chmod\<close> and \<open>utimes\<close> are for the owner and root; \<open>chown\<close> to another user is for root.\<close>

definition node_check :: "filesystem \<Rightarrow> string \<Rightarrow> (node_cols \<Rightarrow> bool) \<Rightarrow> error + inode" where
  "node_check s path allowed =
     (case lookup (fs_db s) path of
        Inl e \<Rightarrow> Inl e
      | Inr i \<Rightarrow> (case node_of (fs_db s) i of None \<Rightarrow> Inl NotFound
                 | Some cols \<Rightarrow> if allowed cols then Inr i else Inl PermissionDenied))"

lemma node_check_Inr:
  "node_check s path allowed = Inr i \<longleftrightarrow> lookup (fs_db s) path = Inr i
     \<and> (\<exists>cols. node_of (fs_db s) i = Some cols \<and> allowed cols)"
  by (auto simp: node_check_def split: split_outcome)

definition owner_check :: "filesystem \<Rightarrow> string \<Rightarrow> error + inode" where
  "owner_check s path = (if fs_readonly s then Inl ReadOnlyFilesystem
     else node_check s path (\<lambda>cols. fs_caller_uid s = 0 \<or> fs_caller_uid s = n_uid cols))"

definition chown_check :: "filesystem \<Rightarrow> string \<Rightarrow> u32 option \<Rightarrow> u32 option \<Rightarrow> error + inode" where
  "chown_check s path u g = (if fs_readonly s then Inl ReadOnlyFilesystem
     else node_check s path (\<lambda>cols. fs_caller_uid s = 0
       \<or> (u = None \<or> u = Some (n_uid cols)) \<and> (g = None \<or> fs_caller_uid s = n_uid cols)))"

text \<open>An update of one node, and the event about it.\<close>

definition node_updated :: "filesystem \<Rightarrow> string \<Rightarrow> inode \<Rightarrow> (node_cols \<Rightarrow> node_cols) \<Rightarrow> filesystem \<Rightarrow> bool" where
  "node_updated s path i f s' \<longleftrightarrow> (\<exists>cols. node_of (fs_db s) i = Some cols
     \<and> becomes s (map_node i f (fs_db s)) (fs_fdtable s) (fs_locks s)
         (notify Metadata path (n_kind cols) i None None (now2 s) (fs_watchers s)) s')"

lemma wp_fs_chmod:
  assumes E: "\<And>e s'. fs_quiet s s' \<Longrightarrow> owner_check s path = Inl e \<or> \<not> reliable (fs_conn s) \<Longrightarrow> E (Fail e) s'"
    and Q: "\<And>s' i. owner_check s path = Inr i \<Longrightarrow>
      node_updated s path i (set_owner_cols (Some (mode AND 0xFFF)) None None (now1 s)) s' \<Longrightarrow> Q () s'"
  shows "wp (fs_chmod path mode) Q E s"
proof (cases "owner_check s path")
  case (Inl e)
  then show ?thesis
    by (auto simp: fs_chmod_def wp_eqs op_defs owner_check_def node_check_def
        intro!: op_rules wp_update_mode_uid_gid E)
next
  case (Inr i)
  then obtain cols where "node_of (fs_db s) i = Some cols" "\<not> fs_readonly s" "lookup (fs_db s) path = Inr i"
    and "fs_caller_uid s = 0 \<or> n_uid cols = fs_caller_uid s"
    by (auto simp: owner_check_def node_check_Inr split: if_splits)
  then show ?thesis
    by (auto simp: fs_chmod_def wp_eqs op_defs intro!: op_rules wp_update_mode_uid_gid E)
      (rule Q[OF Inr]; simp add: node_updated_def op_defs)+
qed

lemma wp_fs_utimes:
  assumes E: "\<And>e s'. fs_quiet s s' \<Longrightarrow> owner_check s path = Inl e \<or> \<not> reliable (fs_conn s) \<Longrightarrow> E (Fail e) s'"
    and Q: "\<And>s' i. owner_check s path = Inr i \<Longrightarrow>
      node_updated s path i (set_time_cols a m (Some (now1 s))) s' \<Longrightarrow> Q () s'"
  shows "wp (fs_utimes path a m) Q E s"
proof (cases "owner_check s path")
  case (Inl e)
  then show ?thesis
    by (auto simp: fs_utimes_def wp_eqs op_defs owner_check_def node_check_def
        intro!: op_rules wp_update_times E)
next
  case (Inr i)
  then obtain cols where "node_of (fs_db s) i = Some cols" "\<not> fs_readonly s" "lookup (fs_db s) path = Inr i"
    and "fs_caller_uid s = 0 \<or> n_uid cols = fs_caller_uid s"
    by (auto simp: owner_check_def node_check_Inr split: if_splits)
  then show ?thesis
    by (auto simp: fs_utimes_def wp_eqs op_defs intro!: op_rules wp_update_times E)
      (rule Q[OF Inr]; simp add: node_updated_def op_defs)+
qed

lemma wp_fs_chown:
  assumes E: "\<And>e s'. fs_quiet s s' \<Longrightarrow> chown_check s path u g = Inl e \<or> \<not> reliable (fs_conn s) \<Longrightarrow> E (Fail e) s'"
    and Q: "\<And>s' i. chown_check s path u g = Inr i \<Longrightarrow>
      node_updated s path i (set_owner_cols None u g (now1 s)) s' \<Longrightarrow> Q () s'"
  shows "wp (fs_chown path u g) Q E s"
proof (cases "chown_check s path u g")
  case (Inl e)
  then show ?thesis
    by (auto simp: fs_chown_def wp_eqs op_defs chown_check_def node_check_def split: option.splits
        intro!: op_rules wp_update_mode_uid_gid E)
next
  case (Inr i)
  then obtain cols where cols: "node_of (fs_db s) i = Some cols" "\<not> fs_readonly s" "lookup (fs_db s) path = Inr i"
    and "fs_caller_uid s = 0 \<or> (u = None \<or> u = Some (n_uid cols)) \<and> (g = None \<or> n_uid cols = fs_caller_uid s)"
    by (auto simp: chown_check_def node_check_Inr split: if_splits)
  then show ?thesis
    by (cases u; cases g; cases "fs_caller_uid s = 0")
      (auto simp: fs_chown_def wp_eqs op_defs intro!: op_rules wp_update_mode_uid_gid E;
       rule Q[OF Inr]; simp add: node_updated_def op_defs)+
qed

section \<open>Extended attributes\<close>

definition xattr_check :: "filesystem \<Rightarrow> string \<Rightarrow> access \<Rightarrow> error + inode" where
  "xattr_check s path a = (if a = ACCESS_W \<and> fs_readonly s then Inl ReadOnlyFilesystem
     else node_check s path (\<lambda>cols. grants s cols a))"

definition setxattr_check :: "filesystem \<Rightarrow> string \<Rightarrow> string \<Rightarrow> byte list \<Rightarrow> u32 \<Rightarrow> error + inode" where
  "setxattr_check s path name v flags =
     (case xattr_check s path ACCESS_W of
        Inl e \<Rightarrow> Inl e
      | Inr i \<Rightarrow>
          (case validate_name name (fs_caller_uid s) of
             Inl e \<Rightarrow> Inl e
           | Inr _ \<Rightarrow>
               (case validate_value v of
                  Inl e \<Rightarrow> Inl e
                | Inr _ \<Rightarrow>
                    if xattr_flag flags XATTR_CREATE \<and> xattr_of (fs_db s) i name \<noteq> None then Inl AlreadyExists
                    else if xattr_flag flags XATTR_REPLACE \<and> xattr_of (fs_db s) i name = None then Inl NotFound
                    else Inr i)))"

lemma wp_fs_setxattr:
  assumes E: "\<And>e s'. fs_quiet s s' \<Longrightarrow> setxattr_check s path name v flags = Inl e \<or> \<not> reliable (fs_conn s)
      \<Longrightarrow> E (Fail e) s'"
    and late: "\<And>e s' i d'. setxattr_check s path name v flags = Inr i \<Longrightarrow> \<not> reliable (fs_conn s) \<Longrightarrow>
      node_of (fs_db s) i \<noteq> None \<Longrightarrow> xattr_stored i name v (fs_db s) d' \<Longrightarrow>
      becomes s d' (fs_fdtable s) (fs_locks s) (fs_watchers s) s' \<Longrightarrow> E (Fail e) s'"
    and Q: "\<And>s' i d' cols. setxattr_check s path name v flags = Inr i \<Longrightarrow> node_of (fs_db s) i = Some cols \<Longrightarrow>
      xattr_stored i name v (fs_db s) d' \<Longrightarrow>
      becomes s (map_node i (set_time_cols None None (Some (now1 s))) d') (fs_fdtable s) (fs_locks s)
        (notify Metadata path (n_kind cols) i None None (now2 s) (fs_watchers s)) s' \<Longrightarrow> Q () s'"
  shows "wp (fs_setxattr path name v flags) Q E s"
proof (cases "setxattr_check s path name v flags")
  case (Inl e)
  then show ?thesis
    by (auto simp: fs_setxattr_def wp_eqs op_defs setxattr_check_def xattr_check_def node_check_def
        split: sum.split intro!: op_rules wp_xattrs_set E)
next
  case (Inr i)
  then obtain cols where cols: "node_of (fs_db s) i = Some cols"
    and ok: "\<not> fs_readonly s" "lookup (fs_db s) path = Inr i"
    "grants s cols ACCESS_W" "validate_name name (fs_caller_uid s) = Inr ()" "validate_value v = Inr ()"
    and flags: "\<not> (xattr_flag flags XATTR_CREATE \<and> xattr_of (fs_db s) i name \<noteq> None)"
    "\<not> (xattr_flag flags XATTR_REPLACE \<and> xattr_of (fs_db s) i name = None)"
    by (auto simp: setxattr_check_def xattr_check_def node_check_Inr split: split_outcome)
  have err: "E (Fail e) s'" if "\<not> reliable (fs_conn s)"
    and "fs_db s' = fs_db s \<or> xattr_stored i name v (fs_db s) (fs_db s')"
    and "becomes s (fs_db s') (fs_fdtable s) (fs_locks s) (fs_watchers s) s'" for e s'
    using that E[of s' e] late[OF Inr, of "fs_db s'" s' e] cols by (auto simp: fs_quiet_becomes)
  have Q': "Q () s'" if "xattr_stored i name v (fs_db s) d'"
    and "becomes s (map_node i (set_time_cols None None (Some (now1 s))) d') (fs_fdtable s) (fs_locks s)
        (notify Metadata path (n_kind cols) i None None (now2 s) (fs_watchers s)) s'" for d' s'
    by (rule Q[OF Inr cols that])
  show ?thesis
    using cols ok flags
    by (cases "xattr_of (fs_db s) i name")
      (auto simp: fs_setxattr_def wp_eqs op_defs intro!: op_rules wp_xattrs_set wp_update_times err;
       rule Q'; simp add: op_defs)+
qed


definition removexattr_check :: "filesystem \<Rightarrow> string \<Rightarrow> string \<Rightarrow> error + inode" where
  "removexattr_check s path name =
     (case xattr_check s path ACCESS_W of
        Inl e \<Rightarrow> Inl e
      | Inr i \<Rightarrow> if xattr_of (fs_db s) i name = None then Inl NotFound else Inr i)"

lemma wp_fs_removexattr:
  assumes E: "\<And>e s'. fs_quiet s s' \<Longrightarrow> removexattr_check s path name = Inl e \<or> \<not> reliable (fs_conn s)
      \<Longrightarrow> E (Fail e) s'"
    and late: "\<And>e s' i. removexattr_check s path name = Inr i \<Longrightarrow> \<not> reliable (fs_conn s) \<Longrightarrow>
      node_of (fs_db s) i \<noteq> None \<Longrightarrow>
      becomes s (del_xattr i name (fs_db s)) (fs_fdtable s) (fs_locks s) (fs_watchers s) s' \<Longrightarrow> E (Fail e) s'"
    and Q: "\<And>s' i cols. removexattr_check s path name = Inr i \<Longrightarrow> node_of (fs_db s) i = Some cols \<Longrightarrow>
      becomes s (map_node i (set_time_cols None None (Some (now1 s))) (del_xattr i name (fs_db s)))
        (fs_fdtable s) (fs_locks s) (notify Metadata path (n_kind cols) i None None (now2 s) (fs_watchers s)) s'
      \<Longrightarrow> Q () s'"
  shows "wp (fs_removexattr path name) Q E s"
proof (cases "removexattr_check s path name")
  case (Inl e)
  then show ?thesis
    by (auto simp: fs_removexattr_def wp_eqs op_defs removexattr_check_def xattr_check_def node_check_def
        intro!: op_rules wp_xattrs_remove E)
next
  case (Inr i)
  then obtain cols where cols: "node_of (fs_db s) i = Some cols"
    and ok: "\<not> fs_readonly s" "lookup (fs_db s) path = Inr i" "grants s cols ACCESS_W"
    "xattr_of (fs_db s) i name \<noteq> None"
    by (auto simp: removexattr_check_def xattr_check_def node_check_Inr split: split_outcome)
  have err: "E (Fail e) s'" if "\<not> reliable (fs_conn s)" and "fs_db s' = fs_db s \<or> fs_db s' = del_xattr i name (fs_db s)"
    and "becomes s (fs_db s') (fs_fdtable s) (fs_locks s) (fs_watchers s) s'" for e s'
    using that E[of s' e] late[OF Inr, of s' e] cols by (auto simp: fs_quiet_becomes)
  show ?thesis
    using cols ok
    by (auto simp: fs_removexattr_def wp_eqs op_defs
        intro!: op_rules wp_xattrs_remove wp_update_times err Q[OF Inr cols])
qed

lemma wp_fs_getxattr:
  assumes E: "\<And>e s'. fs_quiet s s' \<Longrightarrow> E (Fail e) s'"
    and Q: "\<And>s' i v. xattr_check s path ACCESS_R = Inr i \<Longrightarrow> xattr_of (fs_db s) i name = Some v \<Longrightarrow>
      fs_quiet s s' \<Longrightarrow> Q v s'"
  shows "wp (fs_getxattr path name) Q E s"
proof (cases "xattr_check s path ACCESS_R")
  case (Inl e)
  then show ?thesis
    by (auto simp: fs_getxattr_def wp_eqs op_defs xattr_check_def node_check_def ACCESS_R_def ACCESS_W_def
        intro!: op_rules wp_xattrs_get E)
next
  case (Inr i)
  then obtain cols where "node_of (fs_db s) i = Some cols" "lookup (fs_db s) path = Inr i" "grants s cols ACCESS_R"
    by (auto simp: xattr_check_def node_check_Inr split: split_outcome)
  then show ?thesis
    by (auto simp: fs_getxattr_def wp_eqs op_defs intro!: op_rules wp_xattrs_get E Q[OF Inr])
qed

lemma wp_fs_listxattr:
  assumes E: "\<And>e s'. fs_quiet s s' \<Longrightarrow> E (Fail e) s'"
    and Q: "\<And>s' i. xattr_check s path ACCESS_R = Inr i \<Longrightarrow> fs_quiet s s' \<Longrightarrow> Q (sort (xattr_names (fs_db s) i)) s'"
  shows "wp (fs_listxattr path) Q E s"
proof (cases "xattr_check s path ACCESS_R")
  case (Inl e)
  then show ?thesis
    by (auto simp: fs_listxattr_def wp_eqs op_defs xattr_check_def node_check_def ACCESS_R_def ACCESS_W_def
        intro!: op_rules wp_xattrs_list_names E)
next
  case (Inr i)
  then obtain cols where "node_of (fs_db s) i = Some cols" "lookup (fs_db s) path = Inr i" "grants s cols ACCESS_R"
    by (auto simp: xattr_check_def node_check_Inr split: split_outcome)
  then show ?thesis
    by (auto simp: fs_listxattr_def wp_eqs op_defs intro!: op_rules wp_xattrs_list_names E Q[OF Inr])
qed

lemma wp_fs_readlink:
  assumes "\<And>t e. E (Fail e) (c\<lparr>c_tick := t\<rparr>)"
    and "\<And>t i v. lookup (c_db c) path = Inr i \<Longrightarrow> has_kind (c_db c) i Symlink \<Longrightarrow> symlink_of (c_db c) i = Some v
      \<Longrightarrow> Q v (c\<lparr>c_tick := t\<rparr>)"
  shows "wp (fs_readlink path) Q E c"
  unfolding fs_readlink_def using assms(1)
  by (auto simp: wp_eqs intro!: op_rules wp_symlinks_get) (rule assms(2), auto simp: has_kind_def)

section \<open>Locks, watches and synchronisation\<close>

text \<open>The lock calls run the lock manager on the inode of the descriptor and touch nothing else.\<close>

lemma wp_with_locks [wp_eqs]:
  "wp (with_locks fd f) Q E s =
    (case fdtable_get fd (fs_fdtable s) of
       Inl e \<Rightarrow> E (Fail e) s
     | Inr x \<Rightarrow> (case f (fe_inode x) (fs_locks s) of
                  (Inl e, m) \<Rightarrow> E (Fail e) (s\<lparr>fs_locks := m\<rparr>)
                | (Inr _, m) \<Rightarrow> Q () (s\<lparr>fs_locks := m\<rparr>)))"
  by (auto simp: with_locks_def wp_bindE wp_get_fd split: sum.split)
    (auto simp: wp_def of_result_def split: prod.split sum.split)

lemma wp_fs_watch:
  assumes E: "\<And>e s'. fs_quiet s s' \<Longrightarrow> readdir_check s path = Inl e \<or> \<not> reliable (fs_conn s) \<Longrightarrow> E (Fail e) s'"
    and Q: "\<And>s' i. readdir_check s path = Inr i \<Longrightarrow>
      becomes s (fs_db s) (fs_fdtable s) (fs_locks s) (snd (subscribe path recursive (fs_watchers s))) s' \<Longrightarrow>
      Q (fst (subscribe path recursive (fs_watchers s))) s'"
  shows "wp (fs_watch path recursive) Q E s"
proof (cases "readdir_check s path")
  case (Inl e)
  then show ?thesis
    by (auto simp: fs_watch_def wp_eqs op_defs readdir_check_def intro!: op_rules E)
next
  case (Inr i)
  have sub: "wp (\<lambda>s. case subscribe path recursive (fs_watchers s) of (sid, reg) \<Rightarrow> (Inr sid, s\<lparr>fs_watchers := reg\<rparr>)) Q E s'
      = Q (fst (subscribe path recursive (fs_watchers s'))) (s'\<lparr>fs_watchers := snd (subscribe path recursive (fs_watchers s'))\<rparr>)"
    for s' by (simp add: wp_def split: prod.split)
  show ?thesis using Inr[unfolded readdir_check_Inr]
    by (auto simp: fs_watch_def wp_eqs op_defs sub intro!: op_rules E Q[OF Inr])
qed

lemma wp_wal_checkpoint:
  assumes "\<And>t. \<not> reliable c \<Longrightarrow> E (Fail (Sqlite IoFault)) (c\<lparr>c_tick := t\<rparr>)" and "\<And>t. Q () (c\<lparr>c_tick := t\<rparr>)"
  shows "wp wal_checkpoint Q E c"
  unfolding wal_checkpoint_def by (rule wp_stmt) (use assms(1) assms(2)[of "_"] in \<open>auto\<close>)

lemma wp_fs_fsync:
  assumes "\<And>e s'. fs_quiet s s' \<Longrightarrow> E (Fail e) s'" and "\<And>s'. fs_quiet s s' \<Longrightarrow> Q () s'"
  shows "wp (fs_fsync fd) Q E s" and "wp (fs_fsyncdir path) Q E s" and "wp (fs_flush fd) Q E s"
  using assms
  by (auto simp: fs_fsync_def fs_fsyncdir_def fs_flush_def wp_eqs op_defs intro!: op_rules wp_wal_checkpoint
      split: sum.split)

end
