(* ===== verification/Fs_History.thy ===== *)
theory Fs_History
  imports Fs_Attr
begin

text \<open>
  Histories of calls.  \<open>fs_call\<close> names the public methods of \<open>fs.rs\<close> and of a watcher with their
  arguments, \<open>run\<close> executes one, and \<open>call_effect\<close> is the abstract transition system: one rule for
  each thing that a call may do to the tables, the descriptors and the locks.  Every run is a
  transition (\<open>run_effect\<close>), for every pattern of engine failures, so that invariants are proved
  by cases on the transitions.
\<close>

section \<open>Calls\<close>

datatype name_call =
    CallMkdir string u32 | CallRmdir string | CallUnlink string | CallSymlink "byte list" string
  | CallLink string string | CallRename string string

datatype file_call =
    CallCreate string u32 u32 | CallOpen string u32 | CallWrite u64 u64 "byte list" | CallRead u64 u64 u64
  | CallClose u64

datatype attr_call =
    CallChmod string u32 | CallChown string "u32 option" "u32 option" | CallUtimes string "int option" "int option"
  | CallSetxattr string string "byte list" u32 | CallRemovexattr string string

datatype query_call =
    CallStat string | CallReaddir string | CallReadlink string | CallGetxattr string string | CallListxattr string
  | CallPathOf inode | CallPosixGetlk u64 int u64 u64 | CallOfdGetlk u64 u64 u64

datatype lock_call =
    CallPosixLock u64 int lock_op u64 u64 bool | CallOfdLock u64 lock_op u64 u64 bool | CallFlock u64 flock_op bool

datatype other_call =
    CallFlush u64 | CallFsync u64 | CallFsyncdir string | CallWatch string bool | CallRecv u64 | CallDrop u64

datatype fs_call =
    Names name_call | Files file_call | Attrs attr_call | Queries query_call | Locks lock_call | Others other_call
  | CallAsUser u32 u32 fs_call

datatype reply =
    ReUnit | ReFd u64 | ReSize u64 | ReBytes "byte list" | ReStat stat | ReEntries "dir_entry list"
  | ReNames "string list" | ReQuery "lock_query option" | RePath "string option" | ReEvent "event option"

definition reply :: "('a \<Rightarrow> reply) \<Rightarrow> 'a fs \<Rightarrow> reply fs" where
  "reply f m = bindE m (\<lambda>x. ret (f x))"

abbreviation finish :: "unit fs \<Rightarrow> reply fs" where
  "finish \<equiv> reply (\<lambda>_. ReUnit)"

fun run_name :: "name_call \<Rightarrow> reply fs" where
  "run_name (CallMkdir path mode) = finish (fs_mkdir path mode)"
| "run_name (CallRmdir path) = finish (fs_rmdir path)"
| "run_name (CallUnlink path) = finish (fs_unlink path)"
| "run_name (CallSymlink target path) = finish (fs_symlink target path)"
| "run_name (CallLink target path) = finish (fs_link target path)"
| "run_name (CallRename src dst) = finish (fs_rename src dst)"

fun run_file :: "file_call \<Rightarrow> reply fs" where
  "run_file (CallCreate path flags mode) = reply ReFd (fs_create path flags mode)"
| "run_file (CallOpen path flags) = reply ReFd (fs_open path flags)"
| "run_file (CallWrite fd offset data) = reply ReSize (fs_write_fd fd offset data)"
| "run_file (CallRead fd offset len) = reply ReBytes (fs_read_fd fd offset len)"
| "run_file (CallClose fd) = finish (fs_close_fd fd)"

fun run_attr :: "attr_call \<Rightarrow> reply fs" where
  "run_attr (CallChmod path mode) = finish (fs_chmod path mode)"
| "run_attr (CallChown path u g) = finish (fs_chown path u g)"
| "run_attr (CallUtimes path a m) = finish (fs_utimes path a m)"
| "run_attr (CallSetxattr path name v flags) = finish (fs_setxattr path name v flags)"
| "run_attr (CallRemovexattr path name) = finish (fs_removexattr path name)"

fun run_query :: "query_call \<Rightarrow> reply fs" where
  "run_query (CallStat path) = reply ReStat (db_op (fs_stat path))"
| "run_query (CallReaddir path) = reply ReEntries (fs_readdir path)"
| "run_query (CallReadlink path) = reply ReBytes (db_op (fs_readlink path))"
| "run_query (CallGetxattr path name) = reply ReBytes (fs_getxattr path name)"
| "run_query (CallListxattr path) = reply ReNames (fs_listxattr path)"
| "run_query (CallPathOf i) = reply RePath (db_op (path_of_inode i))"
| "run_query (CallPosixGetlk fd pid start len) = reply ReQuery (fs_posix_getlk fd pid start len)"
| "run_query (CallOfdGetlk fd start len) = reply ReQuery (fs_ofd_getlk fd start len)"

fun run_lock :: "lock_call \<Rightarrow> reply fs" where
  "run_lock (CallPosixLock fd pid lk_op start len wait) = finish (fs_posix_lock fd pid lk_op start len wait)"
| "run_lock (CallOfdLock fd lk_op start len wait) = finish (fs_ofd_lock fd lk_op start len wait)"
| "run_lock (CallFlock fd fl_op wait) = finish (fs_flock fd fl_op wait)"

fun run_other :: "other_call \<Rightarrow> reply fs" where
  "run_other (CallFlush fd) = finish (fs_flush fd)"
| "run_other (CallFsync fd) = finish (fs_fsync fd)"
| "run_other (CallFsyncdir path) = finish (fs_fsyncdir path)"
| "run_other (CallWatch path recursive) = reply ReSize (fs_watch path recursive)"
| "run_other (CallRecv sid) = reply ReEvent (\<lambda>s. case watcher_try_recv sid (fs_watchers s) of
     (ev, reg) \<Rightarrow> (Inr ev, s\<lparr>fs_watchers := reg\<rparr>))"
| "run_other (CallDrop sid) = finish (modify (\<lambda>s. s\<lparr>fs_watchers := watcher_drop sid (fs_watchers s)\<rparr>))"

fun run :: "fs_call \<Rightarrow> reply fs" where
  "run (Names c) = run_name c"
| "run (Files c) = run_file c"
| "run (Attrs c) = run_attr c"
| "run (Queries c) = run_query c"
| "run (Locks c) = run_lock c"
| "run (Others c) = run_other c"
| "run (CallAsUser u g c) = as_user u g (run c)"

text \<open>
  The bounds within which the theorems hold: file offsets below the largest \<open>i64\<close>, lock ranges
  that do not wrap around 64 bits, and a descriptor counter that has not run out.
\<close>

fun file_call_ok :: "filesystem \<Rightarrow> file_call \<Rightarrow> bool" where
  "file_call_ok s (CallCreate path flags mode) \<longleftrightarrow> \<not> fdtable_full (fs_fdtable s)"
| "file_call_ok s (CallOpen path flags) \<longleftrightarrow> \<not> fdtable_full (fs_fdtable s)"
| "file_call_ok s (CallWrite fd offset data) \<longleftrightarrow> unat offset + length data < 2 ^ 63"
| "file_call_ok s (CallRead fd offset len) \<longleftrightarrow> unat offset + unat len < 2 ^ 64"
| "file_call_ok s (CallClose fd) \<longleftrightarrow> True"

fun lock_call_ok :: "lock_call \<Rightarrow> bool" where
  "lock_call_ok (CallPosixLock fd pid lk_op start len wait) \<longleftrightarrow> ok_range start len"
| "lock_call_ok (CallOfdLock fd lk_op start len wait) \<longleftrightarrow> ok_range start len"
| "lock_call_ok (CallFlock fd fl_op wait) \<longleftrightarrow> True"

fun call_ok :: "filesystem \<Rightarrow> fs_call \<Rightarrow> bool" where
  "call_ok s (Files c) \<longleftrightarrow> file_call_ok s c"
| "call_ok s (Locks c) \<longleftrightarrow> lock_call_ok c"
| "call_ok s (CallAsUser u g c) \<longleftrightarrow> call_ok s c"
| "call_ok s _ \<longleftrightarrow> True"

section \<open>Transitions\<close>

text \<open>An update leaves the owner and the mode as they are, or the caller is the owner or root.\<close>

definition owner_guard :: "filesystem \<Rightarrow> inode \<Rightarrow> (node_cols \<Rightarrow> node_cols) \<Rightarrow> bool" where
  "owner_guard s i f \<longleftrightarrow> (\<forall>n. node_of (fs_db s) i = Some n \<longrightarrow> fs_caller_uid s = 0 \<or> fs_caller_uid s = n_uid n
     \<or> n_mode (f n) = n_mode n \<and> n_uid (f n) = n_uid n \<and> n_gid (f n) = n_gid n)"

text \<open>What may become of the tables.\<close>

inductive db_effect :: "filesystem \<Rightarrow> db \<Rightarrow> bool" for s :: filesystem where
  same: "db_effect s (fs_db s)"
| mkdir: "add_check s path = Inr (p, n) \<Longrightarrow> valid_component n \<Longrightarrow> room (fs_db s)
    \<Longrightarrow> db_effect s (mkdir_db p n m u g now (fs_db s))"
| symlink: "add_check s path = Inr (p, n) \<Longrightarrow> valid_component n \<Longrightarrow> room (fs_db s)
    \<Longrightarrow> db_effect s (symlink_db x p n u g now (fs_db s))"
| link: "link_check s target path = Inr (p, n, i) \<Longrightarrow> valid_component n \<Longrightarrow> length (t_entries (fs_db s)) < 2 ^ 63 - 1
    \<Longrightarrow> db_effect s (link_db p n i now (fs_db s))"
| rmdir: "rmdir_check s path = Inr (p, n, i) \<Longrightarrow> db_effect s (rmdir_db p n i now (fs_db s))"
| rename: "renames s src dst sp sn p n i k \<Longrightarrow> renamed k i sp sn p n now (fs_db s) d' \<Longrightarrow> db_effect s d'"
| written: "write_check s fd = Inr i \<Longrightarrow> node_of (fs_db s) i = Some cols \<Longrightarrow> unat offset + length data < 2 ^ 63
    \<Longrightarrow> write_db i (fs_chunk_size s) (unat offset) data (new_size cols offset data) now (fs_db s) d' \<Longrightarrow> db_effect s d'"
| updated: "\<not> fs_readonly s \<Longrightarrow> node_of (fs_db s) i \<noteq> None \<Longrightarrow> (\<And>n. n_kind (f n) = n_kind n) \<Longrightarrow> (\<And>n. n_size (f n) = n_size n)
    \<Longrightarrow> (\<And>n. n_nlink (f n) = n_nlink n) \<Longrightarrow> owner_guard s i f
    \<Longrightarrow> d \<in> {fs_db s, put_xattr i name v (fs_db s), set_xattr i name v (fs_db s), del_xattr i name (fs_db s)}
    \<Longrightarrow> db_effect s (map_node i f d)"

text \<open>The transitions of the whole state; the watchers' queues are left open.\<close>

inductive call_effect :: "filesystem \<Rightarrow> filesystem \<Rightarrow> bool" where
  tables: "db_effect s d \<Longrightarrow> becomes s d (fs_fdtable s) (fs_locks s) w s' \<Longrightarrow> call_effect s s'"
| created: "add_check s path = Inr (p, n) \<Longrightarrow> valid_component n \<Longrightarrow> room (fs_db s) \<Longrightarrow> \<not> fdtable_full (fs_fdtable s)
    \<Longrightarrow> becomes s (create_db p n m u g now (fs_db s)) (snd (opened s (next_inode (fs_db s)) flags)) (fs_locks s) w s'
    \<Longrightarrow> call_effect s s'"
| opens: "entry_of (fs_db s) p n = Some i \<Longrightarrow> open_check s i flags = Inr i
    \<Longrightarrow> d' = fs_db s \<or> \<not> fs_readonly s \<and> flags AND O_TRUNC \<noteq> 0 \<and> trunc_db i (fs_chunk_size s) now (fs_db s) d'
    \<Longrightarrow> \<not> fdtable_full (fs_fdtable s) \<Longrightarrow> becomes s d' (snd (opened s i flags)) (fs_locks s) w s' \<Longrightarrow> call_effect s s'"
| closed: "fdtable_get fd (fs_fdtable s) = Inr x \<Longrightarrow> i = fe_inode x
    \<Longrightarrow> \<not> reliable (fs_conn s) \<or> \<not> close_deletes s fd i \<or> referenced (fs_db s) i
    \<Longrightarrow> becomes s (fs_db s) (closed_fds s fd) (closed_locks s fd i) w s' \<Longrightarrow> call_effect s s'"
| collected: "fdtable_get fd (fs_fdtable s) = Inr x \<Longrightarrow> i = fe_inode x
    \<Longrightarrow> close_deletes s fd i \<Longrightarrow> \<not> referenced (fs_db s) i
    \<Longrightarrow> becomes s (del_node i (fs_db s)) (closed_fds s fd) (closed_locks s fd i) w s' \<Longrightarrow> call_effect s s'"
| unlinked: "unlink_check s path = Inr (p, n, i) \<Longrightarrow> \<not> reliable (fs_conn s) \<or> \<not> last_link s i
      \<or> open_count i (fs_fdtable s) \<noteq> 0 \<or> referenced (unlink_db p n i now (fs_db s)) i
    \<Longrightarrow> becomes s (unlink_db p n i now (fs_db s)) (fs_fdtable s) (fs_locks s) w s' \<Longrightarrow> call_effect s s'"
| removed: "unlink_check s path = Inr (p, n, i) \<Longrightarrow> last_link s i \<Longrightarrow> open_count i (fs_fdtable s) = 0
    \<Longrightarrow> \<not> referenced (unlink_db p n i now (fs_db s)) i
    \<Longrightarrow> becomes s (del_node i (unlink_db p n i now (fs_db s))) (fs_fdtable s) (fs_locks s) w s' \<Longrightarrow> call_effect s s'"
| locking: "lock_step (fs_locks s) l \<or> l = fs_locks s \<Longrightarrow> becomes s (fs_db s) (fs_fdtable s) l w s' \<Longrightarrow> call_effect s s'"

text \<open>A call made through \<open>as_user\<close> is one of the other user; the caller is restored afterwards.\<close>

inductive fs_effect :: "filesystem \<Rightarrow> filesystem \<Rightarrow> bool" where
  own: "call_effect s s' \<Longrightarrow> fs_effect s s'"
| as_other: "fs_effect (s\<lparr>fs_caller_uid := u, fs_caller_gid := g\<rparr>) s'
    \<Longrightarrow> fs_effect s (s'\<lparr>fs_caller_uid := fs_caller_uid s, fs_caller_gid := fs_caller_gid s\<rparr>)"

lemma call_effect_quiet: "fs_quiet s s' \<Longrightarrow> call_effect s s'"
  unfolding fs_quiet_becomes by (rule call_effect.tables[OF db_effect.same])

lemma wp_reply [wp_eqs]: "wp (reply f m) Q E s = wp m (\<lambda>x. Q (f x)) E s"
  by (simp add: reply_def wp_eqs)

lemma wp_as_user [wp_eqs]:
  "wp (as_user u g m) Q E s = wp m (\<lambda>x s'. Q x (s'\<lparr>fs_caller_uid := fs_caller_uid s, fs_caller_gid := fs_caller_gid s\<rparr>))
    (\<lambda>e s'. E e (s'\<lparr>fs_caller_uid := fs_caller_uid s, fs_caller_gid := fs_caller_gid s\<rparr>))
    (s\<lparr>fs_caller_uid := u, fs_caller_gid := g\<rparr>)"
  by (auto simp: wp_def as_user_def split: prod.split sum.split)


lemma becomes_self: "same_env s s' \<Longrightarrow> becomes s (fs_db s') (fs_fdtable s') (fs_locks s') (fs_watchers s') s'"
  by (simp add: becomes_def)

text \<open>Each call, from its rule.\<close>

abbreviation to_effect :: "reply fs \<Rightarrow> filesystem \<Rightarrow> bool" where
  "to_effect m s \<equiv> wp m (\<lambda>_. call_effect s) (\<lambda>e s'. (\<exists>x. e = Fail x) \<and> call_effect s s') s"

lemma run_names:
  assumes inv: "fs_inv s"
  shows "to_effect (run_name (CallMkdir path mode)) s" "to_effect (run_name (CallSymlink x path)) s"
    "to_effect (run_name (CallLink target path)) s" "to_effect (run_name (CallRmdir path)) s"
  by (auto simp: wp_eqs intro: call_effect_quiet call_effect.tables db_effect.intros
      intro!: wp_fs_mkdir[OF inv] wp_fs_symlink[OF inv] wp_fs_link[OF inv] wp_fs_rmdir[OF inv])

lemma run_rename: "fs_inv s \<Longrightarrow> to_effect (run_name (CallRename src dst)) s"
  by (auto simp: wp_eqs rename_moved_def intro: call_effect_quiet call_effect.tables[OF db_effect.rename] intro!: wp_fs_rename)

lemma run_create:
  assumes "fs_inv s" and "\<not> fdtable_full (fs_fdtable s)"
  shows "to_effect (run_file (CallCreate path flags mode)) s"
proof -
  have "call_effect s s'" if c: "create_check s path flags = Inr (Some i)"
    and s': "becomes s (fs_db s) (snd (opened s i flags)) (fs_locks s) w s'" for i w s'
  proof -
    obtain p n where "entry_of (fs_db s) p n = Some i" "open_check s i flags = Inr i"
      using c by (auto simp: create_check_def open_check_def split: split_outcome)
    then show ?thesis by (rule call_effect.opens[OF _ _ disjI1[OF refl] assms(2) s'])
  qed
  then show ?thesis using assms
    by (auto simp: wp_eqs intro: call_effect_quiet call_effect.created intro!: wp_fs_create)
qed

lemma lookup_entry:
  assumes "tree d" and "lookup d path = Inr i" and "i \<noteq> ROOT_INODE"
  obtains p n where "entry_of d p n = Some i"
proof -
  obtain cs where cs: "walk d ROOT_INODE cs = Inr i" using assms(2) by (auto simp: lookup_def split: sum.splits)
  show thesis
  proof (cases cs rule: rev_cases)
    case Nil
    then show ?thesis using cs assms(3) by simp
  next
    case (snoc ns n)
    then show ?thesis using cs that by (auto simp: walk_append[OF assms(1)] split: option.splits)
  qed
qed

lemma run_open:
  assumes "fs_inv s" and "\<not> fdtable_full (fs_fdtable s)"
  shows "to_effect (run_file (CallOpen path flags)) s"
  unfolding run_file.simps wp_reply
proof (rule wp_fs_open[OF assms(1)])
  fix s' i d'
  assume c: "fs_open_check s path flags = Inr i"
    and d': "if flags AND O_TRUNC \<noteq> 0 then trunc_db i (fs_chunk_size s) (now1 s) (fs_db s) d' else d' = fs_db s"
    and s': "becomes s d' (snd (opened s i flags)) (fs_locks s) (fs_watchers s) s'"
  have l: "lookup (fs_db s) path = Inr i" and "\<not> has_kind (fs_db s) i Dir"
    using c by (auto simp: fs_open_check_Inr has_kind_def)
  moreover then have "i \<noteq> ROOT_INODE" using inv_tree[OF assms(1)] by (auto simp: tree_def wf_root_def)
  ultimately obtain p n where e: "entry_of (fs_db s) p n = Some i" using lookup_entry[OF inv_tree[OF assms(1)]] by metis
  have "open_check s i flags = Inr i" using c by (auto simp: fs_open_check_Inr open_check_def)
  then show "call_effect s s'"
    by (rule call_effect.opens[OF e _ _ assms(2) s', of "now1 s"]) (use c d' in \<open>auto simp: fs_open_check_Inr split: if_splits\<close>)
qed (auto intro: call_effect_quiet)

lemma run_unlink: "fs_inv s \<Longrightarrow> to_effect (run_name (CallUnlink path)) s"
proof -
  assume inv: "fs_inv s"
  have final: "call_effect s s'" if "unlink_check s path = Inr (p, n, i)"
    and "last_link s i \<and> open_count i (fs_fdtable s) = 0 \<longrightarrow> \<not> referenced (unlink_db p n i (now1 s) (fs_db s)) i"
    and "becomes s (unlink_final s p n i) (fs_fdtable s) (fs_locks s) w s'" for p n i w s'
  proof (cases "last_link s i \<and> open_count i (fs_fdtable s) = 0")
    case True
    then show ?thesis using that by (intro call_effect.removed[OF that(1)]) (auto simp: unlink_final_def Let_def)
  next
    case False
    then show ?thesis using that
      by (intro call_effect.unlinked[OF that(1), of "now1 s" w]) (auto simp: unlink_final_def Let_def)
  qed
  show ?thesis using inv
    by (auto simp: wp_eqs intro: call_effect_quiet call_effect.unlinked final intro!: wp_fs_unlink)
qed

lemma run_files:
  assumes "fs_inv s"
  shows "unat offset + length data < 2 ^ 63 \<Longrightarrow> to_effect (run_file (CallWrite fd offset data)) s"
    "unat offset + unat len < 2 ^ 64 \<Longrightarrow> to_effect (run_file (CallRead fd offset len)) s"
    "to_effect (run_query (CallReaddir path)) s"
proof -
  have eff: "call_effect s s'" if "unat offset + length data < 2 ^ 63" "write_check s fd = Inr i"
    "node_of (fs_db s) i = Some cols"
    "write_db i (fs_chunk_size s) (unat offset) data (new_size cols offset data) (now1 s) (fs_db s) (fs_db s')"
    "becomes s (fs_db s') (fs_fdtable s) (fs_locks s) (fs_watchers s') s'" for i cols s'
    using that by (blast intro: call_effect.tables[OF db_effect.written])
  show "to_effect (run_file (CallWrite fd offset data)) s" if "unat offset + length data < 2 ^ 63"
    unfolding run_file.simps wp_reply by (rule wp_fs_write_fd[OF assms that]) (use that eff in \<open>blast intro: call_effect_quiet\<close>)+
qed (use assms in \<open>auto simp: wp_eqs intro: call_effect_quiet intro!: wp_fs_read_fd wp_fs_readdir\<close>)

lemma run_close: "to_effect (run_file (CallClose fd)) s"
  unfolding run_file.simps wp_reply
proof (rule wp_fs_close_fd)
  fix x s'
  assume x: "fdtable_get fd (fs_fdtable s) = Inr x"
    and keep: "close_deletes s fd (fe_inode x) \<longrightarrow> \<not> referenced (fs_db s) (fe_inode x)"
    and s': "becomes s (if close_deletes s fd (fe_inode x) then del_node (fe_inode x) (fs_db s) else fs_db s)
        (closed_fds s fd) (closed_locks s fd (fe_inode x)) (fs_watchers s) s'"
  show "call_effect s s'"
  proof (cases "close_deletes s fd (fe_inode x)")
    case True
    then show ?thesis using keep s' by (intro call_effect.collected[OF x refl]) auto
  next
    case False
    then show ?thesis using s' by (intro call_effect.closed[OF x refl]) auto
  qed
next
  fix x e s'
  assume x: "fdtable_get fd (fs_fdtable s) = Inr x"
    and why: "node_of (fs_db s) (fe_inode x) = None \<and> e = NotFound \<or> \<not> reliable (fs_conn s)
        \<or> close_deletes s fd (fe_inode x) \<and> referenced (fs_db s) (fe_inode x)"
    and s': "becomes s (fs_db s) (closed_fds s fd) (closed_locks s fd (fe_inode x)) (fs_watchers s) s'"
  have "node_of (fs_db s) (fe_inode x) = None \<Longrightarrow> \<not> close_deletes s fd (fe_inode x)" by (simp add: close_deletes_def)
  then show "(\<exists>y. Fail e = Fail y) \<and> call_effect s s'" using call_effect.closed[OF x refl _ s'] why by auto
qed (auto intro: call_effect_quiet)


lemma effect_updated:
  assumes "\<not> fs_readonly s" and "node_of (fs_db s) i \<noteq> None"
    and "d \<in> {fs_db s, put_xattr i name v (fs_db s), set_xattr i name v (fs_db s), del_xattr i name (fs_db s)}"
    and "becomes s (map_node i f d) (fs_fdtable s) (fs_locks s) w s'"
    and "\<And>n. n_kind (f n) = n_kind n" "\<And>n. n_size (f n) = n_size n" "\<And>n. n_nlink (f n) = n_nlink n"
    and "owner_guard s i f"
  shows "call_effect s s'"
  by (rule call_effect.tables[OF db_effect.updated[OF assms(1,2,5,6,7,8,3)] assms(4)])

lemma effect_xattr:
  assumes "\<not> fs_readonly s" and "node_of (fs_db s) i \<noteq> None"
    and "d \<in> {fs_db s, put_xattr i name v (fs_db s), set_xattr i name v (fs_db s), del_xattr i name (fs_db s)}"
    and "becomes s d (fs_fdtable s) (fs_locks s) w s'"
  shows "call_effect s s'"
  by (rule effect_updated[OF assms(1-3), of "\<lambda>n. n"]) (use assms(4) in \<open>simp_all add: owner_guard_def\<close>)

lemma xattr_stored_cases:
  "xattr_stored i n v d d' \<Longrightarrow> d' \<in> {d, put_xattr i n v d, set_xattr i n v d, del_xattr i n d}"
  by (simp add: xattr_stored_def)

lemma xattr_check_writable: "setxattr_check s path name v flags = Inr i \<Longrightarrow> \<not> fs_readonly s"
  "removexattr_check s path name = Inr i \<Longrightarrow> \<not> fs_readonly s"
  by (auto simp: setxattr_check_def removexattr_check_def xattr_check_def split: split_outcome)

lemma owner_check_writable: "owner_check s path = Inr i \<Longrightarrow> \<not> fs_readonly s"
  "chown_check s path u g = Inr i \<Longrightarrow> \<not> fs_readonly s"
  by (auto simp: owner_check_def chown_check_def split: if_splits)

lemma guards:
  "owner_guard s i (\<lambda>n. n)" "owner_guard s i (set_time_cols a m c)"
  "owner_check s path = Inr i \<Longrightarrow> owner_guard s i f"
  "chown_check s path u g = Inr i \<Longrightarrow> owner_guard s i (set_owner_cols None u g now)"
proof -
  show "chown_check s path u g = Inr i \<Longrightarrow> owner_guard s i (set_owner_cols None u g now)"
    by (auto simp: chown_check_def node_check_Inr owner_guard_def set_owner_cols_def set_if_def split: if_splits)
qed (auto simp: owner_guard_def owner_check_def node_check_Inr set_time_cols_def set_if_def split: if_splits option.splits)

lemma effect_node_updated:
  assumes "node_updated s path i f s'" and "\<not> fs_readonly s"
    and "\<And>n. n_kind (f n) = n_kind n" "\<And>n. n_size (f n) = n_size n" "\<And>n. n_nlink (f n) = n_nlink n"
    and "owner_guard s i f"
  shows "call_effect s s'"
proof -
  from assms(1) obtain w where "node_of (fs_db s) i \<noteq> None"
    and "becomes s (map_node i f (fs_db s)) (fs_fdtable s) (fs_locks s) w s'"
    by (auto simp: node_updated_def)
  then show ?thesis by (intro effect_updated[OF assms(2), of i "fs_db s" _ _ f w]) (auto simp: assms(3-6))
qed

lemma run_attr_effect: "to_effect (run_attr c) s"
proof (cases c)
  case (CallSetxattr path name v flags)
  show ?thesis unfolding CallSetxattr run_attr.simps wp_reply
  proof (rule wp_fs_setxattr)
    fix s' i d' cols
    assume "setxattr_check s path name v flags = Inr i" "node_of (fs_db s) i = Some cols" "xattr_stored i name v (fs_db s) d'"
      and "becomes s (map_node i (set_time_cols None None (Some (now1 s))) d') (fs_fdtable s) (fs_locks s)
        (notify Metadata path (n_kind cols) i None None (now2 s) (fs_watchers s)) s'"
    then show "call_effect s s'"
      by (intro effect_updated[where d = d' and f = "set_time_cols None None (Some (now1 s))",
            OF xattr_check_writable(1) _ xattr_stored_cases]) (auto simp: guards)
  next
    fix e s' i d'
    assume "setxattr_check s path name v flags = Inr i" "node_of (fs_db s) i \<noteq> None" "xattr_stored i name v (fs_db s) d'"
      and "becomes s d' (fs_fdtable s) (fs_locks s) (fs_watchers s) s'"
    then show "(\<exists>x. Fail e = Fail x) \<and> call_effect s s'"
      by (auto intro!: effect_xattr[OF xattr_check_writable(1) _ xattr_stored_cases])
  qed (auto intro: call_effect_quiet)
next
  case (CallRemovexattr path name)
  have "call_effect s s'" if "removexattr_check s path name = Inr i" "node_of (fs_db s) i \<noteq> None"
    "becomes s (map_node i f (del_xattr i name (fs_db s))) (fs_fdtable s) (fs_locks s) w s'"
    "f = (\<lambda>n. n) \<or> f = set_time_cols None None (Some (now1 s))" for i f w s'
    by (rule effect_updated[OF xattr_check_writable(2)[OF that(1)] that(2) _ that(3), of name]) (use that(4) in \<open>auto simp: guards\<close>)
  note eff = this[OF _ _ _ disjI1[OF refl], unfolded map_node_same] this[OF _ _ _ disjI2[OF refl]]
  show ?thesis unfolding CallRemovexattr run_attr.simps wp_reply
    by (rule wp_fs_removexattr) (auto intro: call_effect_quiet eff)
qed (auto simp: wp_eqs dest: owner_check_writable intro: guards call_effect_quiet effect_node_updated
    intro!: wp_fs_chmod wp_fs_chown wp_fs_utimes)

lemma run_query_effect:
  assumes inv: "fs_inv s"
  shows "to_effect (run_query c) s"
proof -
  have quiet: "call_effect s (s\<lparr>fs_conn := (fs_conn s)\<lparr>c_tick := t\<rparr>\<rparr>)" for t
    by (rule call_effect_quiet) (simp add: quiet_defs)
  have self: "call_effect s s" by (rule call_effect_quiet) (simp add: quiet_defs)
  show ?thesis
    by (cases c; simp only: run_query.simps wp_reply)
      (auto simp: wp_eqs run_files(3)[OF inv, unfolded run_query.simps wp_reply] fs_posix_getlk_def fs_ofd_getlk_def
        intro: call_effect_quiet quiet self split: sum.split
        intro!: wp_fs_stat wp_fs_getxattr wp_fs_listxattr wp_fs_readlink wp_path_of_inode inv_tree[OF inv])
qed

lemma run_lock_effect: "lock_call_ok c \<Longrightarrow> to_effect (run_lock c) s"
proof -
  assume ok: "lock_call_ok c"
  have self: "call_effect s s" by (rule call_effect_quiet) (simp add: quiet_defs)
  have "call_effect s (s\<lparr>fs_locks := snd (f (fs_locks s))\<rparr>)" if "\<And>m. lock_step m (snd (f m))"
    for f :: "lock_manager \<Rightarrow> (error + unit) \<times> lock_manager"
    by (rule call_effect.locking[of s "snd (f (fs_locks s))" "fs_watchers s"]) (use that in \<open>auto simp: outcome_defs\<close>)
  then have step: "to_effect (finish (with_locks fd f)) s" if "\<And>i m. lock_step m (snd (f i m))" for fd f
    using that self by (auto simp: wp_reply wp_with_locks split: sum.split prod.split) (metis snd_conv)+
  show ?thesis using ok
    by (cases c) (auto simp: fs_posix_lock_def fs_ofd_lock_def fs_flock_def intro!: step lock_step.intros)
qed

lemma run_other_effect: "to_effect (run_other c) s"
proof -
  have watchers: "call_effect s (s\<lparr>fs_watchers := w\<rparr>)" for w
    by (rule call_effect.tables[OF db_effect.same, of _ w]) (simp add: outcome_defs)
  show ?thesis
    by (cases c)
      (auto simp: wp_eqs intro: call_effect_quiet call_effect.tables[OF db_effect.same] intro!: wp_fs_fsync wp_fs_watch watchers,
       auto simp: wp_def watchers split: prod.split)
qed


lemma run_name_effect: "fs_inv s \<Longrightarrow> to_effect (run_name c) s"
  by (cases c) (simp_all only: run_names run_rename run_unlink)

lemma run_file_effect: "fs_inv s \<Longrightarrow> file_call_ok s c \<Longrightarrow> to_effect (run_file c) s"
  by (cases c) (auto simp del: run_file.simps intro!: run_create run_open run_files run_close)

lemma call_ok_cong: "fs_fdtable s = fs_fdtable s' \<Longrightarrow> call_ok s c = call_ok s' c"
proof (induction c)
  case (Files f)
  then show ?case by (cases f) simp_all
qed simp_all

lemma run_effect:
  "fs_inv s \<Longrightarrow> call_ok s c \<Longrightarrow> wp (run c) (\<lambda>_. fs_effect s) (\<lambda>e s'. (\<exists>x. e = Fail x) \<and> fs_effect s s') s"
proof (induction c arbitrary: s)
  case (CallAsUser u g c)
  let ?s = "s\<lparr>fs_caller_uid := u, fs_caller_gid := g\<rparr>"
  have "fs_inv ?s" and "call_ok ?s c"
    using CallAsUser.prems call_ok_cong[of ?s s c] by (simp_all add: fs_inv_def)
  from CallAsUser.IH[OF this] show ?case
    unfolding run.simps wp_as_user by (rule wp_mono) (auto intro: fs_effect.as_other)
qed (auto simp del: run_name.simps run_file.simps run_attr.simps run_query.simps run_lock.simps run_other.simps
    intro: fs_effect.own intro!: wp_mono[OF run_name_effect] wp_mono[OF run_file_effect] wp_mono[OF run_attr_effect]
      wp_mono[OF run_query_effect] wp_mono[OF run_lock_effect] wp_mono[OF run_other_effect])

section \<open>The invariant of the state\<close>

lemma wf_xattrs:
  assumes "wf_db cs d" and "node_of d i \<noteq> None"
    and "d' \<in> {d, put_xattr i n v d, set_xattr i n v d, del_xattr i n d}"
  shows "wf_db cs d'"
proof -
  have t: "tree d" using assms(1) by (simp add: wf_db_def)
  have "tree d'" using tree_xattrs[OF t assms(2)] t assms(3) by auto
  moreover have "entry_count d' = entry_count d" using assms(3)
    by (auto simp: entry_count_def effect_defs)
  moreover have "node_of d' = node_of d" "blob_of d' = blob_of d" "symlink_of d' = symlink_of d" using assms(3)
    by (auto simp: node_of_def blob_of_def symlink_of_def effect_defs fun_eq_iff)
  ultimately show ?thesis using assms(1)
    by (simp add: wf_db_def wf_links_def wf_symlinks_def wf_extents_def chunks_fit_def has_kind_def)
qed

lemma wf_db_effect:
  assumes "db_effect s d" and inv: "fs_inv s"
  shows "wf_db (fs_chunk_size s) d"
  using assms(1)
proof cases
  case (mkdir path p n m u g now)
  then show ?thesis using inv by (auto simp: fs_inv_def add_check_Inr has_kind_def intro!: wf_mkdir)
next
  case (symlink path p n x u g now)
  then show ?thesis using inv by (auto simp: fs_inv_def add_check_Inr has_kind_def intro!: wf_symlink)
next
  case (link target path p n i now)
  then show ?thesis using inv by (auto simp: fs_inv_def link_check_Inr add_check_Inr has_kind_def intro!: wf_link)
next
  case (rmdir path p n i now)
  then show ?thesis using inv rows_under_Nil[OF tree_keys[OF inv_tree[OF inv]]]
    by (auto simp: fs_inv_def rmdir_check_Inr intro!: wf_rmdir)
next
  case (rename src dst sp sn p n i k now)
  have w: "wf_db (fs_chunk_size s) (fs_db s)" using inv by (simp add: fs_inv_def)
  show ?thesis
    by (rule wf_renamed[OF w _ _ _ _ _ rename(2)]) (use rename(1) in \<open>auto simp: renames_def has_kind_map\<close>)
next
  case (written i cols offset data now)
  have w: "wf_db (fs_chunk_size s) (fs_db s)" using inv by (simp add: fs_inv_def)
  show ?thesis by (rule wf_write[OF w written(2,3) refl new_size_def written(4)])
next
  case (updated i f d1 name v)
  have "wf_db (fs_chunk_size s) d1" using wf_xattrs[OF _ updated(3,8)] inv by (simp add: fs_inv_def)
  then show ?thesis unfolding updated(1) by (rule wf_db_map_node) (use updated in auto)
qed (use inv in \<open>simp add: fs_inv_def\<close>)

end
