(* ===== verification/Fs_Reach.thy ===== *)
theory Fs_Reach
  imports Fs_History
begin

text \<open>
  Invariants of histories: reachability by calls, and what holds in every reachable state.
\<close>

section \<open>No detached directory has a child\<close>

definition linked :: "db \<Rightarrow> inode \<Rightarrow> bool" where
  "linked d i \<longleftrightarrow> i = ROOT_INODE \<or> (\<exists>p n. entry_of d p n = Some i)"

definition rooted :: "db \<Rightarrow> bool" where
  "rooted d \<longleftrightarrow> (\<forall>i n. entry_of d i n \<noteq> None \<longrightarrow> linked d i)"

lemma linkedI: "entry_of d p n = Some i \<Longrightarrow> linked d i"
  by (auto simp: linked_def)

lemma linked_mono:
  assumes "linked d q" and "\<And>p n. entry_of d p n = Some q \<Longrightarrow> linked d' q"
  shows "linked d' q"
  using assms by (auto simp: linked_def)

lemma rooted_cong:
  assumes "entry_of d' = entry_of d" shows "rooted d' = rooted d"
  unfolding rooted_def linked_def assms ..

lemma rooted_add:
  assumes "rooted d" and "linked d p" and "entry_of d p n = None"
    and "entry_of d' = (entry_of d)(p := (entry_of d p)(n \<mapsto> i))"
  shows "rooted d'"
proof -
  have mono: "linked d' q" if "linked d q" for q
    using that
  proof (rule linked_mono)
    fix p' n' assume "entry_of d p' n' = Some q"
    then have "entry_of d' p' n' = Some q" using assms(3,4) by auto
    then show "linked d' q" by (rule linkedI)
  qed
  have "entry_of d' q m \<noteq> None \<Longrightarrow> q = p \<or> entry_of d q m \<noteq> None" for q m
    using assms(4) by (auto split: if_splits)
  then show ?thesis using assms(1,2) mono unfolding rooted_def by blast
qed

lemma rooted_del:
  assumes "rooted d" and "entry_of d p n = Some i" and "\<And>m. entry_of d i m = None"
    and "\<And>q m. entry_of d' q m = (if (q, m) = (p, n) then None else entry_of d q m)"
  shows "rooted d'"
  unfolding rooted_def
proof (intro allI impI)
  fix q m assume "entry_of d' q m \<noteq> None"
  then have q: "entry_of d q m \<noteq> None" by (auto simp: assms(4) split: if_splits)
  then have "q \<noteq> i" using assms(3) by auto
  from q have "linked d q" using assms(1) unfolding rooted_def by blast
  then show "linked d' q"
  proof (rule linked_mono)
    fix p' n' assume e: "entry_of d p' n' = Some q"
    then have "(p', n') \<noteq> (p, n)" using assms(2) \<open>q \<noteq> i\<close> by auto
    then have "entry_of d' p' n' = Some q" using e by (simp add: assms(4))
    then show "linked d' q" by (rule linkedI)
  qed
qed

lemma rooted_move:
  assumes "rooted d" and "entry_of d sp sn = Some i" and "linked d p"
    and "(p, n) = (sp, sn) \<or> entry_of d p n = None"
    and "\<And>q m. entry_of d' q m = (if (q, m) = (p, n) then Some i else if (q, m) = (sp, sn) then None else entry_of d q m)"
  shows "rooted d'"
proof -
  have mono: "linked d' q" if "linked d q" for q
    using that
  proof (rule linked_mono)
    fix p' n' assume e: "entry_of d p' n' = Some q"
    show "linked d' q"
    proof (cases "q = i")
      case True
      then show ?thesis using assms(5)[of p n] by (auto intro: linkedI)
    next
      case False
      then have "entry_of d' p' n' = Some q" using e assms(2,4) by (auto simp: assms(5))
      then show ?thesis by (rule linkedI)
    qed
  qed
  have "entry_of d' q m \<noteq> None \<Longrightarrow> q = p \<or> entry_of d q m \<noteq> None" for q m
    by (auto simp: assms(5) split: if_splits)
  then show ?thesis using assms(1,3) mono unfolding rooted_def by blast
qed

lemma parent_linked:
  assumes "tree d" and "parent_lookup d path = Inr (p, n)"
  shows "linked d p"
proof -
  obtain cs where "walk d ROOT_INODE cs = Inr p"
    using assms(2) by (auto simp: parent_lookup_def split: sum.splits if_splits)
  then show ?thesis
    by (cases cs rule: rev_cases) (auto simp: linked_def walk_append[OF assms(1)] split: option.splits)
qed

lemma entries_of_blob_changes:
  "write_db i cs off data sz now d d' \<Longrightarrow> entry_of d' = entry_of d"
  "trunc_db i cs now d d' \<Longrightarrow> entry_of d' = entry_of d"
  using blobs_only_same by (auto simp: write_db_def trunc_db_def range_written_def range_truncated_def fun_eq_iff)

lemma entries_of_xattrs [simp]:
  "entry_of (put_xattr i a v d) = entry_of d" "entry_of (set_xattr i a v d) = entry_of d"
  "entry_of (del_xattr i a d) = entry_of d" "entry_of (add_symlink i t d) = entry_of d"
  by (simp_all add: entry_of_def effect_defs fun_eq_iff)

lemma entries_of_tx [simp]:
  "entry_of (touch i now d) = entry_of d" "entry_of (add_nlink i k now d) = entry_of d"
  by (simp_all add: touch_def add_nlink_def)

lemma entries_of_move_db:
  "entry_of (move_db k i sp sn p n now d) q m
    = (if (q, m) = (p, n) then Some i else if (q, m) = (sp, sn) then None else entry_of d q m)"
  by (auto simp: move_db_def Let_def move_entry_def)

lemma rooted_renamed:
  assumes t: "tree d" and r: "rooted d" and src: "entry_of d sp sn = Some i" and p: "linked d p"
    and re: "renamed k i sp sn p n now d d'"
  shows "rooted d'"
proof -
  show ?thesis
  proof (cases "entry_of d p n = None \<or> (p, n) = (sp, sn)")
    case True
    then have "d' = move_db k i sp sn p n now d" using re by (simp add: renamed_def)
    then show ?thesis using True by (intro rooted_move[OF r src p]) (auto simp: entries_of_move_db)
  next
    case False
    then obtain j d1 where j: "entry_of d p n = Some j" "j \<noteq> i" and rep: "replaced sp p n j k now d d1"
      and d': "d' = move_db k i sp sn p n now d1" using re by (auto simp: renamed_def split: if_splits)
    have none: "entry_of d j m = None" for m
      using rep file_no_children[OF t, of j m] by (cases "has_kind d j Dir") (auto simp: replaced_def replaceable_def has_kind_def)
    have e1: "entry_of d1 q m = (if (q, m) = (p, n) then None else entry_of d q m)" for q m
    proof (cases "q = j")
      case True
      then show ?thesis using none rep no_self_entry[OF t j(1)]
        by (auto simp: replaced_def replace_db_def Let_def add_nlink_def)
    next
      case False
      then show ?thesis using replace_db_lookup(3)[OF rep, of q m] by simp
    qed
    have r1: "rooted d1" by (rule rooted_del[OF r j(1) none e1])
    have "linked d1 p"
      using p
    proof (rule linked_mono)
      fix p' n' assume e: "entry_of d p' n' = Some p"
      then have "(p', n') \<noteq> (p, n)" using j(1) no_self_entry[OF t j(1)] by auto
      then have "entry_of d1 p' n' = Some p" using e e1 by simp
      then show "linked d1 p" by (rule linkedI)
    qed
    then show ?thesis unfolding d'
      by (intro rooted_move[OF r1]) (use src False in \<open>auto simp: entries_of_move_db e1\<close>)
  qed
qed

section \<open>The state invariant\<close>

text \<open>The root is never open: \<open>open\<close> refuses directories and \<open>create\<close> needs a parent.\<close>

definition fds_ok :: "fd_table \<Rightarrow> bool" where
  "fds_ok t \<longleftrightarrow> (\<forall>fd x. fdtable_get fd t = Inr x \<longrightarrow> fe_inode x \<noteq> ROOT_INODE)"

definition fs_ok :: "filesystem \<Rightarrow> bool" where
  "fs_ok s \<longleftrightarrow> fs_inv s \<and> rooted (fs_db s) \<and> fds_ok (fs_fdtable s)"

lemma fdtable_get_open:
  "fdtable_get fd (snd (fdtable_open i flags u g t)) = Inr x \<longleftrightarrow>
    (if fd = fst (fdtable_open i flags u g t)
     then x = \<lparr>fe_fd = fd, fe_inode = i, fe_flags = flags, fe_uid = u, fe_gid = g, fe_offset = 0\<rparr>
     else fdtable_get fd t = Inr x)"
  by (auto simp: fdtable_get_Inr fdtable_open_def Let_def)

lemma fdtable_get_close:
  "fdtable_get fd (snd (fdtable_close h t)) = Inr x \<longleftrightarrow> fd \<noteq> h \<and> fdtable_get fd t = Inr x"
  by (auto simp: fdtable_get_Inr fdtable_close_def split: option.splits)

lemma fds_ok_open: "fds_ok t \<Longrightarrow> i \<noteq> ROOT_INODE \<Longrightarrow> fds_ok (snd (fdtable_open i flags u g t))"
  by (auto simp: fds_ok_def fdtable_get_open split: if_splits)

lemma fds_ok_close: "fds_ok t \<Longrightarrow> fds_ok (snd (fdtable_close h t))"
  by (auto simp: fds_ok_def fdtable_get_close)

lemma ok_simps:
  assumes "fs_ok s"
  shows "fs_inv s" "wf_db (fs_chunk_size s) (fs_db s)" "tree (fs_db s)" "rooted (fs_db s)" "fds_ok (fs_fdtable s)"
    "fdtable_inv (fs_fdtable s)" "locks_inv (fs_locks s)"
  using assms by (simp_all add: fs_ok_def fs_inv_def wf_db_def)

lemma becomes_ok:
  assumes "becomes s d t l w s'" and "fs_ok s" and "wf_db (fs_chunk_size s) d" and "rooted d"
    and "fdtable_inv t" and "fds_ok t" and "locks_inv l"
  shows "fs_ok s'"
  using assms by (simp add: fs_ok_def fs_inv_def becomes_def same_env_def)

lemma closed_parts_ok:
  assumes "fs_ok s"
  shows "fdtable_inv (closed_fds s fd)" "fds_ok (closed_fds s fd)" "locks_inv (closed_locks s fd i)"
  using ok_simps[OF assms]
  by (simp_all add: closed_fds_def closed_locks_def fdtable_inv_close fds_ok_close locks_inv_on_fd_close)

lemma entry_not_root: "tree d \<Longrightarrow> entry_of d p n = Some i \<Longrightarrow> i \<noteq> ROOT_INODE"
  by (auto simp: tree_def wf_root_def)

lemma next_not_root: "tree d \<Longrightarrow> room d \<Longrightarrow> next_inode d \<noteq> ROOT_INODE"
  by (simp add: next_inode_fresh room_def)

lemma rooted_db_effect:
  assumes "db_effect s d" and ok: "fs_ok s"
  shows "rooted d"
  using assms(1)
proof cases
  case (mkdir path p n m u g now)
  then show ?thesis using parent_linked[OF ok_simps(3)[OF ok]]
    by (intro rooted_add[OF ok_simps(4)[OF ok]]) (auto simp: add_check_Inr mkdir_db_def)
next
  case (symlink path p n x u g now)
  then show ?thesis using parent_linked[OF ok_simps(3)[OF ok]]
    by (intro rooted_add[OF ok_simps(4)[OF ok]]) (auto simp: add_check_Inr symlink_db_def)
next
  case (link target path p n i now)
  then show ?thesis using parent_linked[OF ok_simps(3)[OF ok]]
    by (intro rooted_add[OF ok_simps(4)[OF ok]]) (auto simp: link_check_Inr add_check_Inr link_db_def)
next
  case (rmdir path p n i now)
  have none: "entry_of (fs_db s) i m = None" for m
    using rmdir(2) rows_under_Nil[OF tree_keys[OF ok_simps(3)[OF ok]], of i] by (auto simp: rmdir_check_Inr)
  show ?thesis
    by (rule rooted_del[OF ok_simps(4)[OF ok] _ none]) (use rmdir none in \<open>auto simp: rmdir_check_Inr rmdir_db_def\<close>)
next
  case (rename src dst sp sn p n i k now)
  then show ?thesis using parent_linked[OF ok_simps(3)[OF ok]]
    by (intro rooted_renamed[OF ok_simps(3)[OF ok] ok_simps(4)[OF ok] _ _ rename(2)]) (auto simp: renames_def)
next
  case (written i cols offset data now)
  from rooted_cong[OF entries_of_blob_changes(1)[OF written(4)]] show ?thesis using ok_simps(4)[OF ok] by simp
next
  case (updated i f d1 name v)
  then have "entry_of d = entry_of (fs_db s)" by auto
  from rooted_cong[OF this] show ?thesis using ok_simps(4)[OF ok] by simp
qed (simp add: ok_simps(4)[OF ok])


lemma unlink_db_parts:
  assumes "fs_ok s" and "unlink_check s path = Inr (p, n, i)"
  shows "wf_db (fs_chunk_size s) (unlink_db p n i now (fs_db s))" "rooted (unlink_db p n i now (fs_db s))"
    "\<not> has_kind (unlink_db p n i now (fs_db s)) i Dir" "entry_of (unlink_db p n i now (fs_db s)) i m = None"
proof -
  note ok = ok_simps[OF assms(1)]
  have e: "entry_of (fs_db s) p n = Some i" and nd: "\<not> has_kind (fs_db s) i Dir"
    using assms(2) by (simp_all add: unlink_check_Inr)
  show "wf_db (fs_chunk_size s) (unlink_db p n i now (fs_db s))" by (rule wf_unlink[OF ok(2) e])
  note none = file_no_children[OF ok(3) nd]
  show "rooted (unlink_db p n i now (fs_db s))"
    by (rule rooted_del[OF ok(4) e none]) (simp add: unlink_db_def)
  show "\<not> has_kind (unlink_db p n i now (fs_db s)) i Dir"
    using nd by (simp add: unlink_db_def touch_def add_nlink_def)
  show "entry_of (unlink_db p n i now (fs_db s)) i m = None" using none[of m] by (auto simp: unlink_db_def)
qed

text \<open>What is not referenced and not the root has no entries below it.\<close>

lemma unreferenced_no_children:
  assumes "tree d" and "rooted d" and "\<not> referenced d i" and "i \<noteq> ROOT_INODE"
  shows "entry_of d i n = None" and "entry_of d p n \<noteq> Some i"
proof -
  show *: "entry_of d p n \<noteq> Some i" for p n
    using assms(3) no_self_entry[OF assms(1)] by (auto simp: referenced_iff[OF tree_keys[OF assms(1)]])
  then have "\<not> linked d i" using assms(4) by (simp add: linked_def)
  then show "entry_of d i n = None" using assms(2) unfolding rooted_def by blast
qed

lemma wf_collect:
  assumes "wf_db cs d" and "rooted d" and "\<not> referenced d i" and "i \<noteq> ROOT_INODE"
  shows "wf_db cs (del_node i d)" and "rooted (del_node i d)"
proof -
  have t: "tree d" using assms(1) by (simp add: wf_db_def)
  note none = unreferenced_no_children[OF t assms(2-4)]
  show "wf_db cs (del_node i d)" by (rule wf_del_node[OF assms(1) none assms(4)])
  have "entry_of d i = Map.empty" using none(1) by (rule ext)
  then have "entry_of (del_node i d) = entry_of d" by (simp add: fun_upd_idem)
  from rooted_cong[OF this] show "rooted (del_node i d)" using assms(2) by simp
qed

lemma call_effect_ok: "call_effect s s' \<Longrightarrow> fs_ok s \<Longrightarrow> fs_ok s'"
proof (induction rule: call_effect.induct)
  case (tables s d w s')
  then show ?case
    by (intro becomes_ok[OF tables(2,3)] wf_db_effect rooted_db_effect ok_simps)
next
  case (created s path p n m u g now flags w s')
  note ok = ok_simps[OF created(6)]
  have "wf_db (fs_chunk_size s) (create_db p n m u g now (fs_db s))"
    using created(1-3) by (intro wf_create[OF ok(2)]) (auto simp: add_check_Inr has_kind_def)
  moreover have "rooted (create_db p n m u g now (fs_db s))"
    using created(1) parent_linked[OF ok(3)] by (intro rooted_add[OF ok(4)]) (auto simp: add_check_Inr create_db_def)
  ultimately show ?case
    by (intro becomes_ok[OF created(5,6)] ok fdtable_inv_open created(4) fds_ok_open next_not_root[OF ok(3)] created(3))
next
  case (opens s p n i flags d' now w s')
  note ok = ok_simps[OF opens(6)]
  have "node_of (fs_db s) i \<noteq> None" using tree_entryD[OF ok(3) opens(1)] by simp
  then have "wf_db (fs_chunk_size s) d'" and "rooted d'"
    using opens(3) wf_trunc[OF ok(2)] ok rooted_cong[OF entries_of_blob_changes(2)] by auto
  then show ?case
    by (intro becomes_ok[OF opens(5,6)] ok fdtable_inv_open opens(4) fds_ok_open entry_not_root[OF ok(3) opens(1)])
next
  case (closed fd s x i w s')
  then show ?case by (intro becomes_ok[OF closed(4,5)] closed_parts_ok ok_simps)
next
  case (collected fd s x i w s')
  note ok = ok_simps[OF collected(6)]
  have "i \<noteq> ROOT_INODE" using collected(1,2) ok(5) by (auto simp: fds_ok_def)
  note parts = wf_collect[OF ok(2,4) collected(4) this]
  show ?case by (intro becomes_ok[OF collected(5,6)] closed_parts_ok[OF collected(6)] parts)
next
  case (unlinked s path p n i now w s')
  then show ?case by (intro becomes_ok[OF unlinked(3,4)] unlink_db_parts[OF unlinked(4,1)] ok_simps)
next
  case (removed s path p n i now w s')
  note ok = ok_simps[OF removed(6)] and parts = unlink_db_parts[OF removed(6,1)]
  have "i \<noteq> ROOT_INODE" using removed(1) entry_not_root[OF ok(3)] by (auto simp: unlink_check_Inr)
  note gone = wf_collect[OF parts(1,2) removed(4) this]
  show ?case by (intro becomes_ok[OF removed(5,6)] gone ok)
next
  case (locking s l w s')
  then have "locks_inv l" using lock_step_inv ok_simps(7)[OF locking(3)] by blast
  then show ?case by (intro becomes_ok[OF locking(2,3)] ok_simps[OF locking(3)])
qed

lemma fs_effect_ok: "fs_effect s s' \<Longrightarrow> fs_ok s \<Longrightarrow> fs_ok s'"
  by (induction rule: fs_effect.induct) (use call_effect_ok in \<open>auto simp: fs_ok_def fs_inv_def\<close>)

section \<open>Histories\<close>

inductive reachable :: "filesystem \<Rightarrow> filesystem \<Rightarrow> bool" for s0 :: filesystem where
  start: "reachable s0 s0"
| step: "reachable s0 s \<Longrightarrow> call_ok s c \<Longrightarrow> run c s = (r, s') \<Longrightarrow> reachable s0 s'"

lemma run_is_effect:
  assumes "fs_inv s" and "call_ok s c" and "run c s = (r, s')"
  shows "fs_effect s s'" and "r = Inl e \<Longrightarrow> \<exists>x. e = Fail x"
  using wp_run[OF run_effect[OF assms(1,2)] assms(3)] by (auto split: sum.splits)

lemma reachable_ok: "reachable s0 s \<Longrightarrow> fs_ok s0 \<Longrightarrow> fs_ok s"
proof (induction rule: reachable.induct)
  case (step s c r s')
  then have ok: "fs_ok s" by simp
  show ?case by (rule fs_effect_ok[OF run_is_effect(1)[OF ok_simps(1)[OF ok] step.hyps(2,3)] ok])
qed


section \<open>No file is lost\<close>

text \<open>A file or symlink without a name; it must be open somewhere, or its rows would never go.\<close>

definition nameless :: "db \<Rightarrow> inode \<Rightarrow> bool" where
  "nameless d i \<longleftrightarrow> node_of d i \<noteq> None \<and> \<not> has_kind d i Dir \<and> (\<forall>p n. entry_of d p n \<noteq> Some i)"

definition none_lost :: "filesystem \<Rightarrow> bool" where
  "none_lost s \<longleftrightarrow> (\<forall>i. nameless (fs_db s) i \<longrightarrow> 0 < open_count i (fs_fdtable s))"

lemma nameless_sub:
  assumes "nameless d' i" and "node_of d' i \<noteq> None \<Longrightarrow> node_of d i \<noteq> None"
    and "has_kind d i Dir \<Longrightarrow> has_kind d' i Dir"
    and "\<And>p n. entry_of d p n = Some i \<Longrightarrow> \<exists>p n. entry_of d' p n = Some i"
  shows "nameless d i"
  using assms by (auto simp: nameless_def)

lemma nameless_new_entry:
  assumes "tree d" and "nameless (new_entry p n cols d) i" and "entry_of d p n = None"
  shows "nameless d i"
proof (rule nameless_sub[OF assms(2)])
  have "entry_of (new_entry p n cols d) p n = Some (next_inode d)" by simp
  then have ne: "i \<noteq> next_inode d" using assms(2) unfolding nameless_def by metis
  then show "node_of (new_entry p n cols d) i \<noteq> None \<Longrightarrow> node_of d i \<noteq> None" by simp
  show "has_kind d i Dir \<Longrightarrow> has_kind (new_entry p n cols d) i Dir" using ne by (simp add: has_kind_def)
  fix q m assume "entry_of d q m = Some i"
  then have "entry_of (new_entry p n cols d) q m = Some i" using assms(3) by auto
  then show "\<exists>p' n'. entry_of (new_entry p n cols d) p' n' = Some i" by blast
qed

lemma nameless_simps [simp]:
  "nameless (touch i now d) j = nameless d j" "nameless (add_nlink i k now d) j = nameless d j"
  "nameless (add_symlink i t d) j = nameless d j"
  "nameless (put_xattr i a v d) j = nameless d j" "nameless (set_xattr i a v d) j = nameless d j"
  "nameless (del_xattr i a d) j = nameless d j"
  by (auto simp: nameless_def touch_def add_nlink_def)

lemma nameless_map_node: "(\<And>n. n_kind (f n) = n_kind n) \<Longrightarrow> nameless (map_node i f d) j = nameless d j"
  by (auto simp: nameless_def)

lemma nameless_blob_changes:
  "write_db i cs off data sz now d d' \<Longrightarrow> nameless d' j = nameless d j"
  "trunc_db i cs now d d' \<Longrightarrow> nameless d' j = nameless d j"
proof -
  have "nameless (map_node i (set_size_cols x y z) d1) j = nameless d j" if "blobs_only d d1" for d1 x y z
  proof -
    have "nameless (map_node i (set_size_cols x y z) d1) j = nameless d1 j" by (rule nameless_map_node) simp
    then show ?thesis using blobs_only_same[OF that] by (simp add: nameless_def has_kind_def)
  qed
  then show "write_db i cs off data sz now d d' \<Longrightarrow> nameless d' j = nameless d j"
    "trunc_db i cs now d d' \<Longrightarrow> nameless d' j = nameless d j"
    unfolding write_db_def trunc_db_def range_written_def range_truncated_def by blast+
qed

text \<open>Removing a name makes a file nameless only if it was the last one, as the link count says.\<close>

lemma other_name:
  assumes "wf_db cs d" and "entry_of d p n = Some i" and "node_of d i = Some cols" and "n_kind cols \<noteq> Dir"
    and "word_of_int (n_nlink cols - 1) \<noteq> (0 :: u32)"
  shows "\<exists>q m. entry_of (del_entry p n d) q m = Some i"
proof (rule ccontr)
  have keys: "wf_keys d" using assms(1) by (simp add: wf_db_def tree_def)
  assume "\<nexists>q m. entry_of (del_entry p n d) q m = Some i"
  then have "entry_count (del_entry p n d) i = 0"
    by (simp add: entry_count_0[OF wf_keys_effects(4)[OF keys]])
  then have "entry_count d i = 1" using entry_count_del[OF keys assms(2), of i] by simp
  then have "n_nlink cols = 1" using assms(1,3,4) by (simp add: wf_db_def wf_links_def)
  then show False using assms(5) by simp
qed

lemma nameless_replaced:
  assumes w: "wf_db cs d" and e: "entry_of d p n = Some j" and r: "replaced sp p n j k now d d'" and i: "nameless d' i"
  shows "nameless d i"
proof -
  have t: "tree d" using w by (simp add: wf_db_def)
  obtain cols where cols: "node_of d j = Some cols" and ok: "replaceable d k j cols"
    and d': "d' = replace_db sp p n j cols now d" using r by (auto simp: replaced_def)
  have jp: "j \<noteq> p" using no_self_entry[OF t e] by simp
  let ?last = "word_of_int (n_nlink cols - 1) = (0 :: u32)"
  have none: "entry_of d j m = None" for m
    using ok cols file_no_children[OF t, of j m] by (cases "n_kind cols = Dir") (auto simp: replaceable_def has_kind_def)
  have ent: "entry_of d' q m = (if (q, m) = (p, n) then None else entry_of d q m)" for q m
    using none[of m] jp by (auto simp: d' replace_db_def Let_def)
  have kind: "map_option n_kind (node_of d' q) = (if q = j \<and> ?last then None else map_option n_kind (node_of d q))" for q
    by (simp add: d' replace_db_def Let_def add_nlink_def option.map_comp o_def)
  show ?thesis
  proof (rule nameless_sub[OF i])
    show "node_of d' i \<noteq> None \<Longrightarrow> node_of d i \<noteq> None" using kind[of i] by (metis option.map_disc_iff)
    show "has_kind d i Dir \<Longrightarrow> has_kind d' i Dir"
      using kind[of i] i by (auto simp: has_kind_map nameless_def split: if_splits)
    fix q m assume qm: "entry_of d q m = Some i"
    show "\<exists>p' n'. entry_of d' p' n' = Some i"
    proof (cases "(q, m) = (p, n)")
      case False
      then show ?thesis using qm ent by metis
    next
      case True
      then have ij: "i = j" using qm e by simp
      then have "\<not> ?last" and "n_kind cols \<noteq> Dir"
        using i kind[of j] cols by (auto simp: nameless_def has_kind_map split: if_splits)
      from other_name[OF w e cols this(2,1)] obtain q m where "entry_of (del_entry p n d) q m = Some j" by blast
      then have "entry_of d' q m = Some i" using ij ent[of q m] by (auto split: if_splits)
      then show ?thesis by blast
    qed
  qed
qed

lemma nameless_move:
  assumes "entry_of d sp sn = Some i" and "(p, n) = (sp, sn) \<or> entry_of d p n = None"
    and "nameless (move_db k i sp sn p n now d) j"
  shows "nameless d j"
proof (rule nameless_sub[OF assms(3)])
  have kinds: "map_option n_kind (node_of (move_db k i sp sn p n now d) q) = map_option n_kind (node_of d q)" for q
    by (simp add: move_db_def Let_def add_nlink_def touch_def move_entry_def option.map_comp o_def)
  show "node_of (move_db k i sp sn p n now d) j \<noteq> None \<Longrightarrow> node_of d j \<noteq> None"
    using kinds[of j] by (metis option.map_disc_iff)
  show "has_kind d j Dir \<Longrightarrow> has_kind (move_db k i sp sn p n now d) j Dir" using kinds[of j] by (simp add: has_kind_map)
  fix q m assume "entry_of d q m = Some j"
  then show "\<exists>p' n'. entry_of (move_db k i sp sn p n now d) p' n' = Some j"
    using assms(1,2) entries_of_move_db[of k i sp sn p n now d] by (metis option.inject option.distinct(1) prod.inject)
qed

lemma nameless_renamed:
  assumes w: "wf_db cs d" and src: "entry_of d sp sn = Some i" and re: "renamed k i sp sn p n now d d'"
    and j: "nameless d' j"
  shows "nameless d j"
proof (cases "entry_of d p n = None \<or> (p, n) = (sp, sn)")
  case True
  then have "d' = move_db k i sp sn p n now d" using re by (simp add: renamed_def)
  then show ?thesis using nameless_move[OF src] True j by blast
next
  case False
  have t: "tree d" using w by (simp add: wf_db_def)
  obtain x d1 where x: "entry_of d p n = Some x" "x \<noteq> i" and rep: "replaced sp p n x k now d d1"
    and d': "d' = move_db k i sp sn p n now d1" using re False by (auto simp: renamed_def split: if_splits)
  have xsp: "x \<noteq> sp"
  proof
    assume eq: "x = sp"
    then have "has_kind d x Dir" using tree_entryD[OF t src] by simp
    then have "\<forall>m. entry_of d x m = None" using rep by (auto simp: replaced_def replaceable_def has_kind_def)
    then show False using src eq by simp
  qed
  have "entry_of d1 sp sn = Some i" using replace_db_lookup(3)[OF rep xsp] src False by auto
  moreover have "entry_of d1 p n = None" using replace_db_lookup(3)[OF rep] no_self_entry[OF t x(1)] by auto
  ultimately have "nameless d1 j" using nameless_move j unfolding d' by blast
  then show ?thesis by (rule nameless_replaced[OF w x(1) rep])
qed


lemma nameless_db_effect:
  assumes "db_effect s d" and inv: "fs_inv s" and i: "nameless d i"
  shows "nameless (fs_db s) i"
  using assms(1)
proof cases
  case (mkdir path p n m u g now)
  then show ?thesis using i nameless_new_entry[OF inv_tree[OF inv]] by (auto simp: mkdir_db_def add_check_Inr)
next
  case (symlink path p n x u g now)
  then show ?thesis using i nameless_new_entry[OF inv_tree[OF inv]] by (auto simp: symlink_db_def add_check_Inr)
next
  case (link target path p n j now)
  then have "nameless (add_entry p n j (fs_db s)) i" and free: "entry_of (fs_db s) p n = None"
    using i by (auto simp: link_db_def link_check_Inr add_check_Inr)
  from this(1) show ?thesis
  proof (rule nameless_sub)
    fix q m assume "entry_of (fs_db s) q m = Some i"
    then have "entry_of (add_entry p n j (fs_db s)) q m = Some i" using free by auto
    then show "\<exists>p' n'. entry_of (add_entry p n j (fs_db s)) p' n' = Some i" by blast
  qed simp_all
next
  case (rmdir path p n j now)
  have e: "entry_of (fs_db s) p n = Some j" using rmdir(2) by (simp add: rmdir_check_Inr)
  from i show ?thesis
  proof (rule nameless_sub)
    have ij: "i \<noteq> j" using i rmdir(1) by (auto simp: nameless_def rmdir_db_def)
    then show "node_of d i \<noteq> None \<Longrightarrow> node_of (fs_db s) i \<noteq> None"
      "has_kind (fs_db s) i Dir \<Longrightarrow> has_kind d i Dir"
      using rmdir(1) by (auto simp: rmdir_db_def touch_def add_nlink_def split: if_splits)
    fix q m assume qm: "entry_of (fs_db s) q m = Some i"
    then have "entry_of (fs_db s) q m \<noteq> None" and "(q, m) \<noteq> (p, n)" using e ij by auto
    moreover have "q \<noteq> j"
      using rows_under_Nil[OF tree_keys[OF inv_tree[OF inv]], of j] rmdir(2) qm by (auto simp: rmdir_check_Inr)
    ultimately have "entry_of d q m = Some i" using rmdir(1) qm by (auto simp: rmdir_db_def)
    then show "\<exists>p' n'. entry_of d p' n' = Some i" by blast
  qed
next
  case (rename src dst sp sn p n j k now)
  have w: "wf_db (fs_chunk_size s) (fs_db s)" using inv by (simp add: fs_inv_def)
  show ?thesis by (rule nameless_renamed[OF w _ rename(2) i]) (use rename(1) in \<open>simp add: renames_def\<close>)
next
  case (written j cols offset data now)
  then show ?thesis using i nameless_blob_changes(1) by blast
next
  case (updated j f d1 name v)
  then show ?thesis using i by (auto simp: nameless_map_node)
qed (use i in simp)

lemma nameless_unreferenced: "tree d \<Longrightarrow> nameless d i \<Longrightarrow> \<not> referenced d i"
  by (auto simp: nameless_def referenced_iff[OF tree_keys])

lemma closed_deletes_nameless:
  assumes "wf_db (fs_chunk_size s) (fs_db s)" and "nameless (fs_db s) i" and "open_count i (closed_fds s fd) = 0"
  shows "close_deletes s fd i"
proof -
  obtain cols where cols: "node_of (fs_db s) i = Some cols" "n_kind cols \<noteq> Dir"
    using assms(2) by (auto simp: nameless_def has_kind_def split: option.splits)
  have "entry_count (fs_db s) i = 0"
    using assms(1,2) by (simp add: entry_count_0 nameless_def wf_db_def tree_def)
  then have "n_nlink cols = 0" using assms(1) cols by (simp add: wf_db_def wf_links_def)
  then show ?thesis using cols assms(3) by (simp add: close_deletes_def)
qed

lemma nameless_del_node:
  assumes "\<And>n. entry_of d i n = None" and "nameless (del_node i d) j"
  shows "nameless d j \<and> j \<noteq> i"
proof -
  have "entry_of d i = Map.empty" using assms(1) by (rule ext)
  then have "entry_of (del_node i d) = entry_of d" by (simp add: fun_upd_idem)
  then show ?thesis using assms(2) by (auto simp: nameless_def split: if_splits)
qed

lemma nameless_unlink:
  assumes w: "wf_db (fs_chunk_size s) (fs_db s)" and u: "unlink_check s path = Inr (p, n, i)"
    and j: "nameless (unlink_db p n i now (fs_db s)) j"
  shows "nameless (fs_db s) j \<or> j = i \<and> last_link s i \<and> \<not> referenced (unlink_db p n i now (fs_db s)) i"
proof -
  have e: "entry_of (fs_db s) p n = Some i" and nd: "\<not> has_kind (fs_db s) i Dir" using u by (simp_all add: unlink_check_Inr)
  have t: "tree (fs_db s)" using w by (simp add: wf_db_def)
  obtain cols where cols: "node_of (fs_db s) i = Some cols" using tree_entryD[OF t e] by blast
  have ent: "entry_of (unlink_db p n i now (fs_db s)) = entry_of (del_entry p n (fs_db s))" by (simp add: unlink_db_def)
  have nl: "nameless (del_entry p n (fs_db s)) j" using j by (simp add: unlink_db_def)
  show ?thesis
  proof (cases "j = i")
    case True
    then have "\<nexists>q m. entry_of (del_entry p n (fs_db s)) q m = Some i" using nl by (auto simp: nameless_def)
    moreover have "n_kind cols \<noteq> Dir" using nd cols by (simp add: has_kind_def)
    ultimately have "word_of_int (n_nlink cols - 1) = (0 :: u32)" using other_name[OF w e cols] by blast
    then have "last_link s i" using cols unfolding last_link_def by (simp only:) simp
    moreover have "wf_keys (unlink_db p n i now (fs_db s))"
      using tree_keys[OF t] by (simp add: unlink_db_def touch_def add_nlink_def wf_keys_effects)
    then have "\<not> referenced (unlink_db p n i now (fs_db s)) i" using j True by (auto simp: referenced_iff nameless_def)
    ultimately show ?thesis using True by simp
  next
    case False
    from nl have "nameless (fs_db s) j"
    proof (rule nameless_sub)
      fix q m assume qm: "entry_of (fs_db s) q m = Some j"
      then have "entry_of (del_entry p n (fs_db s)) q m = Some j" using e False by auto
      then show "\<exists>p' n'. entry_of (del_entry p n (fs_db s)) p' n' = Some j" by blast
    qed simp_all
    then show ?thesis by simp
  qed
qed

text \<open>Closing a descriptor: the files of the others stay open, and a nameless file that is not deleted stays open too.\<close>

lemma open_close_other:
  assumes "fs_ok s" and "fdtable_get fd (fs_fdtable s) = Inr x" and "j \<noteq> fe_inode x"
  shows "open_count j (closed_fds s fd) = open_count j (fs_fdtable s)"
  using open_count_close[OF ok_simps(6)[OF assms(1)] assms(2), of j] assms(3) by (simp add: closed_fds_def)

lemma open_close_kept:
  assumes ok: "fs_ok s" and fd: "fdtable_get fd (fs_fdtable s) = Inr x" and j: "nameless (fs_db s) j"
    and "0 < open_count j (fs_fdtable s)" and "j = fe_inode x \<Longrightarrow> \<not> close_deletes s fd j"
  shows "0 < open_count j (closed_fds s fd)"
proof (cases "j = fe_inode x")
  case True
  then show ?thesis using closed_deletes_nameless[OF ok_simps(2)[OF ok] j, of fd] assms(5) by blast
next
  case False
  then show ?thesis using open_close_other[OF ok fd] assms(4) by simp
qed

lemma none_lost_call:
  "call_effect s s' \<Longrightarrow> fs_ok s \<Longrightarrow> reliable (fs_conn s) \<Longrightarrow> none_lost s \<Longrightarrow> none_lost s'"
proof (induction rule: call_effect.induct)
  case (tables s d w s')
  then show ?case using nameless_db_effect[OF tables(1) ok_simps(1)] by (auto simp: none_lost_def becomes_def)
next
  case (created s path p n m u g now flags w s')
  have "nameless (create_db p n m u g now (fs_db s)) i \<Longrightarrow> nameless (fs_db s) i" for i
    using created(1) nameless_new_entry[OF ok_simps(3)[OF created(6)]] by (auto simp: create_db_def add_check_Inr)
  then show ?case using created(5,8) open_count_open[OF ok_simps(6)[OF created(6)]]
    by (auto simp: none_lost_def becomes_def)
next
  case (opens s p n i flags d' now w s')
  have "nameless d' j = nameless (fs_db s) j" for j using opens(3) nameless_blob_changes(2) by blast
  then show ?case using opens(5,8) open_count_open[OF ok_simps(6)[OF opens(6)]]
    by (auto simp: none_lost_def becomes_def)
next
  case (closed fd s x i w s')
  note ok = ok_simps[OF closed(5)]
  have "0 < open_count j (closed_fds s fd)" if j: "nameless (fs_db s) j" for j
    using open_close_kept[OF closed(5,1) j] nameless_unreferenced[OF ok(3) j] closed(2,3,6,7) j
    by (auto simp: none_lost_def)
  then show ?case using closed(4) by (simp add: none_lost_def becomes_def)
next
  case (collected fd s x i w s')
  note ok = ok_simps[OF collected(6)]
  have "i \<noteq> ROOT_INODE" using collected(1,2) ok(5) by (auto simp: fds_ok_def)
  note del = nameless_del_node[OF unreferenced_no_children(1)[OF ok(3,4) collected(4) this]]
  have "0 < open_count j (closed_fds s fd)" if "nameless (del_node i (fs_db s)) j" for j
    using del[OF that] open_close_other[OF collected(6,1)] collected(2,8) by (auto simp: none_lost_def)
  then show ?case using collected(5) by (simp add: none_lost_def becomes_def)
next
  case (unlinked s path p n i now w s')
  note ok = ok_simps[OF unlinked(4)]
  have "nameless (fs_db s) j \<or> j = i \<and> 0 < open_count i (fs_fdtable s)" if "nameless (unlink_db p n i now (fs_db s)) j" for j
    using nameless_unlink[OF ok(2) unlinked(1) that] unlinked(2,5) by auto
  then show ?case using unlinked(3,6) by (auto simp: none_lost_def becomes_def)
next
  case (removed s path p n i now w s')
  note ok = ok_simps[OF removed(6)] and parts = unlink_db_parts[OF removed(6,1)]
  have "nameless (fs_db s) j" if "nameless (del_node i (unlink_db p n i now (fs_db s))) j" for j
  proof -
    have "nameless (unlink_db p n i now (fs_db s)) j" "j \<noteq> i" using nameless_del_node[OF parts(4) that] by simp_all
    then show ?thesis using nameless_unlink[OF ok(2) removed(1)] by blast
  qed
  then show ?case using removed(5,8) by (auto simp: none_lost_def becomes_def)
next
  case (locking s l w s')
  then show ?case by (simp add: none_lost_def becomes_def)
qed

lemma none_lost_effect:
  "fs_effect s s' \<Longrightarrow> fs_ok s \<Longrightarrow> reliable (fs_conn s) \<Longrightarrow> none_lost s \<Longrightarrow> none_lost s'"
  by (induction rule: fs_effect.induct) (use none_lost_call in \<open>auto simp: none_lost_def fs_ok_def fs_inv_def\<close>)

end
