(* ===== verification/Fs_Mkfs.thy ===== *)
theory Fs_Mkfs
  imports Fs_Reach
begin

text \<open>
  Making and opening a filesystem: \<open>mkfs.rs\<close> and the rest of \<open>schema.rs\<close>.  A database file is the
  list of the tables and indexes its schema has so far, with the rows; statements outside a
  transaction commit one by one, so a failure leaves what the earlier ones did.  The files of the
  host, whether one can be opened or removed, and the engine's faults are parameters.
\<close>

section \<open>Sessions: a connection with its settings\<close>

record settings =
  set_journal_wal :: bool
  set_synchronous :: int
  set_foreign_keys :: bool
  set_busy_timeout :: int
  set_mmap_size :: int
  set_temp_memory :: bool

record session =
  ss_conn :: conn
  ss_schema :: "string list"
  ss_settings :: settings

definition on_conn :: "(conn, exn, 'a) io \<Rightarrow> (session, exn, 'a) io" where
  "on_conn m s = (case m (ss_conn s) of (r, c) \<Rightarrow> (r, s\<lparr>ss_conn := c\<rparr>))"

lemma wp_on_conn [wp_eqs]:
  "wp (on_conn m) Q E s
    = wp m (\<lambda>x c. Q x (s\<lparr>ss_conn := c\<rparr>)) (\<lambda>e c. E e (s\<lparr>ss_conn := c\<rparr>)) (ss_conn s)"
  by (auto simp: wp_def on_conn_def split: prod.split sum.split)

text \<open>A statement on a table fails while the schema does not have the table.\<close>

definition on_table :: "string \<Rightarrow> (conn, exn, 'a) io \<Rightarrow> (session, exn, 'a) io" where
  "on_table name m s = (if name \<in> set (ss_schema s) then on_conn m s else (Inl (Fail (Sqlite NoSuchTable)), s))"

lemma wp_on_table [wp_eqs]:
  "wp (on_table name m) Q E s
    = (if name \<in> set (ss_schema s) then wp (on_conn m) Q E s else E (Fail (Sqlite NoSuchTable)) s)"
  by (simp add: wp_def on_table_def)

definition pragma :: "(settings \<Rightarrow> settings) \<Rightarrow> (session, exn, unit) io" where
  "pragma f =
     bindE (on_conn (update_db (\<lambda>d. d))) (\<lambda>_.
     modify (\<lambda>s. s\<lparr>ss_settings := f (ss_settings s)\<rparr>))"

section \<open>schema.rs: pragmas and tables\<close>

definition apply_pragmas :: "sync_mode \<Rightarrow> (session, exn, unit) io" where
  "apply_pragmas mode =
     bindE (pragma (set_journal_wal_update (\<lambda>_. True))) (\<lambda>_.
     bindE (pragma (set_synchronous_update (\<lambda>_. pragma_value mode))) (\<lambda>_.
     bindE (pragma (set_foreign_keys_update (\<lambda>_. True))) (\<lambda>_.
     bindE (pragma (set_busy_timeout_update (\<lambda>_. 5000))) (\<lambda>_.
     bindE (pragma (set_mmap_size_update (\<lambda>_. 0))) (\<lambda>_.
     pragma (set_temp_memory_update (\<lambda>_. True)))))))"

definition DDL :: "string list" where
  "DDL = [''schema_version'', ''nodes'', ''entries'', ''entries_inode_idx'', ''blobs'', ''xattrs'', ''symlinks'']"

text \<open>One \<open>CREATE\<close> statement of the batch.\<close>

definition create_object :: "string \<Rightarrow> (session, exn, unit) io" where
  "create_object name =
     bindE (gets ss_schema) (\<lambda>schema.
     bindE (require (name \<notin> set schema) (Sqlite ObjectExists)) (\<lambda>_.
     bindE (on_conn (update_db (\<lambda>d. d))) (\<lambda>_.
     modify (\<lambda>s. s\<lparr>ss_schema := schema @ [name]\<rparr>))))"

definition insert_version :: "int \<Rightarrow> (conn, exn, unit) io" where
  "insert_version chunk_size =
     stmt (\<lambda>d. if map_of (t_version d) SCHEMA_VERSION \<noteq> None then Inl ConstraintViolation
       else Inr ((), d\<lparr>t_version := AList.update SCHEMA_VERSION chunk_size (t_version d)\<rparr>))"

definition install_schema :: "int \<Rightarrow> (session, exn, unit) io" where
  "install_schema chunk_size =
     bindE (for_each DDL create_object) (\<lambda>_.
     on_table ''schema_version'' (insert_version chunk_size))"

section \<open>The host\<close>

datatype host_file = Database "string list" db | OtherFile

record host =
  h_files :: "string \<rightharpoonup> host_file"
  h_can_open :: "string \<Rightarrow> bool"
  h_removable :: "string \<Rightarrow> bool"
  h_fault :: "nat \<Rightarrow> bool"
  h_pick :: "nat \<Rightarrow> nat"
  h_integrity :: "db \<Rightarrow> string"
  h_settings :: settings  \<comment> \<open>the engine's defaults\<close>

text \<open>
  A new connection.  Opening for writing creates a missing file; on a file that is no database every
  statement fails.
\<close>

definition open_session :: "string \<Rightarrow> bool \<Rightarrow> host \<Rightarrow> exn + session" where
  "open_session path readonly h =
     (let session = (\<lambda>schema d fault. \<lparr>ss_conn = \<lparr>c_db = d, c_tick = 0, c_fault = fault,
         c_pick = h_pick h, c_integrity = h_integrity h\<rparr>, ss_schema = schema, ss_settings = h_settings h\<rparr>) in
      if \<not> h_can_open h path then Inl (Fail (Sqlite CannotOpen))
      else case h_files h path of
        None \<Rightarrow> if readonly then Inl (Fail (Sqlite CannotOpen)) else Inr (session [] empty_tables (h_fault h))
      | Some (Database schema d) \<Rightarrow> Inr (session schema d (h_fault h))
      | Some OtherFile \<Rightarrow> Inr (session [] empty_tables (\<lambda>_. True)))"

definition save :: "string \<Rightarrow> session \<Rightarrow> host \<Rightarrow> host" where
  "save path s h = (if h_files h path = Some OtherFile then h
     else h\<lparr>h_files := (h_files h)(path \<mapsto> Database (ss_schema s) (c_db (ss_conn s)))\<rparr>)"

definition with_session :: "string \<Rightarrow> bool \<Rightarrow> (session, exn, 'a) io \<Rightarrow> (host, exn, 'a) io" where
  "with_session path readonly m h =
     (case open_session path readonly h of
        Inl e \<Rightarrow> (Inl e, h)
      | Inr s \<Rightarrow> (case m s of (r, s') \<Rightarrow> (r, save path s' h)))"

text \<open>\<open>let _ = std::fs::remove_file(path)\<close>\<close>

definition remove_file :: "string \<Rightarrow> (host, exn, unit) io" where
  "remove_file path = modify (\<lambda>h. if h_removable h path then h\<lparr>h_files := (h_files h)(path := None)\<rparr> else h)"

section \<open>mkfs.rs\<close>

record mkfs_options =
  mo_chunk_size :: int
  mo_overwrite :: bool
  mo_owner_uid :: "u32 option"
  mo_owner_gid :: "u32 option"

definition mkfs_options_default :: mkfs_options where
  "mkfs_options_default = \<lparr>mo_chunk_size = DEFAULT_CHUNK_SIZE, mo_overwrite = False,
     mo_owner_uid = None, mo_owner_gid = None\<rparr>"

record open_options =
  oo_readonly :: bool
  oo_uid :: "u32 option"
  oo_gid :: "u32 option"
  oo_sync_mode :: sync_mode
  oo_checkpoint_interval :: "nat option"

definition unwrap_or :: "'a option \<Rightarrow> 'a \<Rightarrow> 'a" where
  "unwrap_or x y = (case x of Some z \<Rightarrow> z | None \<Rightarrow> y)"

definition root_cols :: "u32 \<Rightarrow> u32 \<Rightarrow> int \<Rightarrow> node_cols" where
  "root_cols uid gid now = \<lparr>n_kind = Dir, n_mode = 0x1ED, n_uid = uid, n_gid = gid, n_size = 0,
     n_atime_ns = now, n_mtime_ns = now, n_ctime_ns = now, n_nlink = 2\<rparr>"

definition insert_root :: "u32 \<Rightarrow> u32 \<Rightarrow> int \<Rightarrow> (conn, exn, unit) io" where
  "insert_root uid gid now =
     stmt (\<lambda>d. if node_of d ROOT_INODE \<noteq> None then Inl ConstraintViolation
       else Inr ((), add_node ROOT_INODE (root_cols uid gid now) d))"

definition overwrite_file :: "string \<Rightarrow> mkfs_options \<Rightarrow> (host, exn, unit) io" where
  "overwrite_file path opts =
     bindE (gets (\<lambda>h. h_files h path \<noteq> None)) (\<lambda>exists.
     if exists then
       bindE (require (mo_overwrite opts) AlreadyExists) (\<lambda>_.
       bindE (remove_file path) (\<lambda>_.
       for_each [''-wal'', ''-shm''] (\<lambda>suffix. remove_file (path @ suffix))))
     else ret ())"

definition format_db :: "int \<Rightarrow> u32 \<Rightarrow> u32 \<Rightarrow> int \<Rightarrow> (session, exn, unit) io" where
  "format_db chunk_size uid gid now =
     bindE (apply_pragmas Full) (\<lambda>_.
     bindE (install_schema chunk_size) (\<lambda>_.
     on_table ''nodes'' (insert_root uid gid now)))"

definition mkfs :: "string \<Rightarrow> mkfs_options \<Rightarrow> u32 \<Rightarrow> u32 \<Rightarrow> int \<Rightarrow> (host, exn, unit) io" where
  "mkfs path opts euid egid now =
     bindE (overwrite_file path opts) (\<lambda>_.
     with_session path False
       (format_db (mo_chunk_size opts) (unwrap_or (mo_owner_uid opts) euid)
          (unwrap_or (mo_owner_gid opts) egid) now))"

definition apply_pragmas_maybe_readonly :: "sync_mode \<Rightarrow> bool \<Rightarrow> (session, exn, unit) io" where
  "apply_pragmas_maybe_readonly mode readonly =
     (if \<not> readonly then apply_pragmas mode
      else
        bindE (pragma (set_foreign_keys_update (\<lambda>_. True))) (\<lambda>_.
        bindE (pragma (set_busy_timeout_update (\<lambda>_. 5000))) (\<lambda>_.
        bindE (pragma (set_mmap_size_update (\<lambda>_. 0))) (\<lambda>_.
        pragma (set_temp_memory_update (\<lambda>_. True))))))"

text \<open>The object that \<open>open_fs\<close> returns owns the connection, so the rows are those of its \<open>fs_conn\<close>.\<close>

definition mount_db :: "open_options \<Rightarrow> u32 \<Rightarrow> u32 \<Rightarrow> (nat \<Rightarrow> int) \<Rightarrow> (session, exn, filesystem) io" where
  "mount_db opts euid egid clock =
     bindE (apply_pragmas_maybe_readonly (oo_sync_mode opts) (oo_readonly opts)) (\<lambda>_.
     bindE (on_table ''schema_version'' (fs_new (oo_readonly opts) (unwrap_or (oo_uid opts) euid)
              (unwrap_or (oo_gid opts) egid) clock)) (\<lambda>fs.
     ret (if oo_checkpoint_interval opts \<noteq> None then snd (start_checkpoint fs) else fs)))"

definition open_fs :: "string \<Rightarrow> open_options \<Rightarrow> u32 \<Rightarrow> u32 \<Rightarrow> (nat \<Rightarrow> int) \<Rightarrow> (host, exn, filesystem) io" where
  "open_fs path opts euid egid clock = with_session path (oo_readonly opts) (mount_db opts euid egid clock)"

section \<open>The checkpoint thread (fs.rs)\<close>

text \<open>What \<open>recv_timeout\<close> returns: a stop, a sender that is gone, or nothing within the interval.\<close>

datatype recv_result = Received | Disconnected | Timeout

fun checkpoint_loop :: "recv_result list \<Rightarrow> (conn, exn, bool) io" where
  "checkpoint_loop [] = ret False"
| "checkpoint_loop (Received # rest) = ret True"
| "checkpoint_loop (Disconnected # rest) = ret True"
| "checkpoint_loop (Timeout # rest) = bindE (ok wal_checkpoint) (\<lambda>_. checkpoint_loop rest)"

text \<open>
  The thread opens its own connection, or ends at once; the result says whether it has ended after the
  messages.  \<open>CheckpointHandle::stop\<close> sends the stop after whatever was received and joins the thread.
\<close>

definition checkpoint_thread :: "string \<Rightarrow> recv_result list \<Rightarrow> (host, exn, bool) io" where
  "checkpoint_thread path messages h =
     (case open_session path False h of
        Inl e \<Rightarrow> (Inr True, h)
      | Inr s \<Rightarrow> (case on_conn (checkpoint_loop messages) s of (r, s') \<Rightarrow> (r, save path s' h)))"

definition stop_checkpoint :: "string \<Rightarrow> recv_result list \<Rightarrow> (host, exn, bool) io" where
  "stop_checkpoint path messages = checkpoint_thread path (messages @ [Received])"

section \<open>What the statements do\<close>

definition session_quiet :: "session \<Rightarrow> session \<Rightarrow> bool" where
  "session_quiet s s' \<longleftrightarrow> c_db (ss_conn s') = c_db (ss_conn s) \<and> ss_schema s' = ss_schema s
     \<and> reliable (ss_conn s') = reliable (ss_conn s)"

definition pragmas_set :: "sync_mode \<Rightarrow> bool \<Rightarrow> settings \<Rightarrow> bool" where
  "pragmas_set mode readonly st \<longleftrightarrow> set_foreign_keys st \<and> set_busy_timeout st = 5000 \<and> set_mmap_size st = 0
     \<and> set_temp_memory st \<and> (readonly \<or> set_journal_wal st \<and> set_synchronous st = pragma_value mode)"

text \<open>The state of a session between statements, for its rows, its schema and its settings.\<close>

lemma wp_pragma:
  assumes "\<And>e s'. session_quiet s s' \<Longrightarrow> \<not> reliable (ss_conn s) \<Longrightarrow> E (Fail e) s'"
    and "\<And>s'. session_quiet s s' \<Longrightarrow> ss_settings s' = f (ss_settings s) \<Longrightarrow> Q () s'"
  shows "wp (pragma f) Q E s"
  unfolding pragma_def wp_bindE wp_on_conn
  by (rule wp_update_db) (auto simp: wp_eqs session_quiet_def intro!: assms)

lemma wp_apply_pragmas_maybe_readonly:
  assumes E: "\<And>e s'. session_quiet s s' \<Longrightarrow> \<not> reliable (ss_conn s) \<Longrightarrow> E (Fail e) s'"
    and Q: "\<And>s'. session_quiet s s' \<Longrightarrow> pragmas_set mode ro (ss_settings s') \<Longrightarrow> Q () s'"
  shows "wp (apply_pragmas_maybe_readonly mode ro) Q E s"
  unfolding apply_pragmas_maybe_readonly_def apply_pragmas_def wp_if wp_bindE
  by (auto intro!: wp_pragma E Q simp: session_quiet_def pragmas_set_def)

lemma wp_apply_pragmas:
  assumes "\<And>e s'. session_quiet s s' \<Longrightarrow> \<not> reliable (ss_conn s) \<Longrightarrow> E (Fail e) s'"
    and "\<And>s'. session_quiet s s' \<Longrightarrow> pragmas_set mode False (ss_settings s') \<Longrightarrow> Q () s'"
  shows "wp (apply_pragmas mode) Q E s"
  using wp_apply_pragmas_maybe_readonly[of s E mode False Q] assms
  by (simp add: apply_pragmas_maybe_readonly_def)

lemma wp_create_object:
  assumes "reliable (ss_conn s)" and "name \<notin> set (ss_schema s)"
    and "\<And>s'. c_db (ss_conn s') = c_db (ss_conn s) \<Longrightarrow> reliable (ss_conn s')
      \<Longrightarrow> ss_schema s' = ss_schema s @ [name] \<Longrightarrow> ss_settings s' = ss_settings s \<Longrightarrow> Q () s'"
  shows "wp (create_object name) Q E s"
  unfolding create_object_def wp_bindE wp_gets wp_require wp_on_conn
  using assms(1,2) by (auto simp: wp_eqs intro!: wp_update_db assms(3))

lemma wp_create_objects:
  assumes "reliable (ss_conn s)" and "distinct names" and "set names \<inter> set (ss_schema s) = {}"
    and "\<And>s'. c_db (ss_conn s') = c_db (ss_conn s) \<Longrightarrow> reliable (ss_conn s')
      \<Longrightarrow> ss_schema s' = ss_schema s @ names \<Longrightarrow> ss_settings s' = ss_settings s \<Longrightarrow> Q () s'"
  shows "wp (for_each names create_object) Q E s"
  using assms
proof (induction names arbitrary: s)
  case Nil
  then show ?case by (simp add: wp_eqs)
next
  case (Cons x xs)
  show ?case
    unfolding wp_for_each_Cons
    by (rule wp_create_object) (use Cons.prems in \<open>auto intro!: Cons.IH\<close>)
qed

definition fresh_db :: "int \<Rightarrow> u32 \<Rightarrow> u32 \<Rightarrow> int \<Rightarrow> db" where
  "fresh_db chunk_size uid gid now =
     add_node ROOT_INODE (root_cols uid gid now) (empty_tables\<lparr>t_version := [(SCHEMA_VERSION, chunk_size)]\<rparr>)"

lemma wp_format_db:
  assumes "reliable (ss_conn s)" and "ss_schema s = []" and "c_db (ss_conn s) = empty_tables"
    and "\<And>s'. c_db (ss_conn s') = fresh_db cs uid gid now \<Longrightarrow> ss_schema s' = DDL \<Longrightarrow> pragmas_set Full False (ss_settings s')
      \<Longrightarrow> Q () s'"
  shows "wp (format_db cs uid gid now) Q E s"
  unfolding format_db_def wp_bindE install_schema_def
proof (rule wp_apply_pragmas)
  fix s1 assume s1: "session_quiet s s1" "pragmas_set Full False (ss_settings s1)"
  show "wp (for_each DDL create_object)
         (\<lambda>x. wp (on_table ''schema_version'' (insert_version cs))
           (\<lambda>x. wp (on_table ''nodes'' (insert_root uid gid now)) Q E) E) E s1"
    by (rule wp_create_objects)
      (use assms s1 in \<open>auto simp: session_quiet_def DDL_def wp_eqs insert_version_def insert_root_def fresh_db_def
        empty_tables_def node_of_def intro!: wp_stmt assms(4) split: if_splits\<close>)
qed (use assms(1) in simp)

lemma wp_load_chunk_size:
  assumes "reliable c" and "t_version (c_db c) = [(v, cs)]" and "\<And>t. Q cs (c\<lparr>c_tick := t\<rparr>)"
  shows "wp load_chunk_size Q E c"
  unfolding load_chunk_size_def wp_bindE
  by (rule wp_query_limit1) (use assms in \<open>auto simp: wp_eqs\<close>)

lemma fs_new_run:
  assumes "reliable c" and "t_version (c_db c) = [(v, cs)]" and "word_of_int cs \<noteq> (0 :: u64)"
    and "wf_db (word_of_int cs) (c_db c)" and "rooted (c_db c)"
  shows "\<exists>s c'. fs_new ro u g clock c = (Inr s, c') \<and> c_db c' = c_db c \<and> fs_ok s \<and> fs_conn s = c' \<and> reliable c'
    \<and> fs_fdtable s = fdtable_new \<and> fs_readonly s = ro \<and> fs_chunk_size s = word_of_int cs \<and> fs_caller_uid s = u"
proof -
  have "wp load_chunk_size (\<lambda>x c'. x = cs \<and> c_db c' = c_db c \<and> reliable c') (\<lambda>_ _. False) c"
    by (rule wp_load_chunk_size[OF assms(1,2)]) (simp add: assms(1))
  from wp_returns[OF this] obtain c' where c': "load_chunk_size c = (Inr cs, c')" "c_db c' = c_db c" "reliable c'"
    by blast
  then show ?thesis using assms(3-5)
    using fdtable_inv_new by (simp add: fs_new_def fs_ok_def fs_inv_def locks_inv_new fds_ok_def fdtable_get_Inr fdtable_new_def)
qed

lemma fresh_db_simps [simp]:
  "t_version (fresh_db cs u g now) = [(SCHEMA_VERSION, cs)]" "t_entries (fresh_db cs u g now) = []"
  "entry_of (fresh_db cs u g now) p n = None"
  "node_of (fresh_db cs u g now) i = (if i = ROOT_INODE then Some (root_cols u g now) else None)"
  "blob_of (fresh_db cs u g now) i k = None" "xattr_of (fresh_db cs u g now) i a = None"
  "symlink_of (fresh_db cs u g now) i = None" "t_seq (fresh_db cs u g now) = 1"
  by (simp_all add: fresh_db_def add_node_def empty_tables_def entry_of_def node_of_def blob_of_def xattr_of_def
      symlink_of_def ROOT_INODE_def)

lemma fresh_db_wf: "wf_db c (fresh_db cs u g now)" "wf_dir_links (fresh_db cs u g now)" "rooted (fresh_db cs u g now)"
proof -
  have keys: "wf_keys (fresh_db cs u g now)"
    by (simp add: wf_keys_def fresh_db_def add_node_def empty_tables_def)
  then show "wf_db c (fresh_db cs u g now)"
    by (auto simp: wf_db_def tree_def wf_seq_def wf_names_def wf_root_def wf_refs_def wf_dirs_def edges_def
        wf_links_def wf_symlinks_def wf_extents_def chunks_fit_def has_kind_def root_cols_def ROOT_INODE_def acyclic_def)
  show "wf_dir_links (fresh_db cs u g now)" "rooted (fresh_db cs u g now)"
    by (simp_all add: wf_dir_links_def rooted_def subdir_count_def root_cols_def)
qed

section \<open>Properties\<close>

lemma conn_same: "\<exists>t. c = c\<lparr>c_tick := t\<rparr>"
  by (rule exI[of _ "c_tick c"]) simp


definition faultless :: "host \<Rightarrow> bool" where
  "faultless h \<longleftrightarrow> (\<forall>t. \<not> h_fault h t)"

lemma overwrite_file_free:
  assumes "h_files h path = None \<or> mo_overwrite opts \<and> h_removable h path"
  shows "\<exists>fs. overwrite_file path opts h = (Inr (), h\<lparr>h_files := fs\<rparr>) \<and> fs path = None
    \<and> (\<forall>q. q \<notin> {path, path @ ''-wal'', path @ ''-shm''} \<longrightarrow> fs q = h_files h q)"
proof (cases "h_files h path")
  case None
  then show ?thesis by (auto simp: overwrite_file_def bindE_def gets_def ret_def intro!: exI[of _ "h_files h"])
next
  case (Some f)
  have "wp (overwrite_file path opts)
      (\<lambda>_ h'. \<exists>fs. h' = h\<lparr>h_files := fs\<rparr> \<and> fs path = None
         \<and> (\<forall>q. q \<notin> {path, path @ ''-wal'', path @ ''-shm''} \<longrightarrow> fs q = h_files h q)) (\<lambda>_ _. False) h"
    using assms Some by (auto simp: overwrite_file_def remove_file_def wp_eqs)
  from wp_returns[OF this] show ?thesis by auto
qed

lemma mkfs_run:
  assumes "faultless h" and "h_can_open h path" and "h_files h path = None \<or> mo_overwrite opts \<and> h_removable h path"
  shows "\<exists>fs. mkfs path opts eu eg now h = (Inr (), h\<lparr>h_files := fs\<rparr>)
    \<and> fs path = Some (Database DDL (fresh_db (mo_chunk_size opts) (unwrap_or (mo_owner_uid opts) eu)
        (unwrap_or (mo_owner_gid opts) eg) now))
    \<and> (\<forall>q. q \<notin> {path, path @ ''-wal'', path @ ''-shm''} \<longrightarrow> fs q = h_files h q)"
proof -
  obtain fs where fs: "overwrite_file path opts h = (Inr (), h\<lparr>h_files := fs\<rparr>)" "fs path = None"
    "\<forall>q. q \<notin> {path, path @ ''-wal'', path @ ''-shm''} \<longrightarrow> fs q = h_files h q"
    using overwrite_file_free[OF assms(3)] by blast
  let ?m = "format_db (mo_chunk_size opts) (unwrap_or (mo_owner_uid opts) eu) (unwrap_or (mo_owner_gid opts) eg) now"
  obtain s where s: "open_session path False (h\<lparr>h_files := fs\<rparr>) = Inr s" "reliable (ss_conn s)"
    "ss_schema s = []" "c_db (ss_conn s) = empty_tables"
    using assms(1,2) fs(2) by (simp add: open_session_def Let_def reliable_def faultless_def)
  let ?Q = "\<lambda>(_ :: unit) s'. c_db (ss_conn s') = fresh_db (mo_chunk_size opts)
      (unwrap_or (mo_owner_uid opts) eu) (unwrap_or (mo_owner_gid opts) eg) now \<and> ss_schema s' = DDL"
  have "wp ?m ?Q (\<lambda>_ _. False) s" by (rule wp_format_db[OF s(2-4)]) simp
  from wp_returns[OF this] obtain s' where "?m s = (Inr (), s')" "?Q () s'" by auto
  then have "mkfs path opts eu eg now h = (Inr (), h\<lparr>h_files := fs(path \<mapsto> Database DDL
      (fresh_db (mo_chunk_size opts) (unwrap_or (mo_owner_uid opts) eu) (unwrap_or (mo_owner_gid opts) eg) now))\<rparr>)"
    using fs s(1) by (simp add: mkfs_def bindE_def with_session_def save_def)
  from this fs(3) show ?thesis by (intro exI[of _ "fs(path \<mapsto> _)"] conjI) auto
qed

lemma open_run:
  assumes "faultless h" and "h_can_open h path" and "h_files h path = Some (Database DDL d)"
    and "t_version d = [(v, cs)]" and "word_of_int cs \<noteq> (0 :: u64)" and "wf_db (word_of_int cs) d" and "rooted d"
  shows "\<exists>s. open_fs path opts eu eg clock h = (Inr s, h) \<and> fs_ok s \<and> fs_db s = d \<and> reliable (fs_conn s)
    \<and> fs_fdtable s = fdtable_new \<and> fs_readonly s = oo_readonly opts \<and> fs_chunk_size s = word_of_int cs
    \<and> fs_caller_uid s = unwrap_or (oo_uid opts) eu"
proof -
  obtain s where s: "open_session path (oo_readonly opts) h = Inr s" "reliable (ss_conn s)"
    "ss_schema s = DDL" "c_db (ss_conn s) = d"
    using assms(1-3) by (simp add: open_session_def Let_def reliable_def faultless_def)
  let ?Q = "\<lambda>fs (s' :: session). ss_schema s' = DDL \<and> c_db (ss_conn s') = d \<and> fs_ok fs \<and> fs_db fs = d
    \<and> reliable (fs_conn fs) \<and> fs_fdtable fs = fdtable_new \<and> fs_readonly fs = oo_readonly opts
    \<and> fs_chunk_size fs = word_of_int cs \<and> fs_caller_uid fs = unwrap_or (oo_uid opts) eu"
  have "wp (mount_db opts eu eg clock) ?Q (\<lambda>_ _. False) s"
    unfolding mount_db_def wp_bindE
  proof (rule wp_apply_pragmas_maybe_readonly)
    fix s1 assume s1: "session_quiet s s1"
    obtain fs c' where new: "fs_new (oo_readonly opts) (unwrap_or (oo_uid opts) eu) (unwrap_or (oo_gid opts) eg) clock (ss_conn s1)
        = (Inr fs, c')" "c_db c' = d" "fs_ok fs" "fs_conn fs = c'" "reliable c'" "fs_fdtable fs = fdtable_new"
        "fs_readonly fs = oo_readonly opts" "fs_chunk_size fs = word_of_int cs" "fs_caller_uid fs = unwrap_or (oo_uid opts) eu"
      using fs_new_run[of "ss_conn s1" v cs "oo_readonly opts" "unwrap_or (oo_uid opts) eu" "unwrap_or (oo_gid opts) eg" clock]
        s s1 assms(4-7) by (auto simp: session_quiet_def)
    have "?Q (if oo_checkpoint_interval opts \<noteq> None then snd (start_checkpoint fs) else fs) (s1\<lparr>ss_conn := c'\<rparr>)"
      using new s s1 by (auto simp: session_quiet_def start_checkpoint_def modify_def fs_ok_def fs_inv_def)
    moreover have "''schema_version'' \<in> set (ss_schema s1)" using s s1 by (simp add: session_quiet_def DDL_def)
    ultimately show "wp (on_table ''schema_version'' (fs_new (oo_readonly opts) (unwrap_or (oo_uid opts) eu) (unwrap_or (oo_gid opts) eg) clock))
        (\<lambda>fs. wp (ret (if oo_checkpoint_interval opts \<noteq> None then snd (start_checkpoint fs) else fs)) ?Q (\<lambda>_ _. False))
        (\<lambda>_ _. False) s1"
      by (simp add: wp_eqs del: fun_upd_apply) (simp add: wp_def new(1))
  qed (use s(2) in simp)
  from wp_returns[OF this] obtain fs s' where "mount_db opts eu eg clock s = (Inr fs, s')" "?Q fs s'" by auto
  then show ?thesis using s(1) assms(3) by (auto simp: open_fs_def with_session_def save_def fun_upd_idem)
qed

text \<open>
  C35 (mkfs, open_fs): on a host without faults, a path that is free (or may be overwritten) is
  formatted, and opening the result gives a filesystem that satisfies the invariant and holds
  only the root, with the owner asked for and no open descriptor; other files stay as they were.
\<close>

theorem mkfs_then_open:
  assumes "faultless h" and "h_can_open h path" and "h_files h path = None \<or> mo_overwrite opts \<and> h_removable h path"
    and "0 < mo_chunk_size opts" and "mo_chunk_size opts < 2 ^ 63"
  shows "\<exists>h' s. mkfs path opts eu eg now h = (Inr (), h') \<and> open_fs path oopts eu' eg' clock h' = (Inr s, h')
    \<and> fs_ok s \<and> fs_fdtable s = fdtable_new \<and> fs_readonly s = oo_readonly oopts
    \<and> fs_db s = fresh_db (mo_chunk_size opts) (unwrap_or (mo_owner_uid opts) eu) (unwrap_or (mo_owner_gid opts) eg) now
    \<and> (\<forall>q. q \<notin> {path, path @ ''-wal'', path @ ''-shm''} \<longrightarrow> h_files h' q = h_files h q)"
proof -
  let ?d = "fresh_db (mo_chunk_size opts) (unwrap_or (mo_owner_uid opts) eu) (unwrap_or (mo_owner_gid opts) eg) now"
  obtain fs where fs: "mkfs path opts eu eg now h = (Inr (), h\<lparr>h_files := fs\<rparr>)" "fs path = Some (Database DDL ?d)"
    "\<forall>q. q \<notin> {path, path @ ''-wal'', path @ ''-shm''} \<longrightarrow> fs q = h_files h q"
    using mkfs_run[OF assms(1-3)] by blast
  have "word_of_int (mo_chunk_size opts) \<noteq> (0 :: u64)"
    using assms(4,5) by (simp add: word_of_int_eq_0_iff zdvd_not_zless)
  with open_run[of "h\<lparr>h_files := fs\<rparr>" path ?d SCHEMA_VERSION "mo_chunk_size opts" oopts eu' eg' clock]
  show ?thesis using fs assms(1,2) by (force simp: fresh_db_wf faultless_def)
qed

text \<open>Without \<open>overwrite\<close> an existing file, of whatever content, is refused and left alone.\<close>

theorem mkfs_keeps_existing:
  assumes "h_files h path \<noteq> None" and "\<not> mo_overwrite opts"
  shows "mkfs path opts eu eg now h = (Inl (Fail AlreadyExists), h)"
  using assms by (simp add: mkfs_def overwrite_file_def bindE_def gets_def require_def throw_def)

text \<open>
  (apply_pragmas) whoever opens a database that is made to work has foreign keys enforced,
  read-only or not, and a writer has the write-ahead log and the chosen durability; the rows are not touched.
\<close>

theorem pragmas_enforce_keys:
  assumes "apply_pragmas_maybe_readonly mode readonly s = (Inr (), s')"
  shows "pragmas_set mode readonly (ss_settings s') \<and> c_db (ss_conn s') = c_db (ss_conn s)"
proof -
  have "wp (apply_pragmas_maybe_readonly mode readonly)
      (\<lambda>_ s'. pragmas_set mode readonly (ss_settings s') \<and> c_db (ss_conn s') = c_db (ss_conn s)) (\<lambda>_ _. True) s"
    by (rule wp_apply_pragmas_maybe_readonly) (simp_all add: session_quiet_def)
  from wp_runQ[OF this assms] show ?thesis .
qed

lemma checkpoint_loop_runs:
  "\<exists>t. checkpoint_loop ms c = (Inr (\<exists>m. m \<in> set ms \<and> m \<noteq> Timeout), c\<lparr>c_tick := t\<rparr>)"
proof (induction ms arbitrary: c rule: checkpoint_loop.induct)
  case (4 rest)
  obtain x where "ok wal_checkpoint c = (Inr x, c\<lparr>c_tick := Suc (c_tick c)\<rparr>)"
    by (cases "c_fault c (c_tick c)") (simp_all add: ok_def wal_checkpoint_def stmt_def Let_def)
  then show ?case using 4[of "c\<lparr>c_tick := Suc (c_tick c)\<rparr>"] by (auto simp: bindE_def)
qed (force simp: ret_def conn_same)+

text \<open>
  On a file that is there, the thread changes nothing of any file, whatever the engine
  answers to its checkpoints, and it has ended exactly when it could not open the file or a stop or the loss of
  the sender is among its messages; so the \<open>join\<close> of \<open>stop\<close> returns.
\<close>

theorem checkpoint_thread_harmless:
  assumes "h_files h path \<noteq> None"
  shows "checkpoint_thread path ms h = (Inr (\<not> h_can_open h path \<or> (\<exists>m. m \<in> set ms \<and> m \<noteq> Timeout)), h)
    \<and> stop_checkpoint path ms h = (Inr True, h)"
proof -
  have *: "checkpoint_thread path ms h = (Inr (\<not> h_can_open h path \<or> (\<exists>m. m \<in> set ms \<and> m \<noteq> Timeout)), h)" for ms
  proof (cases "open_session path False h")
    case (Inl e)
    then show ?thesis using assms by (auto simp: checkpoint_thread_def open_session_def Let_def split: if_splits option.splits host_file.splits)
  next
    case (Inr s)
    obtain t where "checkpoint_loop ms (ss_conn s) = (Inr (\<exists>m. m \<in> set ms \<and> m \<noteq> Timeout), (ss_conn s)\<lparr>c_tick := t\<rparr>)"
      using checkpoint_loop_runs by blast
    then show ?thesis using Inr assms
      by (auto simp: checkpoint_thread_def open_session_def Let_def on_conn_def save_def fun_upd_idem
          split: if_splits option.splits host_file.splits)
  qed
  show ?thesis by (auto simp: stop_checkpoint_def *)
qed

definition demo_host :: host where
  "demo_host = \<lparr>h_files = [''/old.db'' \<mapsto> OtherFile], h_can_open = (\<lambda>_. True), h_removable = (\<lambda>_. True), h_fault = (\<lambda>_. False),
     h_pick = (\<lambda>_. 0), h_integrity = (\<lambda>_. ''ok''), h_settings = \<lparr>set_journal_wal = False, set_synchronous = 2,
       set_foreign_keys = False, set_busy_timeout = 0, set_mmap_size = 0, set_temp_memory = False\<rparr>\<rparr>"

definition demo_mount :: open_options where
  "demo_mount = \<lparr>oo_readonly = False, oo_uid = Some 1000, oo_gid = None, oo_sync_mode = Normal, oo_checkpoint_interval = None\<rparr>"

theorem mkfs_then_open_witness:
  "\<exists>h' s. mkfs ''/new.db'' mkfs_options_default 0 0 7 demo_host = (Inr (), h')
    \<and> open_fs ''/new.db'' demo_mount 0 0 (\<lambda>_. 9) h' = (Inr s, h') \<and> fs_ok s \<and> fs_db s = fresh_db 65536 0 0 7
    \<and> h_files h' ''/old.db'' = Some OtherFile"
  using mkfs_then_open[where h = demo_host and path = "''/new.db''" and opts = mkfs_options_default and eu = 0 and eg = 0
      and now = 7 and oopts = demo_mount and eu' = 0 and eg' = 0 and clock = "\<lambda>_. 9"]
  by (force simp: faultless_def demo_host_def mkfs_options_default_def DEFAULT_CHUNK_SIZE_def unwrap_or_def)

theorem mkfs_keeps_existing_witness:
  "mkfs ''/old.db'' mkfs_options_default 0 0 7 demo_host = (Inl (Fail AlreadyExists), demo_host)"
  by (rule mkfs_keeps_existing) (simp_all add: demo_host_def mkfs_options_default_def)

theorem checkpoint_thread_harmless_witness:
  "checkpoint_thread ''/old.db'' [Timeout, Timeout] demo_host = (Inr False, demo_host)"
  using checkpoint_thread_harmless[of demo_host "''/old.db''" "[Timeout, Timeout]"] by (simp add: demo_host_def)

definition demo_session :: session where
  "demo_session = \<lparr>ss_conn = connect (fresh_db 4 0 0 7), ss_schema = DDL, ss_settings = h_settings demo_host\<rparr>"

theorem pragmas_enforce_keys_witness:
  "\<exists>s'. apply_pragmas_maybe_readonly Normal True demo_session = (Inr (), s') \<and> pragmas_set Normal True (ss_settings s')"
proof -
  have "wp (apply_pragmas_maybe_readonly Normal True) (\<lambda>_ _. True) (\<lambda>_ _. False) demo_session"
    by (rule wp_apply_pragmas_maybe_readonly) (simp_all add: demo_session_def)
  from wp_returns[OF this] obtain s' where "apply_pragmas_maybe_readonly Normal True demo_session = (Inr (), s')" by auto
  then show ?thesis using pragmas_enforce_keys by blast
qed

end
