(* ===== verification/Fs_Safety.thy ===== *)
theory Fs_Safety
  imports Fs_Mkfs
begin

text \<open>
  What holds after every history of calls, on a filesystem made by \<open>mkfs\<close>: the invariant of the
  state, no panic and no endless loop, no file lost, nothing changed through a read-only mount,
  and exactly what a call that fails leaves behind.
\<close>

section \<open>A filesystem to apply the properties to\<close>

definition demo_fs :: filesystem where
  "demo_fs = \<lparr>fs_conn = connect (fresh_db 4 0 0 7), fs_chunk_size = 4, fs_readonly = False, fs_caller_uid = 0,
     fs_caller_gid = 0, fs_fdtable = fdtable_new, fs_locks = lock_manager_new, fs_watchers = watch_registry_new,
     fs_checkpoint = False, fs_clock = int, fs_clock_pos = 8\<rparr>"

lemma demo_fs_ok: "fs_ok demo_fs" "reliable (fs_conn demo_fs)" "none_lost demo_fs"
  using fdtable_inv_new fresh_db_wf(1)[of 4 4 0 0 7] fresh_db_wf(3)[of 4 0 0 7]
  by (auto simp: demo_fs_def fs_ok_def fs_inv_def locks_inv_new fds_ok_def fdtable_get_Inr fdtable_new_def none_lost_def
      nameless_def has_kind_def root_cols_def split: if_splits)

lemma reachable_run: "reachable s0 s \<Longrightarrow> call_ok s c \<Longrightarrow> reachable s0 (snd (run c s))"
  by (cases "run c s") (auto intro: reachable.step)

lemma call_keeps_env: "call_effect s s' \<Longrightarrow> reliable (fs_conn s') = reliable (fs_conn s) \<and> fs_readonly s' = fs_readonly s"
  by (induction rule: call_effect.induct) (auto simp: becomes_def same_env_def reliable_def)

lemma effect_keeps_env: "fs_effect s s' \<Longrightarrow> reliable (fs_conn s') = reliable (fs_conn s) \<and> fs_readonly s' = fs_readonly s"
  by (induction rule: fs_effect.induct) (auto simp: call_keeps_env)

text \<open>Induction over histories: an invariant of the transitions holds in every reachable state.\<close>

lemma reachable_invariant:
  assumes "reachable s0 s" and "fs_ok s0" and "P s0"
    and "\<And>s s'. fs_effect s s' \<Longrightarrow> fs_ok s \<Longrightarrow> P s \<Longrightarrow> P s'"
  shows "P s"
  using assms(1)
proof induction
  case (step s c r s')
  have ok: "fs_ok s" by (rule reachable_ok[OF step.hyps(1) assms(2)])
  show ?case by (rule assms(4)[OF run_is_effect(1)[OF ok_simps(1)[OF ok] step.hyps(2,3)] ok step.IH])
qed (fact assms(3))

section \<open>Calls that succeed\<close>

lemma create_check_new: "add_check s path = Inr (p, n) \<Longrightarrow> create_check s path flags = Inr None"
  by (auto simp: add_check_Inr create_check_def parent_check_def)

lemma create_runs:
  assumes "fs_ok s" and "reliable (fs_conn s)" and "room (fs_db s)" and "add_check s path = Inr (p, n)"
  shows "\<exists>s'. fs_create path flags mode s = (Inr (fst (opened s (next_inode (fs_db s)) flags)), s')
    \<and> becomes s (create_db p n mode (fs_caller_uid s) (fs_caller_gid s) (now1 s) (fs_db s))
        (snd (opened s (next_inode (fs_db s)) flags)) (fs_locks s)
        (notify Create path File (next_inode (fs_db s)) None None (now2 s) (fs_watchers s)) s'"
proof -
  have "wp (fs_create path flags mode) (\<lambda>fd s'. fd = fst (opened s (next_inode (fs_db s)) flags)
    \<and> becomes s (create_db p n mode (fs_caller_uid s) (fs_caller_gid s) (now1 s) (fs_db s))
        (snd (opened s (next_inode (fs_db s)) flags)) (fs_locks s)
        (notify Create path File (next_inode (fs_db s)) None None (now2 s) (fs_watchers s)) s') (\<lambda>_ _. False) s"
    by (rule wp_fs_create) (use assms create_check_new[OF assms(4)] in \<open>auto simp: fs_ok_def engine_error_def\<close>)
  from wp_returns[OF this] show ?thesis by auto
qed

lemma unlink_runs:
  assumes "fs_ok s" and "reliable (fs_conn s)" and "unlink_check s path = Inr (p, n, i)"
    and "last_link s i \<longrightarrow> \<not> referenced (unlink_db p n i (now1 s) (fs_db s)) i"
  shows "\<exists>s' cols. fs_unlink path s = (Inr (), s') \<and> node_of (fs_db s) i = Some cols
    \<and> becomes s (unlink_final s p n i) (fs_fdtable s) (fs_locks s)
        (notify Remove path (n_kind cols) i None None (now2 s) (fs_watchers s)) s'"
proof -
  have "wp (fs_unlink path) (\<lambda>_ s'. \<exists>cols. node_of (fs_db s) i = Some cols
    \<and> becomes s (unlink_final s p n i) (fs_fdtable s) (fs_locks s)
        (notify Remove path (n_kind cols) i None None (now2 s) (fs_watchers s)) s') (\<lambda>_ _. False) s"
    by (rule wp_fs_unlink) (use assms in \<open>auto simp: fs_ok_def\<close>)
  from wp_returns[OF this] show ?thesis by auto
qed

lemma demo_path: "parse_path ''/f'' = Inr [''f'']" "valid_component ''f''"
  using parse_path_char[of "''/f''" "[''f'']"]
  by (simp_all add: path_string_def valid_component_def PATH_MAX_def NAME_MAX_def)

lemma demo_add: "add_check demo_fs ''/f'' = Inr (ROOT_INODE, ''f'')" "room (fs_db demo_fs)" "\<not> fdtable_full (fs_fdtable demo_fs)"
  by (simp_all add: add_check_Inr parent_lookup_def demo_path demo_fs_def room_def root_cols_def grants_def check_access_def
      ACCESS_W_def ACCESS_X_def fdtable_full_def fdtable_new_def)

lemma demo_next: "next_inode (fs_db demo_fs) = 2"
  by (simp add: demo_fs_def next_inode_def)

text \<open>A file \<open>/f\<close> with the descriptor 1.\<close>

lemma demo_created:
  obtains s where "run (Files (CallCreate ''/f'' fl 0x1A4)) demo_fs = (Inr (ReFd 1), s)" "reachable demo_fs s" "fs_ok s"
    "reliable (fs_conn s)" "fs_db s = create_db ROOT_INODE ''f'' 0x1A4 0 0 8 (fresh_db 4 0 0 7)"
    "fs_fdtable s = snd (fdtable_open 2 fl 0 0 fdtable_new)" "fs_caller_uid s = 0" "\<not> fs_readonly s" "fs_chunk_size s = 4"
    "none_lost s"
proof -
  from create_runs[OF demo_fs_ok(1,2) demo_add(2,1), of fl "0x1A4"]
  obtain s where s: "fs_create ''/f'' fl 0x1A4 demo_fs = (Inr 1, s)"
    and b: "becomes demo_fs (create_db ROOT_INODE ''f'' 0x1A4 0 0 8 (fresh_db 4 0 0 7))
        (snd (fdtable_open 2 fl 0 0 fdtable_new)) (fs_locks demo_fs)
        (notify Create ''/f'' File 2 None None (now2 demo_fs) (fs_watchers demo_fs)) s"
    by (auto simp: demo_next) (auto simp: demo_fs_def fdtable_open_def Let_def fdtable_new_def)
  have r: "run (Files (CallCreate ''/f'' fl 0x1A4)) demo_fs = (Inr (ReFd 1), s)"
    by (simp add: reply_def bindE_def ret_def s)
  have re: "reachable demo_fs s" by (rule reachable.step[OF reachable.start _ r]) (simp add: demo_add)
  have rel: "reliable (fs_conn s)" "fs_caller_uid s = 0" "\<not> fs_readonly s" "fs_chunk_size s = 4"
    using b demo_fs_ok(2) by (auto simp: becomes_def same_env_def reliable_def demo_fs_def)
  have "fs_ok s" by (rule reachable_ok[OF re demo_fs_ok(1)])
  moreover have "none_lost s"
    by (rule reachable_invariant[OF re demo_fs_ok(1), where P = "\<lambda>s. reliable (fs_conn s) \<and> none_lost s", THEN conjunct2])
      (use demo_fs_ok none_lost_effect effect_keeps_env in auto)
  ultimately show thesis using that[OF r re _ rel(1) _ _ rel(2-4)] b by (simp add: becomes_def)
qed

lemma demo_file_simps:
  "entry_of (create_db ROOT_INODE ''f'' m u g now (fresh_db 4 0 0 7)) p n
    = (if (p, n) = (ROOT_INODE, ''f'') then Some 2 else None)"
  "node_of (create_db ROOT_INODE ''f'' m u g now (fresh_db 4 0 0 7)) 2 = Some (fresh_node File (m AND 0xFFF) u g now)"
  "map_option n_kind (node_of (create_db ROOT_INODE ''f'' m u g now (fresh_db 4 0 0 7)) ROOT_INODE) = Some Dir"
  by (auto simp: create_db_def new_entry_def touch_def next_inode_def ROOT_INODE_def root_cols_def)

lemma demo_file_root:
  "\<exists>cols. node_of (create_db ROOT_INODE ''f'' m u g now (fresh_db 4 0 0 7)) ROOT_INODE = Some cols \<and> n_kind cols = Dir \<and> n_mode cols = 0x1ED"
  by (auto simp: create_db_def new_entry_def touch_def next_inode_def ROOT_INODE_def root_cols_def set_time_cols_def set_if_def)

section \<open>Every history\<close>

text \<open>
  C1 (Filesystem): every call, with whatever arguments and engine failures, leads from a state that
  satisfies the invariant to one that does: tables with their keys and references, a tree of
  directories without cycles or detached parts, link counts of files equal to their names, chunks
  within the size, well-formed descriptors and locks.
\<close>

theorem histories_keep_invariant:
  assumes "fs_ok s0" and "reachable s0 s"
  shows "fs_inv s \<and> rooted (fs_db s) \<and> fds_ok (fs_fdtable s)"
  using reachable_ok[OF assms(2,1)] by (simp add: fs_ok_def)

theorem histories_keep_invariant_witness:
  "fs_inv (snd (run (Names (CallMkdir ''/a'' 0x1ED)) demo_fs))"
  using histories_keep_invariant[OF demo_fs_ok(1) reachable_run[OF reachable.start, of demo_fs "Names (CallMkdir ''/a'' 0x1ED)"]]
  by simp

text \<open>
  C6 (Filesystem): in every reachable state every call returns, with a value or an \<open>Error\<close>: no
  division by zero, no slice out of range, and the loops over parents end.
\<close>

theorem calls_return:
  assumes "fs_ok s0" and "reachable s0 s" and "call_ok s c"
  shows "fst (run c s) \<noteq> Inl Panic \<and> fst (run c s) \<noteq> Inl Diverges"
proof -
  obtain r s' where r: "run c s = (r, s')" by fastforce
  have "fs_inv s" using reachable_ok[OF assms(2,1)] by (simp add: fs_ok_def)
  then show ?thesis using run_is_effect(2)[OF _ assms(3) r] r by fastforce
qed

theorem calls_return_witness:
  "fst (run (Files (CallRead 1 0 10)) (snd (run (Files (CallCreate ''/f'' 2 0x1A4)) demo_fs))) \<noteq> Inl Panic"
proof -
  let ?s = "snd (run (Files (CallCreate ''/f'' 2 0x1A4)) demo_fs)"
  have "call_ok demo_fs (Files (CallCreate ''/f'' 2 0x1A4))"
    by (simp add: demo_fs_def fdtable_full_def fdtable_new_def)
  from calls_return[OF demo_fs_ok(1) reachable_run[OF reachable.start this], of "Files (CallRead 1 0 10)"] show ?thesis
    by simp
qed

text \<open>
  C7 (unlink, rename, close_fd): as long as the engine does not fail, a file without any name is
  open: its node and its blocks go with the last of its names and descriptors.
\<close>

theorem no_file_lost:
  assumes "fs_ok s0" and "reliable (fs_conn s0)" and "none_lost s0" and "reachable s0 s" and "nameless (fs_db s) i"
  shows "0 < open_count i (fs_fdtable s)"
proof -
  have "reliable (fs_conn s) \<and> none_lost s"
    by (rule reachable_invariant[OF assms(4,1)]) (use assms(2,3) none_lost_effect effect_keeps_env in auto)
  then show ?thesis using assms(5) by (simp add: none_lost_def)
qed

theorem no_file_lost_witness:
  "\<exists>s s'. reachable demo_fs s' \<and> run (Names (CallUnlink ''/f'')) s = (Inr ReUnit, s') \<and> nameless (fs_db s') 2
    \<and> 0 < open_count 2 (fs_fdtable s')"
proof -
  obtain s where s: "reachable demo_fs s" "fs_ok s" "reliable (fs_conn s)"
    "fs_db s = create_db ROOT_INODE ''f'' 0x1A4 0 0 8 (fresh_db 4 0 0 7)"
    "fs_fdtable s = snd (fdtable_open 2 2 0 0 fdtable_new)" "fs_caller_uid s = 0" "\<not> fs_readonly s"
    by (rule demo_created)
  obtain cols where root: "node_of (fs_db s) ROOT_INODE = Some cols" "n_mode cols = 0x1ED"
    using demo_file_root[of "0x1A4" 0 0 8] s(4) by auto
  have u: "unlink_check s ''/f'' = Inr (ROOT_INODE, ''f'', 2)"
    using s(6,7) root demo_file_simps by (auto simp: unlink_check_Inr s(4) parent_lookup_def demo_path demo_file_simps has_kind_def grants_def
        check_access_def ACCESS_W_def ACCESS_X_def)
  have gone: "entry_of (unlink_db ROOT_INODE ''f'' 2 now (fs_db s)) p n = None" for p n now
    by (simp add: s(4) unlink_db_def demo_file_simps)
  have keys: "wf_keys (unlink_db ROOT_INODE ''f'' 2 now (fs_db s))" for now
    using unlink_db_parts(1)[OF s(2) u] by (simp add: wf_db_def tree_def)
  have "\<not> referenced (unlink_db ROOT_INODE ''f'' 2 (now1 s) (fs_db s)) 2" by (simp add: referenced_iff[OF keys] gone)
  from unlink_runs[OF s(2,3) u] this obtain s' where r: "fs_unlink ''/f'' s = (Inr (), s')"
    and b: "fs_db s' = unlink_final s ROOT_INODE ''f'' 2" "fs_fdtable s' = fs_fdtable s"
    by (auto simp: becomes_def)
  have one: "open_count 2 (fs_fdtable s) = 1" by (simp add: s(5) open_count_def fdtable_open_def fdtable_new_def Let_def)
  have run: "run (Names (CallUnlink ''/f'')) s = (Inr ReUnit, s')" by (simp add: reply_def bindE_def ret_def r)
  have re: "reachable demo_fs s'" by (rule reachable.step[OF s(1) _ run]) simp
  have "nameless (fs_db s') 2"
    using gone one s(4) demo_file_simps(2)[of "0x1A4" 0 0 8]
    by (simp add: b unlink_final_def Let_def nameless_def has_kind_def) (simp add: unlink_db_def touch_def add_nlink_def ROOT_INODE_def)
  with no_file_lost[OF demo_fs_ok re, of 2] re run show ?thesis by blast
qed

section \<open>Read-only mounts\<close>

definition named_fds :: "filesystem \<Rightarrow> bool" where
  "named_fds s \<longleftrightarrow> (\<forall>fd x. fdtable_get fd (fs_fdtable s) = Inr x \<longrightarrow> (\<exists>p n. entry_of (fs_db s) p n = Some (fe_inode x)))"

lemma caller_irrelevant [simp]:
  "fs_ok (s\<lparr>fs_caller_uid := u, fs_caller_gid := g\<rparr>) = fs_ok s"
  "named_fds (s\<lparr>fs_caller_uid := u, fs_caller_gid := g\<rparr>) = named_fds s"
  by (simp_all add: named_fds_def fs_ok_def fs_inv_def)

lemma readonly_db_effect: "db_effect s d \<Longrightarrow> fs_readonly s \<Longrightarrow> d = fs_db s"
  by (induction rule: db_effect.induct)
    (auto simp: add_check_Inr link_check_Inr rmdir_check_Inr renames_def write_check_def)

lemma readonly_call:
  "call_effect s s' \<Longrightarrow> fs_ok s \<Longrightarrow> fs_readonly s \<Longrightarrow> named_fds s \<Longrightarrow> fs_db s' = fs_db s \<and> named_fds s'"
proof (induction rule: call_effect.induct)
  case (opens s p n i flags d' now w s')
  then show ?case by (auto simp: named_fds_def becomes_def fdtable_get_open split: if_splits)
next
  case (collected fd s x i w s')
  note ok = ok_simps[OF collected(6)]
  have "i \<noteq> ROOT_INODE" using collected(1,2) ok(5) by (auto simp: fds_ok_def)
  from unreferenced_no_children(2)[OF ok(3,4) collected(4) this] have False
    using collected(1,2,8) unfolding named_fds_def by blast
  then show ?case ..
qed (auto simp: named_fds_def becomes_def closed_fds_def fdtable_get_close add_check_Inr unlink_check_Inr
    dest: readonly_db_effect)

lemma readonly_effect:
  "fs_effect s s' \<Longrightarrow> fs_ok s \<Longrightarrow> fs_readonly s \<Longrightarrow> named_fds s \<Longrightarrow> fs_db s' = fs_db s \<and> named_fds s'"
  by (induction rule: fs_effect.induct) (simp_all add: readonly_call)

text \<open>
  C11 (require_writable): on a read-only mount no history of calls changes a row, \<open>close_fd\<close> included,
  which deletes nodes without asking whether the mount is writable.
\<close>

theorem readonly_mount_frozen:
  assumes "fs_ok s0" and "fs_readonly s0" and "fs_fdtable s0 = fdtable_new" and "reachable s0 s"
  shows "fs_db s = fs_db s0"
proof -
  have "named_fds s0" using assms(3) by (simp add: named_fds_def fdtable_get_Inr fdtable_new_def)
  have "fs_readonly s \<and> named_fds s \<and> fs_db s = fs_db s0"
    by (rule reachable_invariant[OF assms(4,1)])
      (use \<open>named_fds s0\<close> assms(2) in \<open>auto dest: readonly_effect effect_keeps_env\<close>)
  then show ?thesis by blast
qed

definition demo_readonly :: filesystem where
  "demo_readonly = demo_fs\<lparr>fs_readonly := True\<rparr>"

theorem readonly_mount_frozen_witness:
  "fs_db (snd (run (Names (CallMkdir ''/a'' 0x1ED)) demo_readonly)) = fresh_db 4 0 0 7"
proof -
  have "fs_ok demo_readonly" using demo_fs_ok(1) by (simp add: demo_readonly_def fs_ok_def fs_inv_def)
  moreover have "fs_readonly demo_readonly" "fs_fdtable demo_readonly = fdtable_new" "fs_db demo_readonly = fresh_db 4 0 0 7"
    by (simp_all add: demo_readonly_def demo_fs_def)
  ultimately show ?thesis
    using readonly_mount_frozen[OF _ _ _ reachable_run[OF reachable.start, of demo_readonly "Names (CallMkdir ''/a'' 0x1ED)"]] by simp
qed

section \<open>Calls that fail\<close>

text \<open>
  What a call leaves behind when it fails.  Most calls run one transaction and leave nothing.  \<open>unlink\<close> commits before it
  deletes the node, \<open>close_fd\<close> gives up the descriptor and its locks before it looks at the node, \<open>setxattr\<close> and
  \<open>removexattr\<close> change the attribute before the time of the node, and a lock that is refused leaves all that is held.
\<close>

fun left_behind :: "filesystem \<Rightarrow> fs_call \<Rightarrow> filesystem \<Rightarrow> bool" where
  "left_behind s (Names (CallUnlink path)) s' \<longleftrightarrow> fs_quiet s s'
     \<or> (\<exists>p n i. unlink_check s path = Inr (p, n, i) \<and> last_link s i \<and> open_count i (fs_fdtable s) = 0
          \<and> (\<not> reliable (fs_conn s) \<or> referenced (unlink_db p n i (now1 s) (fs_db s)) i)
          \<and> becomes s (unlink_db p n i (now1 s) (fs_db s)) (fs_fdtable s) (fs_locks s) (fs_watchers s) s')"
| "left_behind s (Files (CallClose fd)) s' \<longleftrightarrow> (case fdtable_get fd (fs_fdtable s) of
       Inl e \<Rightarrow> fs_quiet s s'
     | Inr x \<Rightarrow> (node_of (fs_db s) (fe_inode x) = None \<or> \<not> reliable (fs_conn s) \<or> referenced (fs_db s) (fe_inode x))
          \<and> becomes s (fs_db s) (closed_fds s fd) (closed_locks s fd (fe_inode x)) (fs_watchers s) s')"
| "left_behind s (Attrs (CallSetxattr path name v flags)) s' \<longleftrightarrow> fs_quiet s s'
     \<or> \<not> reliable (fs_conn s) \<and> (\<exists>i d'. setxattr_check s path name v flags = Inr i \<and> xattr_stored i name v (fs_db s) d'
          \<and> becomes s d' (fs_fdtable s) (fs_locks s) (fs_watchers s) s')"
| "left_behind s (Attrs (CallRemovexattr path name)) s' \<longleftrightarrow> fs_quiet s s'
     \<or> \<not> reliable (fs_conn s) \<and> (\<exists>i. removexattr_check s path name = Inr i
          \<and> becomes s (del_xattr i name (fs_db s)) (fs_fdtable s) (fs_locks s) (fs_watchers s) s')"
| "left_behind s (Locks c) s' \<longleftrightarrow> records_of (fs_locks s') = records_of (fs_locks s)
     \<and> becomes s (fs_db s) (fs_fdtable s) (fs_locks s') (fs_watchers s) s'"
| "left_behind s (CallAsUser u g c) s' \<longleftrightarrow> fs_caller_uid s' = fs_caller_uid s \<and> fs_caller_gid s' = fs_caller_gid s
     \<and> left_behind (s\<lparr>fs_caller_uid := u, fs_caller_gid := g\<rparr>) c (s'\<lparr>fs_caller_uid := u, fs_caller_gid := g\<rparr>)"
| "left_behind s c s' \<longleftrightarrow> fs_quiet s s'"

abbreviation fails_with :: "reply fs \<Rightarrow> filesystem \<Rightarrow> (filesystem \<Rightarrow> bool) \<Rightarrow> bool" where
  "fails_with m s P \<equiv> wp m (\<lambda>_ _. True) (\<lambda>_. P) s"

lemma quiet_self: "fs_quiet s s" "fs_quiet s (s\<lparr>fs_conn := (fs_conn s)\<lparr>c_tick := t\<rparr>\<rparr>)"
  by (simp_all add: quiet_defs)

lemma names_fail: "fs_inv s \<Longrightarrow> fails_with (run_name c) s (left_behind s (Names c))"
  by (cases c) (auto simp: wp_eqs intro!: wp_fs_mkdir wp_fs_symlink wp_fs_link wp_fs_rmdir wp_fs_rename wp_fs_unlink)

lemma files_fail: "fs_inv s \<Longrightarrow> call_ok s (Files c) \<Longrightarrow> fails_with (run_file c) s (left_behind s (Files c))"
  by (cases c) (auto simp: wp_eqs intro!: wp_fs_create wp_fs_open wp_fs_write_fd wp_fs_read_fd wp_fs_close_fd)

lemma attrs_fail: "fails_with (run_attr c) s (left_behind s (Attrs c))"
  by (cases c) (auto simp: wp_eqs intro!: wp_fs_chmod wp_fs_chown wp_fs_utimes wp_fs_setxattr wp_fs_removexattr)

lemma queries_fail: "fs_inv s \<Longrightarrow> fails_with (run_query c) s (left_behind s (Queries c))"
  by (cases c; simp only: run_query.simps wp_reply)
    (auto simp: wp_eqs quiet_self fs_posix_getlk_def fs_ofd_getlk_def split: sum.split
      intro!: wp_fs_stat wp_fs_getxattr wp_fs_listxattr wp_fs_readlink wp_path_of_inode wp_fs_readdir inv_tree)

lemma others_fail: "fails_with (run_other c) s (left_behind s (Others c))"
  by (cases c) (auto simp: wp_eqs intro!: wp_fs_fsync wp_fs_watch, auto simp: wp_def split: prod.split)

lemma refused_keeps_records: "namespace_lock ns i owner op start len f m = (Inl e, m') \<Longrightarrow> records_of m' = records_of m"
proof -
  assume "namespace_lock ns i owner op start len f m = (Inl e, m')"
  then have "m' = m(i \<mapsto> records_of m i)"
    by (cases op) (simp_all add: namespace_lock_def Let_def flip: records_of_def split: if_splits option.splits)
  then show ?thesis by (simp add: records_of_def fun_eq_iff)
qed

lemma with_locks_fails:
  assumes "\<And>i m e m'. f i m = (Inl e, m') \<Longrightarrow> records_of m' = records_of m"
  shows "wp (with_locks fd f) (\<lambda>_ _. True) (\<lambda>_ s'. records_of (fs_locks s') = records_of (fs_locks s)
    \<and> becomes s (fs_db s) (fs_fdtable s) (fs_locks s') (fs_watchers s) s') s"
  using assms by (auto simp: with_locks_def get_fd_def bindE_def wp_def of_result_def outcome_defs split: sum.split prod.split)

lemma locks_fail: "fails_with (run_lock c) s (left_behind s (Locks c))"
  by (cases c) (auto simp: wp_reply fs_posix_lock_def fs_ofd_lock_def fs_flock_def posix_lock_def ofd_lock_def flock_def
      intro!: wp_mono[OF with_locks_fails] intro: refused_keeps_records)

lemma left_behind_caller: "left_behind s c s' \<Longrightarrow> fs_caller_uid s' = fs_caller_uid s \<and> fs_caller_gid s' = fs_caller_gid s"
  by (cases "(s, c, s')" rule: left_behind.cases) (auto simp: outcome_defs split: sum.splits)

lemma left_behind_as:
  assumes "left_behind (s\<lparr>fs_caller_uid := u, fs_caller_gid := g\<rparr>) c s'"
  shows "s'\<lparr>fs_caller_uid := u, fs_caller_gid := g\<rparr> = s'"
  using left_behind_caller[OF assms] by (cases s') simp

lemma call_fails: "fs_inv s \<Longrightarrow> call_ok s c \<Longrightarrow> fails_with (run c) s (left_behind s c)"
proof (induction c arbitrary: s)
  case (CallAsUser u g c)
  let ?s = "s\<lparr>fs_caller_uid := u, fs_caller_gid := g\<rparr>"
  have "fs_inv ?s" and "call_ok ?s c"
    using CallAsUser.prems call_ok_cong[of ?s s c] by (simp_all add: fs_inv_def)
  from CallAsUser.IH[OF this] show ?case
    unfolding run.simps wp_as_user by (rule wp_mono) (use left_behind_as in fastforce)+
qed (auto simp del: run_name.simps run_file.simps run_attr.simps run_query.simps run_lock.simps run_other.simps
    simp: names_fail files_fail attrs_fail queries_fail locks_fail others_fail)

text \<open>
  C5 (Filesystem): what any call that fails, for whatever reason and at whatever statement, leaves behind.  It leaves
  tables, descriptors, locks and watchers as they were and tells no watcher anything, with these exceptions: an \<open>unlink\<close> may have
  taken the last name of a closed file and left its node, a \<open>close_fd\<close> of an open descriptor has closed it and released
  its locks but left the tables, a \<open>setxattr\<close> or \<open>removexattr\<close> on a failing engine may have changed the attribute
  without the time; a refused lock leaves all locks that are held.
\<close>

theorem failed_calls_leave_behind:
  assumes "fs_ok s0" and "reachable s0 s" and "call_ok s c" and "run c s = (Inl e, s')"
  shows "left_behind s c s'"
proof -
  have "fs_inv s" using reachable_ok[OF assms(2,1)] by (simp add: fs_ok_def)
  from wp_runE[OF call_fails[OF this assms(3)] assms(4)] show ?thesis .
qed

theorem failed_calls_leave_behind_witness:
  "\<exists>e s'. run (Names (CallRmdir ''/f'')) demo_fs = (Inl e, s') \<and> fs_quiet demo_fs s'"
proof -
  have "rmdir_check demo_fs ''/f'' \<noteq> Inr x" for x
    by (cases x) (auto simp: rmdir_check_Inr demo_fs_def)
  then have "wp (run (Names (CallRmdir ''/f''))) (\<lambda>_ _. False) (\<lambda>_ _. True) demo_fs"
    using demo_fs_ok(1) by (auto simp: wp_eqs fs_ok_def intro!: wp_fs_rmdir)
  then obtain e s' where r: "run (Names (CallRmdir ''/f'')) demo_fs = (Inl e, s')"
    by (auto simp: wp_def split: prod.splits sum.splits)
  with failed_calls_leave_behind[OF demo_fs_ok(1) reachable.start _ r] show ?thesis by auto
qed

end
