(* ===== verification/Fs_Access.thy ===== *)
theory Fs_Access
  imports Fs_Safety
begin

text \<open>
  Who may change what: entries of a directory change only for a caller who may write and search
  the directory, the owner and the mode of a node only for the owner and root.
\<close>

section \<open>The entries after each operation\<close>

lemma entries_added:
  "entry_of (mkdir_db p n m u g now d) q x = (if (q, x) = (p, n) then Some (next_inode d) else entry_of d q x)"
  "entry_of (create_db p n m u g now d) q x = (if (q, x) = (p, n) then Some (next_inode d) else entry_of d q x)"
  "entry_of (symlink_db t p n u g now d) q x = (if (q, x) = (p, n) then Some (next_inode d) else entry_of d q x)"
  "entry_of (link_db p n i now d) q x = (if (q, x) = (p, n) then Some i else entry_of d q x)"
  "entry_of (unlink_db p n i now d) q x = (if (q, x) = (p, n) then None else entry_of d q x)"
  by (auto simp: mkdir_db_def create_db_def symlink_db_def link_db_def unlink_db_def)

lemma entries_rmdir:
  assumes "tree d" and "rows_under d i = []"
  shows "entry_of (rmdir_db p n i now d) q x = (if (q, x) = (p, n) then None else entry_of d q x)"
  using rows_under_Nil[OF tree_keys[OF assms(1)], of i] assms(2) by (auto simp: rmdir_db_def)

lemma entries_replaced:
  assumes t: "tree d" and j: "entry_of d p n = Some j" and rep: "replaced sp p n j k now d d'"
  shows "entry_of d' q x = (if (q, x) = (p, n) then None else entry_of d q x)"
proof -
  have none: "entry_of d j m = None" for m
    using rep file_no_children[OF t, of j m] by (cases "has_kind d j Dir") (auto simp: replaced_def replaceable_def has_kind_def)
  have "p \<noteq> j" using no_self_entry[OF t j] by auto
  then show ?thesis using none[of x] rep by (auto simp: replaced_def replace_db_def Let_def)
qed

lemma entries_renamed:
  assumes t: "tree d" and src: "entry_of d sp sn = Some i" and re: "renamed k i sp sn p n now d d'"
  shows "entry_of d' q x = (if (q, x) = (p, n) then Some i else if (q, x) = (sp, sn) then None else entry_of d q x)"
proof (cases "entry_of d p n = None \<or> (p, n) = (sp, sn)")
  case True
  then have "d' = move_db k i sp sn p n now d" using re by (simp add: renamed_def)
  then show ?thesis by (simp add: entries_of_move_db)
next
  case False
  then obtain j d1 where j: "entry_of d p n = Some j" and rep: "replaced sp p n j k now d d1"
    and d': "d' = move_db k i sp sn p n now d1" using re by (auto simp: renamed_def split: if_splits)
  show ?thesis by (simp add: d' entries_of_move_db entries_replaced[OF t j rep])
qed

section \<open>The caller of a call\<close>

text \<open>The state as the innermost \<open>as_user\<close> of a call sees it.\<close>

fun acting :: "fs_call \<Rightarrow> filesystem \<Rightarrow> filesystem" where
  "acting (CallAsUser u g c) s = acting c (s\<lparr>fs_caller_uid := u, fs_caller_gid := g\<rparr>)"
| "acting c s = s"

lemma acting_same: "fs_conn (acting c s) = fs_conn s" "fs_readonly (acting c s) = fs_readonly s"
  "fs_fdtable (acting c s) = fs_fdtable s" "fs_ok (acting c s) = fs_ok s"
  by (induction c arbitrary: s) simp_all

lemma run_acting:
  "fs_inv s \<Longrightarrow> call_ok s c \<Longrightarrow> run c s = (r, s') \<Longrightarrow>
    \<exists>s1. call_effect (acting c s) s1 \<and> fs_conn s' = fs_conn s1 \<and> fs_fdtable s' = fs_fdtable s1"
proof (induction c arbitrary: s s')
  case (CallAsUser u g c)
  let ?s = "s\<lparr>fs_caller_uid := u, fs_caller_gid := g\<rparr>"
  obtain s1 where s1: "run c ?s = (r, s1)" "s' = s1\<lparr>fs_caller_uid := fs_caller_uid s, fs_caller_gid := fs_caller_gid s\<rparr>"
    using CallAsUser.prems(3) by (auto simp: as_user_def split: prod.splits)
  have "fs_inv ?s" "call_ok ?s c" using CallAsUser.prems call_ok_cong[of ?s s c] by (simp_all add: fs_inv_def)
  from CallAsUser.IH[OF this s1(1)] show ?case using s1(2) by simp
next
  case (Names c)
  from wp_run[OF run_name_effect[OF Names(1)] Names(3)[unfolded run.simps]] show ?case by (cases r) auto
next
  case (Files c)
  from wp_run[OF run_file_effect[OF Files(1) Files(2)[unfolded call_ok.simps]] Files(3)[unfolded run.simps]]
  show ?case by (cases r) auto
next
  case (Attrs c)
  from wp_run[OF run_attr_effect Attrs(3)[unfolded run.simps]] show ?case by (cases r) auto
next
  case (Queries c)
  from wp_run[OF run_query_effect[OF Queries(1)] Queries(3)[unfolded run.simps]] show ?case by (cases r) auto
next
  case (Locks c)
  from wp_run[OF run_lock_effect[OF Locks(2)[unfolded call_ok.simps]] Locks(3)[unfolded run.simps]]
  show ?case by (cases r) auto
next
  case (Others c)
  from wp_run[OF run_other_effect Others(3)[unfolded run.simps]] show ?case by (cases r) auto
qed

section \<open>Entries\<close>

definition may_write_dir :: "filesystem \<Rightarrow> inode \<Rightarrow> bool" where
  "may_write_dir s p \<longleftrightarrow> \<not> fs_readonly s \<and> (\<exists>cols. node_of (fs_db s) p = Some cols \<and> grants s cols (ACCESS_W OR ACCESS_X))"

lemma entries_db_effect:
  assumes "db_effect s d" and inv: "fs_inv s" and ne: "entry_of d p n \<noteq> entry_of (fs_db s) p n"
  shows "may_write_dir s p"
  using assms(1)
proof cases
  case (rmdir path p' n' i now)
  then show ?thesis using ne entries_rmdir[OF inv_tree[OF inv], of i]
    by (auto simp: rmdir_check_Inr may_write_dir_def split: if_splits)
next
  case (rename src dst sp sn p' n' i k now)
  then have "p = p' \<or> p = sp" using ne entries_renamed[OF inv_tree[OF inv] _ rename(2)]
    by (auto simp: renames_def split: if_splits)
  then show ?thesis using rename(1) by (auto simp: renames_def may_write_dir_def)
next
  case (written i cols offset data now)
  then show ?thesis using ne entries_of_blob_changes(1) by metis
qed (use ne in \<open>auto simp: add_check_Inr link_check_Inr may_write_dir_def entries_added split: if_splits\<close>)

lemma entries_call:
  "call_effect s s' \<Longrightarrow> fs_ok s \<Longrightarrow> entry_of (fs_db s') p n \<noteq> entry_of (fs_db s) p n \<Longrightarrow> may_write_dir s p"
proof (induction rule: call_effect.induct)
  case (tables s d w s')
  then show ?case using entries_db_effect[OF tables(1)] by (auto simp: becomes_def ok_simps)
next
  case (opens s p' n' i flags d' now w s')
  then show ?case using entries_of_blob_changes(2) by (auto simp: becomes_def)
next
  case (collected fd s x i w s')
  note ok = ok_simps[OF collected(6)]
  have "i \<noteq> ROOT_INODE" using collected(1,2) ok(5) by (auto simp: fds_ok_def)
  note gone = unreferenced_no_children(1)[OF ok(3,4) collected(4) this]
  show ?case using collected(5,7) gone by (auto simp: becomes_def split: if_splits)
next
  case (removed s path p' n' i now w s')
  have "\<not> has_kind (fs_db s) i Dir" using removed(1) by (simp add: unlink_check_Inr)
  note none = file_no_children[OF ok_simps(3)[OF removed(6)] this]
  show ?case using removed(1,5,7) none by (auto simp: becomes_def entries_added unlink_check_Inr may_write_dir_def split: if_splits)
qed (auto simp: becomes_def entries_added add_check_Inr unlink_check_Inr may_write_dir_def split: if_splits)

section \<open>Owners and modes\<close>

definition owner_of :: "db \<Rightarrow> inode \<Rightarrow> (u32 \<times> u32 \<times> u32) option" where
  "owner_of d i = map_option (\<lambda>c. (n_mode c, n_uid c, n_gid c)) (node_of d i)"

lemma owner_of_map_node:
  "(\<And>n. n_mode (f n) = n_mode n \<and> n_uid (f n) = n_uid n \<and> n_gid (f n) = n_gid n)
    \<Longrightarrow> owner_of (map_node i f d) j = owner_of d j"
  by (simp add: owner_of_def option.map_comp o_def)

lemma owner_of_simps [simp]:
  "owner_of (touch i now d) j = owner_of d j" "owner_of (add_nlink i k now d) j = owner_of d j"
  "owner_of (add_symlink i t d) j = owner_of d j" "owner_of (add_entry p n i d) j = owner_of d j"
  "owner_of (del_entry p n d) j = owner_of d j" "owner_of (move_entry sp sn p n i d) j = owner_of d j"
  "owner_of (del_node i d) j = (if j = i then None else owner_of d j)"
  "owner_of (new_entry p n cols d) j
    = (if j = next_inode d then Some (n_mode cols, n_uid cols, n_gid cols) else owner_of d j)"
  by (auto simp: touch_def add_nlink_def owner_of_map_node set_time_cols_def set_if_def add_nlink_cols_def split: option.split)
    (auto simp: owner_of_def move_entry_def)


text \<open>Nodes that are still there keep their owner, group and mode.\<close>

definition owners_kept :: "db \<Rightarrow> db \<Rightarrow> bool" where
  "owners_kept d d' \<longleftrightarrow> (\<forall>i. node_of d i \<noteq> None \<longrightarrow> owner_of d' i = None \<or> owner_of d' i = owner_of d i)"

lemma owners_keptI: "(\<And>i. node_of d i \<noteq> None \<Longrightarrow> owner_of d' i \<noteq> None \<Longrightarrow> owner_of d' i = owner_of d i) \<Longrightarrow> owners_kept d d'"
  unfolding owners_kept_def by blast

lemma owners_keptD: "owners_kept d d' \<Longrightarrow> node_of d i \<noteq> None \<Longrightarrow> owner_of d' i \<noteq> None \<Longrightarrow> owner_of d' i = owner_of d i"
  by (auto simp: owners_kept_def)

lemma owners_tx:
  assumes "tree d"
  shows "owners_kept d (mkdir_db p n m u g now d)" "owners_kept d (create_db p n m u g now d)"
    "owners_kept d (symlink_db x p n u g now d)" "owners_kept d (link_db p n i now d)"
    "owners_kept d (unlink_db p n i now d)" "owners_kept d (rmdir_db p n i now d)"
    "owners_kept d (del_node i (unlink_db p n i now d))"
  using next_inode_free[OF assms]
  by (auto simp: owners_kept_def mkdir_db_def create_db_def symlink_db_def link_db_def unlink_db_def rmdir_db_def)

lemma owners_replaced: "replaced sp p n j k now d d' \<Longrightarrow> owners_kept d d'"
  by (auto simp: replaced_def replace_db_def Let_def intro!: owners_keptI split: if_splits)

lemma owners_move: "owner_of (move_db k i sp sn p n now d) j = owner_of d j"
  by (simp add: move_db_def Let_def owner_of_map_node)

lemma owners_renamed: "renamed k i sp sn p n now d d' \<Longrightarrow> owners_kept d d'"
  using owners_replaced by (fastforce simp: renamed_def owners_kept_def owners_move split: if_splits)

lemma owners_blob_changes:
  "write_db i cs off data sz now d d' \<Longrightarrow> owner_of d' = owner_of d"
  "trunc_db i cs now d d' \<Longrightarrow> owner_of d' = owner_of d"
proof -
  have "owner_of (map_node i (set_size_cols x y z) d1) j = owner_of d j" if "blobs_only d d1" for d1 x y z j
  proof -
    have "owner_of (map_node i (set_size_cols x y z) d1) j = owner_of d1 j"
      by (rule owner_of_map_node) (simp add: set_size_cols_def)
    then show ?thesis using blobs_only_same[OF that] by (simp add: owner_of_def)
  qed
  then show "write_db i cs off data sz now d d' \<Longrightarrow> owner_of d' = owner_of d"
    "trunc_db i cs now d d' \<Longrightarrow> owner_of d' = owner_of d"
    unfolding write_db_def trunc_db_def range_written_def range_truncated_def by blast+
qed

definition may_change_owner :: "filesystem \<Rightarrow> inode \<Rightarrow> bool" where
  "may_change_owner s i \<longleftrightarrow> \<not> fs_readonly s
     \<and> (fs_caller_uid s = 0 \<or> map_option n_uid (node_of (fs_db s) i) = Some (fs_caller_uid s))"

lemma owners_db_effect:
  assumes "db_effect s d" and inv: "fs_inv s" and i: "node_of (fs_db s) i \<noteq> None" "owner_of d i \<noteq> None"
    and ne: "owner_of d i \<noteq> owner_of (fs_db s) i"
  shows "may_change_owner s i"
proof -
  have kept: "\<not> owners_kept (fs_db s) d" using i ne by (auto simp: owners_kept_def)
  from assms(1) show ?thesis
  proof cases
    case (rename src dst sp sn p' n' i k now)
    then show ?thesis using kept owners_renamed by blast
  next
    case (written i cols offset data now)
    then show ?thesis using ne owners_blob_changes(1) by metis
  next
    case (updated j f d1 name v)
    have d1: "node_of d1 = node_of (fs_db s)" using updated(8)
      by (auto simp: node_of_def effect_defs)
    then have "owner_of (map_node j f d1) x = owner_of (map_node j f (fs_db s)) x" for x by (simp add: owner_of_def)
    then show ?thesis using ne updated i(1) by (auto simp: owner_of_def may_change_owner_def owner_guard_def split: if_splits)
  qed (use ne kept owners_tx[OF inv_tree[OF inv]] in auto)
qed

lemma owners_call:
  "call_effect s s' \<Longrightarrow> fs_ok s \<Longrightarrow> node_of (fs_db s) i \<noteq> None \<Longrightarrow> owner_of (fs_db s') i \<noteq> None
    \<Longrightarrow> owner_of (fs_db s') i \<noteq> owner_of (fs_db s) i \<Longrightarrow> may_change_owner s i"
proof (induction rule: call_effect.induct)
  case (tables s d w s')
  then show ?case using owners_db_effect[OF tables(1)] by (auto simp: becomes_def ok_simps)
next
  case (created s path p n m u g now flags w s')
  have "fs_db s' = create_db p n m u g now (fs_db s)" using created(5) by (simp add: becomes_def)
  then show ?case using owners_keptD[OF owners_tx(2)[OF ok_simps(3)[OF created(6)]]] created(7,8,9) by metis
next
  case (opens s p' n' i flags d' now w s')
  then show ?case using owners_blob_changes(2) by (auto simp: becomes_def)
next
  case (unlinked s path p n j now w s')
  have "fs_db s' = unlink_db p n j now (fs_db s)" using unlinked(3) by (simp add: becomes_def)
  then show ?case using owners_keptD[OF owners_tx(5)[OF ok_simps(3)[OF unlinked(4)]]] unlinked(5,6,7) by metis
next
  case (removed s path p n j now w s')
  have "fs_db s' = del_node j (unlink_db p n j now (fs_db s))" using removed(5) by (simp add: becomes_def)
  then show ?case using owners_keptD[OF owners_tx(7)[OF ok_simps(3)[OF removed(6)]]] removed(7,8,9) by metis
qed (auto simp: becomes_def split: if_splits)

section \<open>Properties\<close>

text \<open>
  C9 (Filesystem): whatever call is made in a reachable state, an entry of a directory appears,
  disappears or changes only if the mount is writable and the caller, that of the innermost
  \<open>as_user\<close>, has write and search permission on the directory.
\<close>

theorem entries_need_permission:
  assumes "fs_ok s0" and "reachable s0 s" and "call_ok s c" and "run c s = (r, s')"
    and "entry_of (fs_db s') p n \<noteq> entry_of (fs_db s) p n"
  shows "may_write_dir (acting c s) p"
proof -
  have ok: "fs_ok s" by (rule reachable_ok[OF assms(2,1)])
  obtain s1 where s1: "call_effect (acting c s) s1" "fs_conn s' = fs_conn s1"
    using run_acting[OF ok_simps(1)[OF ok] assms(3,4)] by blast
  show ?thesis by (rule entries_call[OF s1(1)]) (use ok s1(2) assms(5) in \<open>simp_all add: acting_same\<close>)
qed

text \<open>
  C10 (chmod, chown): the owner, the group and the mode of a node that stays change only if the mount is
  writable and the caller is root or the owner of the node.
\<close>

theorem owners_need_ownership:
  assumes "fs_ok s0" and "reachable s0 s" and "call_ok s c" and "run c s = (r, s')"
    and "node_of (fs_db s) i \<noteq> None" and "node_of (fs_db s') i \<noteq> None"
    and "owner_of (fs_db s') i \<noteq> owner_of (fs_db s) i"
  shows "may_change_owner (acting c s) i"
proof -
  have ok: "fs_ok s" by (rule reachable_ok[OF assms(2,1)])
  obtain s1 where s1: "call_effect (acting c s) s1" "fs_conn s' = fs_conn s1"
    using run_acting[OF ok_simps(1)[OF ok] assms(3,4)] by blast
  show ?thesis by (rule owners_call[OF s1(1)]) (use ok s1(2) assms(5-7) in \<open>simp_all add: acting_same owner_of_def\<close>)
qed

theorem entries_need_permission_witness:
  "\<exists>s. run (Files (CallCreate ''/f'' 2 0x1A4)) demo_fs = (Inr (ReFd 1), s)
    \<and> entry_of (fs_db s) ROOT_INODE ''f'' \<noteq> entry_of (fs_db demo_fs) ROOT_INODE ''f'' \<and> may_write_dir demo_fs ROOT_INODE"
proof -
  obtain s where s: "run (Files (CallCreate ''/f'' 2 0x1A4)) demo_fs = (Inr (ReFd 1), s)"
    "fs_db s = create_db ROOT_INODE ''f'' 0x1A4 0 0 8 (fresh_db 4 0 0 7)" by (rule demo_created)
  have ne: "entry_of (fs_db s) ROOT_INODE ''f'' \<noteq> entry_of (fs_db demo_fs) ROOT_INODE ''f''"
    by (simp add: s(2) demo_file_simps demo_fs_def)
  from entries_need_permission[OF demo_fs_ok(1) reachable.start _ s(1) ne] ne s(1) demo_add(3) show ?thesis by simp
qed

theorem owners_need_ownership_witness:
  "\<exists>r s. run (Attrs (CallChmod ''/'' 0)) demo_fs = (r, s) \<and> owner_of (fs_db s) ROOT_INODE \<noteq> owner_of (fs_db demo_fs) ROOT_INODE
    \<and> may_change_owner demo_fs ROOT_INODE"
proof -
  have path: "parse_path ''/'' = Inr []" by (simp add: parse_path_char path_string_def PATH_MAX_def)
  have root: "node_of (fs_db demo_fs) ROOT_INODE = Some (root_cols 0 0 7)" by (simp add: demo_fs_def)
  have "owner_check demo_fs ''/'' = Inr ROOT_INODE"
    by (simp add: owner_check_def node_check_Inr lookup_def path root) (simp add: demo_fs_def)
  then have "wp (run (Attrs (CallChmod ''/'' 0))) (\<lambda>_ s. owner_of (fs_db s) ROOT_INODE = Some (0, 0, 0)) (\<lambda>_ _. False) demo_fs"
    using demo_fs_ok(2) by (auto simp: wp_eqs node_updated_def becomes_def owner_of_def root root_cols_def set_owner_cols_def
        set_if_def intro!: wp_fs_chmod)
  then obtain s where s: "run (Attrs (CallChmod ''/'' 0)) demo_fs = (Inr ReUnit, s)" "owner_of (fs_db s) ROOT_INODE = Some (0, 0, 0)"
    by (auto simp: wp_def reply_def bindE_def ret_def split: prod.splits sum.splits)
  have ne: "owner_of (fs_db s) ROOT_INODE \<noteq> owner_of (fs_db demo_fs) ROOT_INODE"
    using s(2) by (auto simp: owner_of_def root root_cols_def)
  have "node_of (fs_db s) ROOT_INODE \<noteq> None" using s(2) by (auto simp: owner_of_def)
  from owners_need_ownership[OF demo_fs_ok(1) reachable.start _ s(1) _ this ne] s(1) ne root show ?thesis by simp
qed

end
