(* ===== verification/Fs_Behaviour.thy ===== *)
theory Fs_Behaviour
  imports Fs_Access
begin

text \<open>
  What the operations do, seen through paths and descriptors: what can be looked up after
  \<open>mkdir\<close> and \<open>rename\<close>, what is read after a write and after an unlink, what a listing shows, and which
  path is found for a node.
\<close>

section \<open>Walks that a change does not meet\<close>

lemma walk_up: "tree d \<Longrightarrow> walk d cur cs = Inr q \<Longrightarrow> (cur, q) \<in> (edges d)\<^sup>*"
proof (induction cs arbitrary: cur)
  case (Cons n ns)
  then obtain j where j: "entry_of d cur n = Some j" "walk d j ns = Inr q" by (auto simp only: walk_Cons)
  then have "(cur, j) \<in> edges d" using edges_iff[OF tree_keys[OF Cons.prems(1)]] by blast
  then show ?case using Cons.IH[OF Cons.prems(1) j(2)] by (rule converse_rtrancl_into_rtrancl)
qed simp

text \<open>A walk stays valid if the entries above its end stay.\<close>

lemma walk_avoids:
  assumes "tree d" and "tree d'" and "walk d cur cs = Inr q"
    and "\<And>a x b. entry_of d a x = Some b \<Longrightarrow> (b, q) \<in> (edges d)\<^sup>* \<Longrightarrow> entry_of d' a x = Some b"
  shows "walk d' cur cs = Inr q"
  using assms(3)
proof (induction cs arbitrary: cur)
  case (Cons n ns)
  then obtain j where j: "entry_of d cur n = Some j" "walk d j ns = Inr q" by (auto simp only: walk_Cons[OF assms(1)])
  then have "entry_of d' cur n = Some j" using assms(4) walk_up[OF assms(1) j(2)] by blast
  then show ?case using Cons.IH[OF j(2)] by (auto simp only: walk_Cons[OF assms(2)])
qed simp

lemma lookup_via_parent:
  assumes "tree d'" and "parent_lookup d path = Inr (p, n)" and "entry_of d' p n = Some i"
    and "\<And>cs. walk d ROOT_INODE cs = Inr p \<Longrightarrow> walk d' ROOT_INODE cs = Inr p"
  shows "lookup d' path = Inr i"
proof -
  obtain cs where cs: "parse_path path = Inr cs" "cs \<noteq> []" "walk d ROOT_INODE (butlast cs) = Inr p" "last cs = n"
    using assms(2) by (auto simp: parent_lookup_def split: sum.splits if_splits)
  have "walk d' ROOT_INODE (butlast cs @ [last cs]) = Inr i"
    unfolding walk_append[OF assms(1)] using assms(3,4) cs by auto
  then show ?thesis using cs(1,2) by (simp add: lookup_def)
qed

lemma above_parent: "tree d \<Longrightarrow> entry_of d p n = Some j \<Longrightarrow> (j, p) \<notin> (edges d)\<^sup>*"
proof
  assume t: "tree d" and e: "entry_of d p n = Some j" and up: "(j, p) \<in> (edges d)\<^sup>*"
  have "(p, j) \<in> edges d" using e edges_iff[OF tree_keys[OF t]] by blast
  from rtrancl_into_trancl2[OF this up] have "(p, p) \<in> (edges d)\<^sup>+" .
  then show False using t by (simp add: tree_def acyclic_def)
qed

section \<open>Climbing always arrives\<close>

lemma wp_path_row_some:
  assumes "reliable c" and "wf_keys (c_db c)" and "entry_of (c_db c) p n = Some i"
    and "\<And>t p n. entry_of (c_db c) p n = Some i \<Longrightarrow> Q (Some (p, n)) (c\<lparr>c_tick := t\<rparr>)"
  shows "wp (path_row i) Q E c"
proof -
  have "(p, n) \<in> set (parents_of (c_db c) i)" using assms(2,3) by (auto simp: in_parents_of wf_keys_def entry_in_table)
  then have "parents_of (c_db c) i \<noteq> []" by auto
  then show ?thesis
    unfolding path_row_def wp_bindE wp_ok wp_ret
    by (intro wp_query_limit1) (use assms in \<open>auto simp: in_parents_of wf_keys_def entry_in_table\<close>)
qed

lemma path_loop_arrives:
  assumes t: "tree d" and r: "rooted d"
    and "reliable c" and "c_db c = d" and "linked d parent"
  shows "\<exists>ps t. path_loop parent parts c = Some (Inr (Some ps), c\<lparr>c_tick := t\<rparr>)"
proof -
  have "wf (edges d)" using t wf_edges by (simp add: tree_def)
  then show ?thesis using assms(3-5)
  proof (induction parent arbitrary: parts c rule: wf_induct_rule)
  case (less parent)
  show ?case
  proof (cases "parent = ROOT_INODE")
    case True
    then show ?thesis by (auto simp: path_loop.simps intro!: exI[of _ "c_tick c"])
  next
    case False
    then obtain q m where e: "entry_of d q m = Some parent" using less.prems by (auto simp: linked_def)
    have "wp (path_row parent) (\<lambda>row c'. \<exists>p n t. row = Some (p, n) \<and> entry_of d p n = Some parent \<and> c' = c\<lparr>c_tick := t\<rparr>)
        (\<lambda>_ _. False) c"
      by (rule wp_path_row_some) (use less.prems e tree_keys[OF t] in auto)
    from wp_returns[OF this] obtain p n t' where row: "path_row parent c = (Inr (Some (p, n)), c\<lparr>c_tick := t'\<rparr>)"
      and pn: "entry_of d p n = Some parent" by auto
    have "(p, parent) \<in> edges d" using pn edges_iff[OF tree_keys[OF t]] by blast
    moreover have "linked d p" using r pn unfolding rooted_def by blast
    ultimately obtain ps t'' where "path_loop p (parts @ [n]) (c\<lparr>c_tick := t'\<rparr>) = Some (Inr (Some ps), c\<lparr>c_tick := t', c_tick := t''\<rparr>)"
      using less.IH[of p "c\<lparr>c_tick := t'\<rparr>" "parts @ [n]"] less.prems by auto
    then show ?thesis using row False by (auto simp: path_loop.simps[of parent])
  qed
qed
qed

lemma path_of_inode_arrives:
  assumes t: "tree (c_db c)" and r: "rooted (c_db c)" and "reliable c" and "linked (c_db c) i"
  shows "\<exists>cs t. path_of_inode i c = (Inr (Some (path_string cs)), c\<lparr>c_tick := t\<rparr>) \<and> walk (c_db c) ROOT_INODE cs = Inr i"
proof (cases "i = ROOT_INODE")
  case True
  then show ?thesis by (auto simp: path_of_inode_def ret_def path_string_def intro!: exI[of _ "[]"] exI[of _ "c_tick c"])
next
  case False
  then obtain q m where e: "entry_of (c_db c) q m = Some i" using assms(4) by (auto simp: linked_def)
  have "wp (path_row i) (\<lambda>row c'. \<exists>p n t. row = Some (p, n) \<and> entry_of (c_db c) p n = Some i \<and> c' = c\<lparr>c_tick := t\<rparr>)
      (\<lambda>_ _. False) c"
    by (rule wp_path_row_some) (use assms e tree_keys[OF t] in auto)
  from wp_returns[OF this] obtain p n t' where row: "path_row i c = (Inr (Some (p, n)), c\<lparr>c_tick := t'\<rparr>)"
    and pn: "entry_of (c_db c) p n = Some i" by auto
  have "linked (c_db c) p" using r pn unfolding rooted_def by blast
  then obtain ps t'' where loop: "path_loop p [n] (c\<lparr>c_tick := t'\<rparr>) = Some (Inr (Some ps), c\<lparr>c_tick := t', c_tick := t''\<rparr>)"
    using path_loop_arrives[OF t r, of "c\<lparr>c_tick := t'\<rparr>" p "[n]"] assms(3) by auto
  have "walk (c_db c) p (rev [n]) = Inr i" using pn by simp
  from path_loop_ends[OF t _ this, of "c\<lparr>c_tick := t'\<rparr>"] loop have "walk (c_db c) ROOT_INODE (rev ps) = Inr i" by auto
  moreover have "path_of_inode i c = (Inr (Some (path_string (rev ps))), c\<lparr>c_tick := t''\<rparr>)"
    using False row loop by (simp add: path_of_inode_def path_for_inode_def bindE_def unless_diverges_def ret_def)
  ultimately show ?thesis by blast
qed

section \<open>mkdir and rename\<close>

lemma lookup_added:
  assumes t: "tree d" "tree d'" and pl: "parent_lookup d path = Inr (p, n)" and free: "entry_of d p n = None"
    and e: "\<And>q x. entry_of d' q x = (if (q, x) = (p, n) then Some i else entry_of d q x)"
  shows "lookup d' path = Inr i"
proof (rule lookup_via_parent[OF t(2) pl])
  show "walk d' ROOT_INODE cs = Inr p" if "walk d ROOT_INODE cs = Inr p" for cs
    by (rule walk_avoids[OF t that]) (use free in \<open>auto simp: e\<close>)
qed (simp add: e)

text \<open>
  C17 (mkdir): when the engine works and has room, \<open>mkdir\<close> fails with the error of its checks and
  changes nothing, or makes one empty directory owned by the caller: it is what the path then
  leads to, and no other entry of any directory changes.
\<close>

theorem mkdir_spec:
  assumes "fs_ok s" and "reliable (fs_conn s)" and "room (fs_db s)" and "fs_mkdir path mode s = (r, s')"
  shows "case add_check s path of
      Inl e \<Rightarrow> r = Inl (Fail e) \<and> fs_quiet s s'
    | Inr (p, n) \<Rightarrow> r = Inr () \<and> lookup (fs_db s') path = Inr (next_inode (fs_db s))
        \<and> node_of (fs_db s') (next_inode (fs_db s)) = Some (fresh_node Dir mode (fs_caller_uid s) (fs_caller_gid s) (now1 s))
        \<and> (\<forall>q x. entry_of (fs_db s') q x = (if (q, x) = (p, n) then Some (next_inode (fs_db s)) else entry_of (fs_db s) q x))"
proof -
  note ok = ok_simps[OF assms(1)]
  let ?Q = "\<lambda>(_ :: unit) s'. \<exists>p n. add_check s path = Inr (p, n) \<and> valid_component n
      \<and> fs_db s' = mkdir_db p n mode (fs_caller_uid s) (fs_caller_gid s) (now1 s) (fs_db s)"
  have run: "wp (fs_mkdir path mode) ?Q (\<lambda>x s'. fs_quiet s s' \<and> (\<exists>e. x = Fail e \<and> add_check s path = Inl e)) s"
    by (rule wp_fs_mkdir[OF ok(1)]) (use assms(2,3) in \<open>auto simp: engine_error_def becomes_def\<close>)
  show ?thesis
  proof (cases "add_check s path")
    case (Inl e)
    then show ?thesis using wp_run[OF run assms(4)] by (auto split: sum.splits)
  next
    case (Inr pn)
    then obtain p n where c: "add_check s path = Inr (p, n)" by (cases pn) auto
    then have r: "r = Inr ()" "valid_component n" and d: "fs_db s' = mkdir_db p n mode (fs_caller_uid s) (fs_caller_gid s) (now1 s) (fs_db s)"
      using wp_run[OF run assms(4)] by (auto split: sum.splits)
    have w: "wf_db (fs_chunk_size s) (fs_db s')"
      unfolding d using wf_db_effect[OF db_effect.mkdir[OF c r(2) assms(3)] ok(1)] .
    then have t': "tree (fs_db s')" by (simp add: wf_db_def)
    have pn: "parent_lookup (fs_db s) path = Inr (p, n)" "entry_of (fs_db s) p n = None" "node_of (fs_db s) p \<noteq> None"
      using c by (auto simp: add_check_Inr)
    have "lookup (fs_db s') path = Inr (next_inode (fs_db s))"
      by (rule lookup_added[OF ok(3) t' pn(1,2)]) (simp add: d entries_added)
    moreover have "p \<noteq> next_inode (fs_db s)" using pn(3) next_inode_free[OF ok(3)] by auto
    then have "node_of (fs_db s') (next_inode (fs_db s)) = Some (fresh_node Dir mode (fs_caller_uid s) (fs_caller_gid s) (now1 s))"
      by (simp add: d mkdir_db_def touch_def add_nlink_def)
    ultimately show ?thesis using c r d by (simp add: entries_added)
  qed
qed

lemma path_parts:
  assumes "tree d" and "renames s src dst sp sn p n i k" and "fs_db s = d"
  shows "(i, p) \<notin> (edges d)\<^sup>*"
proof (cases "k = Dir")
  case False
  have i: "map_option n_kind (node_of d i) = Some k" and "entry_of d sp sn = Some i" and dir: "has_kind d p Dir"
    using assms(2,3) by (auto simp: renames_def has_kind_def)
  then have "\<not> has_kind d i Dir" using False by (auto simp: has_kind_def)
  then have "i \<noteq> p" and none: "entry_of d i m = None" for m using dir file_no_children[OF assms(1)] by auto
  have "(i, z) \<notin> edges d" for z using none edges_iff[OF tree_keys[OF assms(1)], of i z] by simp
  then show "(i, p) \<notin> (edges d)\<^sup>*" using \<open>i \<noteq> p\<close> converse_rtranclE[of i p "edges d"] by blast
qed (use assms in \<open>auto simp: renames_def\<close>)

text \<open>
  C8 (rename): a rename that succeeds either finds both names to be the same node and changes nothing,
  or moves the name: the new path leads to the node, the old name is gone, what was in the way
  is not reachable by that name, and no other entry changes.
\<close>

theorem rename_spec:
  assumes "fs_ok s" and "fs_rename src dst s = (Inr (), s')"
  shows "fs_quiet s s' \<and> rename_same s src dst
    \<or> (\<exists>sp sn p n i. parent_lookup (fs_db s) src = Inr (sp, sn) \<and> entry_of (fs_db s) sp sn = Some i
        \<and> parent_lookup (fs_db s) dst = Inr (p, n) \<and> lookup (fs_db s') dst = Inr i
        \<and> (\<forall>q x. entry_of (fs_db s') q x
             = (if (q, x) = (p, n) then Some i else if (q, x) = (sp, sn) then None else entry_of (fs_db s) q x)))"
proof -
  note ok = ok_simps[OF assms(1)]
  have "wp (fs_rename src dst) (\<lambda>_ s'. fs_quiet s s' \<and> rename_same s src dst \<or> rename_moved s src dst s') (\<lambda>_ _. True) s"
    by (rule wp_fs_rename[OF ok(1)]) auto
  from wp_runQ[OF this assms(2)] show ?thesis
  proof
    assume "rename_moved s src dst s'"
    then obtain sp sn p n i k where ren: "renames s src dst sp sn p n i k"
      and re: "renamed k i sp sn p n (now1 s) (fs_db s) (fs_db s')"
      by (auto simp: rename_moved_def becomes_def)
    have src: "parent_lookup (fs_db s) src = Inr (sp, sn)" "entry_of (fs_db s) sp sn = Some i"
      and dst: "parent_lookup (fs_db s) dst = Inr (p, n)" using ren by (auto simp: renames_def)
    note e = entries_renamed[OF ok(3) src(2) re]
    have t': "tree (fs_db s')"
      using wf_db_effect[OF db_effect.rename[OF ren re] ok(1)] by (simp add: wf_db_def)
    have "lookup (fs_db s') dst = Inr i"
    proof (rule lookup_via_parent[OF t' dst])
      fix cs assume w: "walk (fs_db s) ROOT_INODE cs = Inr p"
      show "walk (fs_db s') ROOT_INODE cs = Inr p"
      proof (rule walk_avoids[OF ok(3) t' w])
        fix a x b assume ab: "entry_of (fs_db s) a x = Some b" "(b, p) \<in> (edges (fs_db s))\<^sup>*"
        have "(a, x) \<noteq> (p, n)" using ab above_parent[OF ok(3), of p n b] by auto
        moreover have "(a, x) \<noteq> (sp, sn)" using ab src(2) path_parts[OF ok(3) ren refl] by auto
        ultimately show "entry_of (fs_db s') a x = Some b" using ab(1) e[of a x] by auto
      qed
    qed (simp add: e)
    then show ?thesis using src dst e by blast
  qed simp
qed

section \<open>Reading and writing\<close>

lemma write_runs:
  assumes "fs_ok s" and "reliable (fs_conn s)" and "write_check s fd = Inr i" and "unat offset + length data < 2 ^ 63"
  shows "\<exists>s' cols. fs_write_fd fd offset data s = (Inr (new_size cols offset data), s') \<and> node_of (fs_db s) i = Some cols
    \<and> write_db i (fs_chunk_size s) (unat offset) data (new_size cols offset data) (now1 s) (fs_db s) (fs_db s')
    \<and> fs_ok s' \<and> reliable (fs_conn s') \<and> fs_fdtable s' = fs_fdtable s \<and> fs_chunk_size s' = fs_chunk_size s"
proof -
  have eff: "fs_ok s' \<and> reliable (fs_conn s')" if "node_of (fs_db s) i = Some cols"
    and "write_db i (fs_chunk_size s) (unat offset) data (new_size cols offset data) (now1 s) (fs_db s) (fs_db s')"
    and "becomes s (fs_db s') (fs_fdtable s) (fs_locks s) (fs_watchers s') s'" for s' cols
  proof -
    have "fs_effect s s'"
      by (rule fs_effect.own[OF call_effect.tables[OF db_effect.written[OF assms(3) that(1) assms(4) that(2)] that(3)]])
    then show ?thesis using fs_effect_ok effect_keeps_env assms(1,2) by blast
  qed
  let ?Q = "\<lambda>r s'. \<exists>cols. r = new_size cols offset data \<and> node_of (fs_db s) i = Some cols
    \<and> write_db i (fs_chunk_size s) (unat offset) data (new_size cols offset data) (now1 s) (fs_db s) (fs_db s')
    \<and> becomes s (fs_db s') (fs_fdtable s) (fs_locks s) (fs_watchers s') s'"
  have "wp (fs_write_fd fd offset data) ?Q (\<lambda>_ _. False) s"
    by (rule wp_fs_write_fd[OF ok_simps(1)[OF assms(1)] assms(4)]) (use assms(2,3) in auto)
  from wp_returns[OF this] obtain r s' where "fs_write_fd fd offset data s = (Inr r, s')" "?Q r s'" by blast
  then show ?thesis using eff by (auto simp: becomes_def same_env_def)
qed

lemma read_runs:
  assumes "fs_ok s" and "reliable (fs_conn s)" and "fd_check s fd O_RDONLY = Inr i" and "unat offset + unat n < 2 ^ 64"
    and "node_of (fs_db s) i = Some cols"
  shows "\<exists>s'. fs_read_fd fd offset n s = (Inr (file_range (fs_db s) i (unat (fs_chunk_size s)) (unat offset)
        (min (unat offset + unat n) (unat (n_size cols)))), s') \<and> fs_quiet s s'"
proof -
  let ?Q = "\<lambda>r s'. r = file_range (fs_db s) i (unat (fs_chunk_size s)) (unat offset)
        (min (unat offset + unat n) (unat (n_size cols))) \<and> fs_quiet s s'"
  have "wp (fs_read_fd fd offset n) ?Q (\<lambda>_ _. False) s"
    by (rule wp_fs_read_fd[OF ok_simps(1)[OF assms(1)] assms(4)]) (use assms(2,3,5) in auto)
  from wp_returns[OF this] show ?thesis by blast
qed

lemma written_range_reads:
  assumes w: "range_written d i C (unat offset) data d1" and small: "unat offset + length data < 2 ^ 63"
  shows "file_range d1 i C (unat offset) (min (unat offset + length data) (unat (new_size cols offset data))) = data"
proof (cases "data = []")
  case True
  then show ?thesis by (simp add: file_range_def)
next
  case False
  have "unat (of_nat (length data) :: u64) = length data" using small by (intro unat_of_nat64) simp
  then have "unat (offset + of_nat (length data)) = unat offset + length data"
    using small by (simp add: unat_plus_simple[THEN iffD1] word_le_nat_alt unat_word_ariths)
  then have "unat offset + length data \<le> unat (new_size cols offset data)"
    using False by (simp add: new_size_def max_def word_le_nat_alt)
  then show ?thesis using w small
    by (intro nth_equalityI) (auto simp: file_range_def range_written_def)
qed

lemma write_read_runs:
  assumes "fs_ok s" and "reliable (fs_conn s)" and "write_check s fd = Inr i" and "fd_check s fd O_RDONLY = Inr i"
    and "unat offset + length data < 2 ^ 63"
  shows "\<exists>n s1 s2. fs_write_fd fd offset data s = (Inr n, s1)
    \<and> fs_read_fd fd offset (of_nat (length data)) s1 = (Inr data, s2)
    \<and> (\<forall>j x. x < 2 ^ 63 \<longrightarrow> j \<noteq> i \<or> x < unat offset \<or> unat offset + length data \<le> x
          \<longrightarrow> file_byte (fs_db s1) j (unat (fs_chunk_size s)) x = file_byte (fs_db s) j (unat (fs_chunk_size s)) x)"
proof -
  obtain s1 cols where w: "fs_write_fd fd offset data s = (Inr (new_size cols offset data), s1)"
    and cols: "node_of (fs_db s) i = Some cols"
    and db: "write_db i (fs_chunk_size s) (unat offset) data (new_size cols offset data) (now1 s) (fs_db s) (fs_db s1)"
    and s1: "fs_ok s1" "reliable (fs_conn s1)" "fs_fdtable s1 = fs_fdtable s" "fs_chunk_size s1 = fs_chunk_size s"
    using write_runs[OF assms(1-3,5)] by blast
  obtain d1 where d1: "range_written (fs_db s) i (unat (fs_chunk_size s)) (unat offset) data d1"
    and s1d: "fs_db s1 = map_node i (set_size_cols (new_size cols offset data) (now1 s) (now1 s)) d1"
    using db by (auto simp: write_db_def)
  have node: "node_of (fs_db s1) i = Some (set_size_cols (new_size cols offset data) (now1 s) (now1 s) cols)"
    using cols blobs_only_same[of "fs_db s" d1] d1 by (simp add: s1d range_written_def)
  have byte: "file_byte (fs_db s1) j C = file_byte d1 j C" for j C by (rule ext) (simp add: s1d file_byte_def)
  have len: "unat (of_nat (length data) :: u64) = length data" using assms(5) by (intro unat_of_nat64) simp
  have "fd_check s1 fd O_RDONLY = Inr i" using assms(4) node by (auto simp: fd_check_Inr s1(3))
  from read_runs[OF s1(1,2) this _ node, of offset "of_nat (length data)"] obtain s2 where
    r: "fs_read_fd fd offset (of_nat (length data)) s1 = (Inr (file_range (fs_db s1) i (unat (fs_chunk_size s)) (unat offset)
        (min (unat offset + length data) (unat (new_size cols offset data)))), s2)"
    using assms(5) len by (auto simp: s1(4) set_size_cols_def)
  have "file_range d1 i (unat (fs_chunk_size s)) (unat offset)
        (min (unat offset + length data) (unat (new_size cols offset data))) = data"
    by (rule written_range_reads[OF d1 assms(5)])
  then have data: "file_range (fs_db s1) i (unat (fs_chunk_size s)) (unat offset)
        (min (unat offset + length data) (unat (new_size cols offset data))) = data"
    by (simp add: file_range_def byte)
  have rest: "file_byte (fs_db s1) j (unat (fs_chunk_size s)) x = file_byte (fs_db s) j (unat (fs_chunk_size s)) x"
    if "x < 2 ^ 63" "j \<noteq> i \<or> x < unat offset \<or> unat offset + length data \<le> x" for j x
  proof (cases "j = i")
    case True
    then show ?thesis using d1 that by (auto simp: byte range_written_def)
  next
    case False
    then have "blob_of d1 j = blob_of (fs_db s) j" using d1 by (auto simp: range_written_def)
    then show ?thesis unfolding byte by (simp add: file_byte_def)
  qed
  have "fs_read_fd fd offset (of_nat (length data)) s1 = (Inr data, s2)" using r data by simp
  with w rest show ?thesis by blast
qed

text \<open>
  C12 (write_fd, read_fd): in any reachable state with a working engine, what is written through a
  descriptor is what a read of the same range through it returns, and only that range of that
  file changes.
\<close>

theorem write_then_read:
  assumes "fs_ok s" and "reliable (fs_conn s)" and "write_check s fd = Inr i" and "fd_check s fd O_RDONLY = Inr i"
    and "unat offset + length data < 2 ^ 63"
  shows "\<exists>n s1 s2. fs_write_fd fd offset data s = (Inr n, s1)
    \<and> fs_read_fd fd offset (of_nat (length data)) s1 = (Inr data, s2)
    \<and> (\<forall>j x. x < 2 ^ 63 \<longrightarrow> j \<noteq> i \<or> x < unat offset \<or> unat offset + length data \<le> x
          \<longrightarrow> file_byte (fs_db s1) j (unat (fs_chunk_size s)) x = file_byte (fs_db s) j (unat (fs_chunk_size s)) x)"
  by (rule write_read_runs[OF assms])

text \<open>After its last component, a path whose parent has no such entry is not found.\<close>

lemma walk_missing: "tree d \<Longrightarrow> walk d cur cs = Inr p \<Longrightarrow> entry_of d p n = None \<Longrightarrow> walk d cur (cs @ [n]) = Inl NotFound"
proof (induction cs arbitrary: cur)
  case (Cons c cs)
  then obtain j where j: "entry_of d cur c = Some j" "walk d j cs = Inr p" by (auto simp only: walk_Cons)
  then have "has_kind d cur Dir" and "node_of d cur \<noteq> None"
    using tree_entryD[OF Cons.prems(1) j(1)] by (auto simp: has_kind_def split: option.splits)
  then show ?case using Cons.IH[OF Cons.prems(1) j(2) Cons.prems(3)] j(1) by simp
qed simp

lemma last_link_unreferenced:
  assumes "fs_ok s" and "unlink_check s path = Inr (p, n, i)" and "node_of (fs_db s) i = Some cols" and "n_nlink cols < 2 ^ 32"
    and "last_link s i"
  shows "\<not> referenced (unlink_db p n i now (fs_db s)) i"
proof -
  note ok = ok_simps[OF assms(1)]
  note keys = tree_keys[OF ok(3)]
  have e: "entry_of (fs_db s) p n = Some i" and kind: "n_kind cols \<noteq> Dir"
    using assms(2,3) by (auto simp: unlink_check_Inr has_kind_def)
  then have links: "n_nlink cols = int (entry_count (fs_db s) i)" using ok(2) assms(3) by (simp add: wf_db_def wf_links_def)
  moreover have one: "entry_count (fs_db s) i = entry_count (del_entry p n (fs_db s)) i + 1"
    using entry_count_del[OF keys e, of i] by simp
  moreover have "word_of_int (n_nlink cols - 1) = (0 :: u32)" using assms(3,5) by (simp only: last_link_def option.case)
  ultimately have "2 ^ 32 dvd int (entry_count (del_entry p n (fs_db s)) i)"
    by (simp only: word_of_int_eq_0_iff) simp
  then have "entry_count (del_entry p n (fs_db s)) i = 0"
    using assms(4) links one zdvd_imp_le by fastforce
  then have "entry_of (del_entry p n (fs_db s)) q m \<noteq> Some i" for q m
    by (simp add: entry_count_0[OF wf_keys_effects(4)[OF keys]])
  moreover have "wf_keys (unlink_db p n i now (fs_db s))"
    using unlink_db_parts(1)[OF assms(1,2)] by (simp add: wf_db_def tree_def)
  ultimately show ?thesis by (simp add: referenced_iff unlink_db_def)
qed

text \<open>
  C16 (unlink, read_fd): unlinking a name of a file that is open takes the name away and leaves what the
  descriptor reads as it was, the last name included.
\<close>

theorem unlink_keeps_open_data:
  assumes "fs_ok s" and "reliable (fs_conn s)" and "unlink_check s path = Inr (p, n, i)"
    and "fd_check s fd O_RDONLY = Inr i" and "node_of (fs_db s) i = Some cols" and "n_nlink cols < 2 ^ 32"
    and "unat offset + unat len < 2 ^ 64"
  shows "\<exists>bs s1 s2 s3. fs_read_fd fd offset len s = (Inr bs, s1) \<and> fs_unlink path s = (Inr (), s2)
    \<and> lookup (fs_db s2) path = Inl NotFound \<and> fs_read_fd fd offset len s2 = (Inr bs, s3)"
proof -
  note ok = ok_simps[OF assms(1)]
  obtain x where x: "fdtable_get fd (fs_fdtable s) = Inr x" "fe_inode x = i" using assms(4) by (auto simp: fd_check_Inr)
  then have "open_count i (fs_fdtable s) \<noteq> 0" by (force simp: open_count_def fdtable_get_Inr filter_empty_conv dest: map_of_SomeD)
  then have final: "unlink_final s p n i = unlink_db p n i (now1 s) (fs_db s)" by (simp add: unlink_final_def Let_def)
  obtain s2 where u: "fs_unlink path s = (Inr (), s2)" and d: "fs_db s2 = unlink_db p n i (now1 s) (fs_db s)"
    and b: "becomes s (fs_db s2) (fs_fdtable s) (fs_locks s) (fs_watchers s2) s2"
    using unlink_runs[OF assms(1-3)] last_link_unreferenced[OF assms(1,3,5,6)] final by (auto simp: becomes_def)
  have "fs_effect s s2"
    by (rule fs_effect.own[OF call_effect.unlinked[OF assms(3) _ b[unfolded d]]])
      (use \<open>open_count i (fs_fdtable s) \<noteq> 0\<close> in simp)
  then have s2: "fs_ok s2" "reliable (fs_conn s2)" using fs_effect_ok effect_keeps_env assms(1,2) by blast+
  have "map_option n_size (node_of (fs_db s2) i) = Some (n_size cols)"
    using assms(5) by (simp add: d unlink_db_def touch_def add_nlink_def)
  then obtain cols2 where c2: "node_of (fs_db s2) i = Some cols2" "n_size cols2 = n_size cols" by auto
  have "fd_check s2 fd O_RDONLY = Inr i" using assms(4) b c2 by (auto simp: fd_check_Inr becomes_def)
  from read_runs[OF s2 this assms(7) c2(1)] read_runs[OF assms(1,2,4,7,5)] obtain s1 s3 where
    r: "fs_read_fd fd offset len s = (Inr (file_range (fs_db s) i (unat (fs_chunk_size s)) (unat offset)
        (min (unat offset + unat len) (unat (n_size cols)))), s1)"
      "fs_read_fd fd offset len s2 = (Inr (file_range (fs_db s2) i (unat (fs_chunk_size s2)) (unat offset)
        (min (unat offset + unat len) (unat (n_size cols2)))), s3)" by blast
  have "file_byte (fs_db s2) = file_byte (fs_db s)" by (simp add: fun_eq_iff file_byte_def d unlink_db_def touch_def add_nlink_def)
  moreover have "fs_chunk_size s2 = fs_chunk_size s" using b by (simp add: becomes_def same_env_def)
  moreover have "lookup (fs_db s2) path = Inl NotFound"
  proof -
    have pl: "parent_lookup (fs_db s) path = Inr (p, n)" and e: "entry_of (fs_db s) p n = Some i"
      using assms(3) by (auto simp: unlink_check_Inr)
    then obtain cs where cs: "parse_path path = Inr cs" "cs \<noteq> []" "walk (fs_db s) ROOT_INODE (butlast cs) = Inr p" "last cs = n"
      by (auto simp: parent_lookup_def split: sum.splits if_splits)
    have "walk (fs_db s2) ROOT_INODE (butlast cs) = Inr p"
      by (rule walk_avoids[OF ok(3) ok_simps(3)[OF s2(1)] cs(3)])
        (use e above_parent[OF ok(3) e] in \<open>auto simp: d entries_added split: if_splits\<close>)
    from walk_missing[OF ok_simps(3)[OF s2(1)] this, of n] have "walk (fs_db s2) ROOT_INODE (butlast cs @ [last cs]) = Inl NotFound"
      by (simp add: d entries_added cs(4))
    then show ?thesis using cs(1,2) by (simp add: lookup_def)
  qed
  ultimately show ?thesis using r u c2(2) by (auto simp: file_range_def)
qed

section \<open>Listings and paths of nodes\<close>

lemma walk_valid:
  assumes t: "tree d"
  shows "walk d cur cs = Inr i \<Longrightarrow> \<forall>c\<in>set cs. valid_component c"
proof (induction cs arbitrary: cur)
  case (Cons c cs)
  then have "entry_of d cur c \<noteq> None" and "\<forall>c\<in>set cs. valid_component c"
    by (auto simp only: walk_Cons[OF t])
  then show ?case using t by (simp add: tree_def wf_names_def)
qed simp

lemma dir_list_spec:
  assumes "fs_ok s" and "es = dir_list (fs_db s) i"
  shows "sorted (map de_name es) \<and> distinct (map de_name es)
    \<and> (\<forall>e. e \<in> set es \<longleftrightarrow> entry_of (fs_db s) i (de_name e) = Some (de_inode e)
          \<and> map_option n_kind (node_of (fs_db s) (de_inode e)) = Some (de_kind e))"
proof -
  note ok = ok_simps[OF assms(1)]
  let ?rows = "sort_key er_name (rows_under (fs_db s) i)"
  have names: "map de_name es = map er_name ?rows" by (simp add: assms(2) dir_list_def)
  have keys: "keyed (t_entries (fs_db s))" using tree_keys[OF ok(3)] by (simp add: wf_keys_def)
  have "distinct (map (\<lambda>r. snd (fst r)) (filter (\<lambda>((p, n), c). p = i) t))"
    if "keyed t" for t :: "((inode \<times> string) \<times> inode) list"
    using that
  proof (induction t)
    case (Cons x t)
    obtain p n c where "x = ((p, n), c)" by (metis prod.collapse)
    then show ?case using Cons by (force simp: image_iff)
  qed simp
  then have "distinct (map er_name (rows_under (fs_db s) i))"
    using keys by (simp add: rows_under_def o_def case_prod_beta)
  then have dist: "distinct (map de_name es)" unfolding names by (simp add: distinct_map)
  have in_rows: "r \<in> set (rows_under (fs_db s) i) \<longleftrightarrow> er_parent r = i \<and> entry_of (fs_db s) i (er_name r) = Some (er_inode r)" for r
    by (cases r) (force simp: rows_under_def entry_in_table[OF keys] image_iff)
  have set: "e \<in> set es \<longleftrightarrow> entry_of (fs_db s) i (de_name e) = Some (de_inode e)
          \<and> map_option n_kind (node_of (fs_db s) (de_inode e)) = Some (de_kind e)" for e
  proof
    assume "e \<in> set es"
    then obtain r where r: "r \<in> set (rows_under (fs_db s) i)" "e = \<lparr>de_name = er_name r,
        de_kind = (case node_of (fs_db s) (er_inode r) of Some cols \<Rightarrow> n_kind cols), de_inode = er_inode r\<rparr>"
      by (auto simp: assms(2) dir_list_def)
    moreover obtain cols where "node_of (fs_db s) (er_inode r) = Some cols"
      using r(1) in_rows tree_entryD[OF ok(3), of i "er_name r" "er_inode r"] by auto
    ultimately show "entry_of (fs_db s) i (de_name e) = Some (de_inode e)
          \<and> map_option n_kind (node_of (fs_db s) (de_inode e)) = Some (de_kind e)" using in_rows by simp
  next
    assume e: "entry_of (fs_db s) i (de_name e) = Some (de_inode e)
          \<and> map_option n_kind (node_of (fs_db s) (de_inode e)) = Some (de_kind e)"
    let ?r = "\<lparr>er_parent = i, er_name = de_name e, er_inode = de_inode e\<rparr>"
    have "?r \<in> set (rows_under (fs_db s) i)" using e in_rows[of ?r] by simp
    moreover have "e = \<lparr>de_name = er_name ?r, de_kind = (case node_of (fs_db s) (er_inode ?r) of Some cols \<Rightarrow> n_kind cols),
        de_inode = er_inode ?r\<rparr>" using e by (cases e) auto
    ultimately show "e \<in> set es" unfolding assms(2) dir_list_def by (auto intro: image_eqI[where x = ?r])
  qed
  from dist set show ?thesis unfolding names by auto
qed

text \<open>
  A listing that is returned is strictly sorted by name and has exactly the entries of
  the directory, each with the kind of its node.
\<close>

theorem readdir_spec:
  assumes "fs_ok s" and "fs_readdir path s = (Inr es, s')"
  shows "\<exists>i. lookup (fs_db s) path = Inr i \<and> sorted (map de_name es) \<and> distinct (map de_name es)
    \<and> (\<forall>e. e \<in> set es \<longleftrightarrow> entry_of (fs_db s) i (de_name e) = Some (de_inode e)
          \<and> map_option n_kind (node_of (fs_db s) (de_inode e)) = Some (de_kind e))"
proof -
  note ok = ok_simps[OF assms(1)]
  have "wp (fs_readdir path) (\<lambda>r _. \<exists>i. readdir_check s path = Inr i \<and> r = dir_list (fs_db s) i) (\<lambda>_ _. True) s"
    by (rule wp_fs_readdir[OF ok(1)]) auto
  from wp_runQ[OF this assms(2)] obtain i where i: "readdir_check s path = Inr i" "es = dir_list (fs_db s) i" by blast
  moreover have "lookup (fs_db s) path = Inr i" using i(1) by (simp add: readdir_check_Inr)
  ultimately show ?thesis using dir_list_spec[OF assms(1) i(2)] by blast
qed

text \<open>
  C19 (path_of_inode): the climb from a node over its entries ends; a node that has a name gets a path that
  leads back to it (a path over 4096 bytes is one that no operation takes), any other node none.
\<close>

theorem path_of_inode_leads_back:
  assumes "fs_ok s" and "reliable (fs_conn s)" and "path_of_inode i (fs_conn s) = (r, c')"
  shows "if linked (fs_db s) i
    then \<exists>cs. r = Inr (Some (path_string cs)) \<and> walk (fs_db s) ROOT_INODE cs = Inr i
      \<and> (PATH_MAX < length (path_string cs) \<or> lookup (fs_db s) (path_string cs) = Inr i)
    else r = Inr None"
proof (cases "linked (fs_db s) i")
  case True
  note ok = ok_simps[OF assms(1)]
  obtain cs where cs: "r = Inr (Some (path_string cs))" "walk (fs_db s) ROOT_INODE cs = Inr i"
    using path_of_inode_arrives[OF ok(3,4) assms(2) True] assms(3) by auto
  have "\<forall>c\<in>set cs. valid_component c" by (rule walk_valid[OF ok(3) cs(2)])
  then have "lookup (fs_db s) (path_string cs) = Inr i" if "length (path_string cs) \<le> PATH_MAX"
    using parse_path_char[of "path_string cs" cs] that cs(2) by (auto simp: lookup_def)
  then have "PATH_MAX < length (path_string cs) \<or> lookup (fs_db s) (path_string cs) = Inr i" by linarith
  then show ?thesis using cs True by auto
next
  case False
  have "wp (path_of_inode i) (\<lambda>x _. x = None) (\<lambda>_ _. False) (fs_conn s)"
  proof (rule wp_path_of_inode[OF ok_simps(3)[OF assms(1)]])
    fix t cs assume w: "walk (fs_db s) ROOT_INODE cs = Inr i"
    have "linked (fs_db s) i" using w
      by (cases cs rule: rev_cases) (auto simp: linked_def walk_append[OF ok_simps(3)[OF assms(1)]] split: option.splits)
    then show "Some (path_string cs) = None" using False by simp
  qed simp
  from wp_run[OF this assms(3)] show ?thesis using False by (auto split: sum.splits)
qed

section \<open>The properties on a small tree\<close>

text \<open>Evaluation of a call on given tables by rewriting.\<close>

lemmas eval_io = bindE_def db_op_def stmt_def query_def update_db_def ret_def throw_def gets_def modify_def require_def
  of_result_def Let_def ok_def transaction_def now_ns_def query_limit1_def on_constraint_def
lemmas eval_tables = entries_get_def nodes_get_def entries_insert_def entries_delete_def entries_count_def entries_rename_def
  nodes_insert_def nodes_delete_def change_nlink_def update_times_def update_size_def update_mode_uid_gid_def
  entry_of_def node_of_def blob_of_def effect_defs has_kind_def rows_under_def set_time_cols_def add_nlink_cols_def set_if_def
lemmas eval_fs = require_writable_def caller_def caller_access_def emit_def writable_parent_def require_access_def check_access_def
  ACCESS_W_def ACCESS_X_def ACCESS_R_def access_contains_def resolve_parent_and_name_def resolve_to_inode_def
  rename_ancestry_def rename_tx_def move_src_def replace_dst_def watch_emit_def watch_registry_new_def
lemmas eval_demo = demo_fs_def connect_def ROOT_INODE_def root_cols_def fresh_node_def demo_path

lemma path_g: "parse_path ''/g'' = Inr [''g'']" "parse_path ''/'' = Inr []"
  using parse_path_char[of "''/g''" "[''g'']"] parse_path_char[of "''/''" "[]"]
  by (simp_all add: path_string_def valid_component_def PATH_MAX_def NAME_MAX_def)

text \<open>The root with the file \<open>/f\<close>, which is open for reading and writing as descriptor 1.\<close>

definition file_db :: db where
  "file_db = \<lparr>t_version = [(2, 4)],
     t_nodes = [(1, (root_cols 0 0 7)\<lparr>n_mtime_ns := 8, n_ctime_ns := 8\<rparr>), (2, fresh_node File 0x1A4 0 0 8)],
     t_entries = [((1, ''f''), 2)], t_blobs = [], t_xattrs = [], t_symlinks = [], t_seq = 2\<rparr>"

definition file_fs :: filesystem where
  "file_fs = demo_fs\<lparr>fs_conn := connect file_db, fs_fdtable := snd (fdtable_open 2 2 0 0 fdtable_new)\<rparr>"

lemma file_db: "create_db ROOT_INODE ''f'' 0x1A4 0 0 8 (fresh_db 4 0 0 7) = file_db"
  by (simp add: create_db_def fresh_db_def new_entry_def next_inode_def touch_def effect_defs empty_tables_def set_time_cols_def
      set_if_def file_db_def ROOT_INODE_def root_cols_def SCHEMA_VERSION_def)

lemma file_fs_ok: "fs_ok file_fs" "reliable (fs_conn file_fs)"
proof -
  obtain s where s: "fs_ok s" "fs_db s = create_db ROOT_INODE ''f'' 0x1A4 0 0 8 (fresh_db 4 0 0 7)"
    "fs_fdtable s = snd (fdtable_open 2 2 0 0 fdtable_new)" "fs_chunk_size s = 4" by (rule demo_created)
  then show "fs_ok file_fs" "reliable (fs_conn file_fs)"
    by (simp_all add: fs_ok_def fs_inv_def file_fs_def file_db demo_fs_def locks_inv_new)
qed

lemma file_fs_simps: "entry_of (fs_db file_fs) p n = (if (p, n) = (1, ''f'') then Some 2 else None)"
  "node_of (fs_db file_fs) 2 = Some (fresh_node File 0x1A4 0 0 8)" "fs_caller_uid file_fs = 0" "\<not> fs_readonly file_fs"
  "\<exists>cols. node_of (fs_db file_fs) 1 = Some cols \<and> n_kind cols = Dir \<and> n_mode cols = 0x1ED" "room (fs_db file_fs)"
  by (auto simp: file_fs_def file_db_def entry_of_def node_of_def demo_fs_def root_cols_def room_def)

theorem mkdir_spec_witness:
  "\<exists>s'. fs_mkdir ''/g'' 0x1ED file_fs = (Inr (), s') \<and> lookup (fs_db s') ''/g'' = Inr 3 \<and> entry_of (fs_db s') 1 ''f'' = Some 2"
proof -
  obtain r s' where r: "fs_mkdir ''/g'' 0x1ED file_fs = (r, s')" by fastforce
  have "add_check file_fs ''/g'' = Inr (1, ''g'')"
    using file_fs_simps by (auto simp: add_check_Inr parent_lookup_def path_g ROOT_INODE_def grants_def check_access_def
        ACCESS_W_def ACCESS_X_def)
  moreover have "next_inode (fs_db file_fs) = 3" by (simp add: file_fs_def file_db_def next_inode_def)
  ultimately show ?thesis using mkdir_spec[OF file_fs_ok file_fs_simps(6) r] r by (simp add: file_fs_simps)
qed

theorem rename_spec_witness:
  "\<exists>s'. fs_rename ''/f'' ''/g'' file_fs = (Inr (), s') \<and> (lookup (fs_db s') ''/g'' = Inr 2 \<or> rename_same file_fs ''/f'' ''/g'')"
proof -
  have "\<exists>s'. fs_rename ''/f'' ''/g'' file_fs = (Inr (), s')"
    by (simp add: fs_rename_def eval_io eval_tables eval_fs eval_demo path_g file_fs_def file_db_def)
  then obtain s' where r: "fs_rename ''/f'' ''/g'' file_fs = (Inr (), s')" by blast
  from rename_spec[OF file_fs_ok(1) r] r show ?thesis
    by (auto simp: parent_lookup_def demo_path path_g ROOT_INODE_def file_fs_simps split: if_splits)
qed

lemma file_fs_fd: "fd_check file_fs 1 O_RDONLY = Inr 2" "write_check file_fs 1 = Inr 2"
  by (auto simp: write_check_def fd_check_Inr file_fs_simps fdtable_get_Inr)
    (auto simp: file_fs_def demo_fs_def fdtable_open_def fdtable_new_def Let_def O_ACCMODE_def O_RDWR_def)

theorem write_then_read_witness:
  "\<exists>n s1 s2. fs_write_fd 1 3 [1, 2, 3] file_fs = (Inr n, s1) \<and> fs_read_fd 1 3 3 s1 = (Inr [1, 2, 3], s2)"
  using write_then_read[OF file_fs_ok file_fs_fd(2,1), of 3 "[1, 2, 3]"] by auto

theorem unlink_keeps_open_data_witness:
  "\<exists>bs s1 s2 s3. fs_read_fd 1 0 8 file_fs = (Inr bs, s1) \<and> fs_unlink ''/f'' file_fs = (Inr (), s2)
    \<and> lookup (fs_db s2) ''/f'' = Inl NotFound \<and> fs_read_fd 1 0 8 s2 = (Inr bs, s3)"
proof -
  have "unlink_check file_fs ''/f'' = Inr (1, ''f'', 2)"
    using file_fs_simps by (auto simp: unlink_check_Inr parent_lookup_def demo_path ROOT_INODE_def grants_def check_access_def
        ACCESS_W_def ACCESS_X_def has_kind_def)
  from unlink_keeps_open_data[OF file_fs_ok this file_fs_fd(1) file_fs_simps(2), of 0 8] show ?thesis by simp
qed

theorem readdir_spec_witness:
  "\<exists>es s'. fs_readdir ''/'' file_fs = (Inr es, s') \<and> \<lparr>de_name = ''f'', de_kind = File, de_inode = 2\<rparr> \<in> set es"
proof -
  have "readdir_check file_fs ''/'' = Inr 1"
    using file_fs_simps by (auto simp: readdir_check_Inr lookup_def path_g ROOT_INODE_def grants_def check_access_def ACCESS_R_def
        ACCESS_X_def access_contains_def)
  then have "wp (fs_readdir ''/'') (\<lambda>_ _. True) (\<lambda>_ _. False) file_fs"
    using file_fs_ok by (auto simp: fs_ok_def intro!: wp_fs_readdir)
  from wp_returns[OF this] obtain es s' where r: "fs_readdir ''/'' file_fs = (Inr es, s')" by blast
  from readdir_spec[OF file_fs_ok(1) r] r show ?thesis
    by (auto simp: lookup_def path_g ROOT_INODE_def file_fs_simps)
qed

theorem path_of_inode_leads_back_witness:
  "\<exists>cs. fst (path_of_inode 2 (fs_conn file_fs)) = Inr (Some (path_string cs)) \<and> walk (fs_db file_fs) ROOT_INODE cs = Inr 2"
proof -
  have "linked (fs_db file_fs) 2" by (rule linkedI[of _ 1 "''f''"]) (simp add: file_fs_simps)
  with path_of_inode_leads_back[OF file_fs_ok, of 2 "fst (path_of_inode 2 (fs_conn file_fs))" "snd (path_of_inode 2 (fs_conn file_fs))"]
  show ?thesis by auto
qed

end
