(* ===== verification/Fs_Fsck.thy ===== *)
theory Fs_Fsck
  imports Fs_Behaviour
begin

text \<open>
  The consistency check: \<open>fsck.rs\<close>.  Each query is the list of its rows, in the order of the table
  (the engine may give another; what is proved is about which rows there are).  The texts of the
  messages are left out.  The recursive query over parents is unrolled into its 4096 levels.
\<close>

section \<open>The checks\<close>

definition issue :: "fsck_kind \<Rightarrow> inode \<Rightarrow> fsck_issue" where
  "issue kind i = \<lparr>fi_kind = kind, fi_inode = Some i\<rparr>"

definition orphan_blobs :: "db \<Rightarrow> inode list" where
  "orphan_blobs d = remdups (map (\<lambda>((i, k), b). i) (filter (\<lambda>((i, k), b). node_of d i = None) (t_blobs d)))"

definition check_orphan_blobs :: "(conn, exn, fsck_issue list) io" where
  "check_orphan_blobs = bindE (query orphan_blobs) (\<lambda>rows. ret (map (issue OrphanBlob) rows))"

definition orphan_xattrs :: "db \<Rightarrow> inode list" where
  "orphan_xattrs d = remdups (map (\<lambda>((i, n), v). i) (filter (\<lambda>((i, n), v). node_of d i = None) (t_xattrs d)))"

definition check_orphan_xattrs :: "(conn, exn, fsck_issue list) io" where
  "check_orphan_xattrs = bindE (query orphan_xattrs) (\<lambda>rows. ret (map (issue OrphanXattr) rows))"

definition orphan_symlinks :: "db \<Rightarrow> inode list" where
  "orphan_symlinks d = remdups (map fst (filter (\<lambda>(i, t). node_of d i = None) (t_symlinks d)))"

definition missing_symlinks :: "db \<Rightarrow> inode list" where
  "missing_symlinks d = map fst (filter (\<lambda>(i, n). n_kind n = Symlink \<and> symlink_of d i = None) (t_nodes d))"

definition check_orphan_symlinks :: "(conn, exn, fsck_issue list) io" where
  "check_orphan_symlinks =
     bindE (query orphan_symlinks) (\<lambda>rows.
     bindE (query missing_symlinks) (\<lambda>rows'.
     ret (map (issue OrphanSymlink) rows @ map (issue OrphanSymlink) rows')))"

definition parentless_entries :: "db \<Rightarrow> inode list" where
  "parentless_entries d = map (\<lambda>((p, n), i). p) (filter (\<lambda>((p, n), i). node_of d p = None) (t_entries d))"

definition childless_entries :: "db \<Rightarrow> inode list" where
  "childless_entries d = map (\<lambda>((p, n), i). i) (filter (\<lambda>((p, n), i). node_of d i = None) (t_entries d))"

definition check_dangling_entries :: "(conn, exn, fsck_issue list) io" where
  "check_dangling_entries =
     bindE (query parentless_entries) (\<lambda>rows.
     bindE (query childless_entries) (\<lambda>rows'.
     ret (map (issue DanglingParent) rows @ map (issue DanglingParent) rows')))"

text \<open>The rows \<open>(inode, ancestor)\<close> of \<open>walk\<close>, level by level of \<open>depth\<close>.\<close>

definition walk_start :: "db \<Rightarrow> (inode \<times> inode) list" where
  "walk_start d = map (\<lambda>((p, n), i). (i, p)) (t_entries d)"

definition walk_step :: "db \<Rightarrow> (inode \<times> inode) list \<Rightarrow> (inode \<times> inode) list" where
  "walk_step d rows = concat (map (\<lambda>(i, a). map (\<lambda>((p, n), c). (i, p)) (filter (\<lambda>((p, n), c). c = a) (t_entries d))) rows)"

definition walk_rows :: "db \<Rightarrow> nat \<Rightarrow> (inode \<times> inode) list" where
  "walk_rows d depth = concat (map (\<lambda>k. (walk_step d ^^ k) (walk_start d)) [0 ..< depth])"

definition cycle_rows :: "db \<Rightarrow> inode list" where
  "cycle_rows d = remdups (map fst (filter (\<lambda>(i, a). i = a) (walk_rows d 4096)))"

definition check_cycles :: "(conn, exn, fsck_issue list) io" where
  "check_cycles = bindE (query cycle_rows) (\<lambda>rows. ret (map (issue Cycle) rows))"

text \<open>\<open>nlink\<close> and the count are read as 32-bit words.\<close>

definition nlink_rows :: "db \<Rightarrow> (inode \<times> u32 \<times> u32) list" where
  "nlink_rows d = map (\<lambda>(i, n). (i, word_of_int (n_nlink n),
       of_nat (length (filter (\<lambda>((p, m), c). p = i \<and> has_kind d c Dir) (t_entries d)))))
     (filter (\<lambda>(i, n). n_kind n = Dir) (t_nodes d))"

definition check_nlink :: "(conn, exn, fsck_issue list) io" where
  "check_nlink = bindE (query nlink_rows) (\<lambda>rows.
     ret (map (\<lambda>(i, nlink, subdirs). issue NlinkMismatch i) (filter (\<lambda>(i, nlink, subdirs). nlink \<noteq> subdirs + 2) rows)))"

definition integrity_check :: "(conn, exn, string) io" where
  "integrity_check c = query (c_integrity c) c"

definition run_fsck :: "(conn, exn, fsck_report) io" where
  "run_fsck =
     bindE integrity_check (\<lambda>integ.
     bindE check_orphan_blobs (\<lambda>i1.
     bindE check_orphan_xattrs (\<lambda>i2.
     bindE check_orphan_symlinks (\<lambda>i3.
     bindE check_dangling_entries (\<lambda>i4.
     bindE check_cycles (\<lambda>i5.
     bindE check_nlink (\<lambda>i6.
     ret \<lparr>integrity_check_result = (if integ = ''ok'' then IntegrityOk else Corrupted),
       issues = i1 @ i2 @ i3 @ i4 @ i5 @ i6\<rparr>)))))))"

section \<open>What the queries find\<close>

lemma in_orphan_blobs: "keyed (t_blobs d) \<Longrightarrow> i \<in> set (orphan_blobs d) \<longleftrightarrow> node_of d i = None \<and> (\<exists>k. blob_of d i k \<noteq> None)"
  using in_table_iff[of "t_blobs d"] by (force simp: orphan_blobs_def blob_of_def image_iff)

lemma in_orphan_xattrs: "keyed (t_xattrs d) \<Longrightarrow> i \<in> set (orphan_xattrs d) \<longleftrightarrow> node_of d i = None \<and> (\<exists>n. xattr_of d i n \<noteq> None)"
  using in_table_iff[of "t_xattrs d"] by (force simp: orphan_xattrs_def xattr_of_def image_iff)

lemma in_orphan_symlinks: "keyed (t_symlinks d) \<Longrightarrow> i \<in> set (orphan_symlinks d) \<longleftrightarrow> node_of d i = None \<and> symlink_of d i \<noteq> None"
  using in_table_iff[of "t_symlinks d"] by (force simp: orphan_symlinks_def symlink_of_def image_iff)

lemma in_table_ex: "keyed t \<Longrightarrow> (\<exists>v. (k, v) \<in> set t \<and> P v) \<longleftrightarrow> (case map_of t k of None \<Rightarrow> False | Some v \<Rightarrow> P v)"
  by (cases "map_of t k") (auto dest: map_of_SomeD eq_key_imp_eq_value)

lemma in_missing_symlinks: "keyed (t_nodes d) \<Longrightarrow> i \<in> set (missing_symlinks d) \<longleftrightarrow> has_kind d i Symlink \<and> symlink_of d i = None"
proof -
  have "i \<in> set (missing_symlinks d) \<longleftrightarrow> (\<exists>n. (i, n) \<in> set (t_nodes d) \<and> n_kind n = Symlink) \<and> symlink_of d i = None"
    by (force simp: missing_symlinks_def image_iff)
  then show "keyed (t_nodes d) \<Longrightarrow> ?thesis" by (simp only: in_table_ex has_kind_def node_of_def)
qed

lemma in_dangling:
  assumes "keyed (t_entries d)"
  shows "i \<in> set (parentless_entries d) \<longleftrightarrow> node_of d i = None \<and> (\<exists>n. entry_of d i n \<noteq> None)"
    "i \<in> set (childless_entries d) \<longleftrightarrow> node_of d i = None \<and> (\<exists>p n. entry_of d p n = Some i)"
  using in_table_iff[OF assms] by (force simp: parentless_entries_def childless_entries_def entry_of_def image_iff)+

lemma steps: "(p, i) \<in> r ^^ Suc n \<longleftrightarrow> (\<exists>a. (p, a) \<in> r \<and> (a, i) \<in> r ^^ n)"
  using relpow_Suc_D2[of p i n r] relpow_Suc_I2[of p _ r i n] by blast

lemma set_walk_step: "set (walk_step d rows) = {(i, p). \<exists>a. (i, a) \<in> set rows \<and> (p, a) \<in> edges d}"
  by (force simp: walk_step_def edges_def image_iff)

lemma walk_level: "set ((walk_step d ^^ k) (walk_start d)) = {(i, a). (a, i) \<in> edges d ^^ Suc k}"
proof (induction k)
  case 0
  show ?case by (force simp: walk_start_def edges_def image_iff)
next
  case (Suc k)
  have "set ((walk_step d ^^ Suc k) (walk_start d)) = {(i, p). \<exists>a. (p, a) \<in> edges d \<and> (a, i) \<in> edges d ^^ Suc k}"
    unfolding funpow.simps comp_def set_walk_step Suc.IH by auto
  also have "\<dots> = {(i, p). (p, i) \<in> edges d ^^ Suc (Suc k)}"
    by (simp only: steps)
  finally show ?case .
qed

lemma in_cycle_rows: "i \<in> set (cycle_rows d) \<longleftrightarrow> (\<exists>k \<ge> 1. k \<le> 4096 \<and> (i, i) \<in> edges d ^^ k)"
proof -
  have "set (walk_rows d n) = {(i, a). \<exists>k < n. (a, i) \<in> edges d ^^ Suc k}" for n
    by (auto simp: walk_rows_def walk_level simp del: relpow.simps(2) funpow.simps(2))
  then have "i \<in> set (cycle_rows d) \<longleftrightarrow> (\<exists>k < 4096. (i, i) \<in> edges d ^^ Suc k)"
    by (force simp: cycle_rows_def image_iff simp del: relpow.simps(2))
  also have "\<dots> \<longleftrightarrow> (\<exists>k \<ge> 1. k \<le> 4096 \<and> (i, i) \<in> edges d ^^ k)"
    by (metis One_nat_def Suc_le_D Suc_le_eq le_add1 less_eq_Suc_le plus_1_eq_Suc)
  finally show ?thesis .
qed

lemma subdirs_count: "length (filter (\<lambda>((p, m), c). p = i \<and> has_kind d c Dir) (t_entries d)) = subdir_count d i"
  by (auto simp: subdir_count_def count_rows_def intro!: arg_cong[where f = length] filter_cong)

text \<open>What a report should say of the tables.\<close>

fun fault_of :: "db \<Rightarrow> fsck_kind \<Rightarrow> inode \<Rightarrow> bool" where
  "fault_of d OrphanBlob i \<longleftrightarrow> node_of d i = None \<and> (\<exists>k. blob_of d i k \<noteq> None)"
| "fault_of d OrphanXattr i \<longleftrightarrow> node_of d i = None \<and> (\<exists>n. xattr_of d i n \<noteq> None)"
| "fault_of d OrphanSymlink i \<longleftrightarrow> node_of d i = None \<and> symlink_of d i \<noteq> None \<or> has_kind d i Symlink \<and> symlink_of d i = None"
| "fault_of d DanglingParent i \<longleftrightarrow> node_of d i = None \<and> ((\<exists>n. entry_of d i n \<noteq> None) \<or> (\<exists>p n. entry_of d p n = Some i))"
| "fault_of d Cycle i \<longleftrightarrow> (\<exists>k \<ge> 1. k \<le> 4096 \<and> (i, i) \<in> edges d ^^ k)"
| "fault_of d NlinkMismatch i \<longleftrightarrow> has_kind d i Dir
     \<and> map_option (\<lambda>n. word_of_int (n_nlink n)) (node_of d i) \<noteq> Some (of_nat (subdir_count d i) + 2 :: u32)"

definition nlink_issues :: "db \<Rightarrow> fsck_issue list" where
  "nlink_issues d = map (\<lambda>(i, nlink, subdirs). issue NlinkMismatch i) (filter (\<lambda>(i, nlink, subdirs). nlink \<noteq> subdirs + 2) (nlink_rows d))"

lemma issue_eq [simp]: "issue k i = issue k' i' \<longleftrightarrow> k = k' \<and> i = i'"
  by (simp add: issue_def)

lemma in_nlink_issues:
  assumes "keyed (t_nodes d)"
  shows "issue k i \<in> set (nlink_issues d) \<longleftrightarrow> k = NlinkMismatch \<and> fault_of d NlinkMismatch i"
proof -
  have "issue k i \<in> set (nlink_issues d) \<longleftrightarrow> k = NlinkMismatch
      \<and> (\<exists>n. (i, n) \<in> set (t_nodes d) \<and> n_kind n = Dir \<and> word_of_int (n_nlink n) \<noteq> (of_nat (subdir_count d i) + 2 :: u32))"
    by (auto simp: nlink_issues_def nlink_rows_def subdirs_count image_iff)
  also have "\<dots> \<longleftrightarrow> k = NlinkMismatch \<and> fault_of d NlinkMismatch i"
    unfolding in_table_ex[OF assms] fault_of.simps has_kind_def node_of_def by (auto split: option.split)
  finally show ?thesis .
qed

definition all_issues :: "db \<Rightarrow> fsck_issue list" where
  "all_issues d = map (issue OrphanBlob) (orphan_blobs d) @ map (issue OrphanXattr) (orphan_xattrs d)
     @ (map (issue OrphanSymlink) (orphan_symlinks d) @ map (issue OrphanSymlink) (missing_symlinks d))
     @ (map (issue DanglingParent) (parentless_entries d) @ map (issue DanglingParent) (childless_entries d))
     @ map (issue Cycle) (cycle_rows d) @ nlink_issues d"

lemma in_all_issues:
  assumes "wf_keys d"
  shows "issue k i \<in> set (all_issues d) \<longleftrightarrow> fault_of d k i"
proof -
  have keys: "keyed (t_nodes d)" "keyed (t_entries d)" "keyed (t_blobs d)" "keyed (t_xattrs d)" "keyed (t_symlinks d)"
    using assms by (simp_all add: wf_keys_def)
  show ?thesis
    unfolding all_issues_def set_append Un_iff in_nlink_issues[OF keys(1)] set_map image_iff issue_eq
    by (cases k) (simp_all add: in_orphan_blobs[OF keys(3)] in_orphan_xattrs[OF keys(4)] in_orphan_symlinks[OF keys(5)]
        in_missing_symlinks[OF keys(1)] in_dangling[OF keys(2)] in_cycle_rows, blast+)
qed

lemma wp_run_fsck:
  assumes "\<And>t. \<not> reliable c \<Longrightarrow> E (Fail (Sqlite IoFault)) (c\<lparr>c_tick := t\<rparr>)"
    and "\<And>t. Q \<lparr>integrity_check_result = (if c_integrity c (c_db c) = ''ok'' then IntegrityOk else Corrupted),
      issues = all_issues (c_db c)\<rparr> (c\<lparr>c_tick := t\<rparr>)"
  shows "wp run_fsck Q E c"
proof -
  have integ: "wp integrity_check Q' E' c = wp (query (c_integrity c)) Q' E' c" for Q' E'
    by (simp add: wp_def integrity_check_def)
  show ?thesis
    unfolding run_fsck_def wp_bindE integ check_orphan_blobs_def check_orphan_xattrs_def check_orphan_symlinks_def
      check_dangling_entries_def check_cycles_def check_nlink_def wp_ret
    by (intro wp_query) (use assms in \<open>simp_all add: all_issues_def nlink_issues_def\<close>)
qed

section \<open>Properties\<close>

text \<open>
  C26 (run_fsck): over tables with distinct keys, the report has an issue of a kind for an inode exactly when the
  tables have that fault there; cycles are found up to length 4096; the tables are not changed.
\<close>

theorem fsck_exact:
  assumes "wf_keys (c_db c)" and "run_fsck c = (Inr report, c')"
  shows "c_db c' = c_db c \<and> (\<forall>k i. issue k i \<in> set (issues report) \<longleftrightarrow> fault_of (c_db c) k i)"
proof -
  have "wp run_fsck (\<lambda>r c'. c_db c' = c_db c \<and> (\<forall>k i. issue k i \<in> set (issues r) \<longleftrightarrow> fault_of (c_db c) k i)) (\<lambda>_ _. True) c"
    by (rule wp_run_fsck) (simp_all add: in_all_issues[OF assms(1)])
  from wp_runQ[OF this assms(2)] show ?thesis .
qed

lemma rows_without_node:
  assumes "wf_refs d" and "node_of d i = None"
  shows "blob_of d i k = None" "xattr_of d i n = None" "symlink_of d i = None" "entry_of d i n = None" "entry_of d p n \<noteq> Some i"
proof -
  have "\<not> has_kind d i Dir" using assms(2) by (simp add: has_kind_def)
  then show "entry_of d i n = None" using assms(1) unfolding wf_refs_def by (cases "entry_of d i n") auto
qed (use assms in \<open>unfold wf_refs_def, blast+\<close>)

text \<open>
  C27 (run_fsck): whatever calls were made, and whichever of them failed, \<open>fsck\<close> finds no orphans, no dangling
  entries, no missing targets and no cycles: the only issue there can be is the link count of a directory.
\<close>

theorem histories_pass_fsck:
  assumes "fs_ok s0" and "reachable s0 s" and "run_fsck (fs_conn s) = (Inr report, c')" and "issue k i \<in> set (issues report)"
  shows "k = NlinkMismatch"
proof -
  have ok: "fs_ok s" by (rule reachable_ok[OF assms(2,1)])
  have t: "tree (fs_db s)" and sl: "wf_symlinks (fs_db s)" using ok_simps[OF ok] by (simp_all add: wf_db_def)
  have "wp run_fsck (\<lambda>r _. issues r = all_issues (fs_db s)) (\<lambda>_ _. True) (fs_conn s)"
    by (rule wp_run_fsck) simp_all
  from wp_runQ[OF this assms(3)] assms(4) have "fault_of (fs_db s) k i" using in_all_issues[OF tree_keys[OF t]] by simp
  then show ?thesis
  proof (cases k)
    case Cycle
    then obtain j where "1 \<le> j" "(i, i) \<in> edges (fs_db s) ^^ j" using \<open>fault_of (fs_db s) k i\<close> by auto
    then have "(i, i) \<in> (edges (fs_db s))\<^sup>+" by (metis less_eq_Suc_le One_nat_def trancl_power)
    then show ?thesis using t by (simp add: tree_def acyclic_def)
  next
    case OrphanSymlink
    have "symlink_of (fs_db s) i \<noteq> None \<longleftrightarrow> has_kind (fs_db s) i Symlink" using sl unfolding wf_symlinks_def by blast
    then show ?thesis using \<open>fault_of (fs_db s) k i\<close> OrphanSymlink by (auto simp: has_kind_def)
  qed (use \<open>fault_of (fs_db s) k i\<close> t in \<open>auto simp: tree_def rows_without_node\<close>)
qed

theorem fsck_exact_witness:
  "\<exists>report c'. run_fsck (fs_conn file_fs) = (Inr report, c') \<and> issue DanglingParent 1 \<notin> set (issues report)"
proof -
  have keys: "wf_keys (fs_db file_fs)" by (rule tree_keys[OF ok_simps(3)[OF file_fs_ok(1)]])
  have "wp run_fsck (\<lambda>_ _. True) (\<lambda>_ _. False) (fs_conn file_fs)"
    by (rule wp_run_fsck) (simp_all add: file_fs_ok(2))
  from wp_returns[OF this] obtain report c' where r: "run_fsck (fs_conn file_fs) = (Inr report, c')" by blast
  have "issue DanglingParent 1 \<in> set (issues report) \<longleftrightarrow> fault_of (fs_db file_fs) DanglingParent 1"
    using fsck_exact[OF keys r] by blast
  moreover have "\<not> fault_of (fs_db file_fs) DanglingParent 1" using file_fs_simps(5) by auto
  ultimately show ?thesis using r by blast
qed

section \<open>A directory that is renamed over\<close>

text \<open>The empty directories \<open>/f\<close> and \<open>/g\<close>, and then \<open>rename /f /g\<close>.\<close>

definition demo_at :: "db \<Rightarrow> nat \<Rightarrow> nat \<Rightarrow> filesystem" where
  "demo_at d t pos = demo_fs\<lparr>fs_conn := (connect d)\<lparr>c_tick := t\<rparr>, fs_clock_pos := pos\<rparr>"

definition dir_cols :: "int \<Rightarrow> int \<Rightarrow> int \<Rightarrow> int \<Rightarrow> node_cols" where
  "dir_cols a m c links = \<lparr>n_kind = Dir, n_mode = 0x1ED, n_uid = 0, n_gid = 0, n_size = 0, n_atime_ns = a, n_mtime_ns = m,
     n_ctime_ns = c, n_nlink = links\<rparr>"

definition dirs_db :: "(inode \<times> node_cols) list \<Rightarrow> ((inode \<times> string) \<times> inode) list \<Rightarrow> int \<Rightarrow> db" where
  "dirs_db nodes entries seq = \<lparr>t_version = [(2, 4)], t_nodes = nodes, t_entries = entries, t_blobs = [], t_xattrs = [],
     t_symlinks = [], t_seq = seq\<rparr>"

lemmas eval_dirs = eval_io eval_tables eval_fs eval_demo path_g dirs_db_def dir_cols_def demo_at_def mkdir_tx_def next_inode_def

definition dirs1 :: db where
  "dirs1 = dirs_db [(1, dir_cols 7 8 8 3), (2, dir_cols 8 8 8 2)] [((1, ''f''), 2)] 2"

definition dirs2 :: db where
  "dirs2 = dirs_db [(1, dir_cols 7 10 10 4), (2, dir_cols 8 8 8 2), (3, dir_cols 10 10 10 2)] [((1, ''f''), 2), ((1, ''g''), 3)] 3"

definition dirs3 :: db where
  "dirs3 = dirs_db [(1, dir_cols 7 12 12 4), (2, dir_cols 8 8 12 2), (3, dir_cols 10 10 12 1)] [((1, ''g''), 2)] 3"

lemma mkdir_f: "fs_mkdir ''/f'' 0x1ED demo_fs = (Inr (), demo_at dirs1 8 10)"
  by (simp add: fs_mkdir_def eval_dirs dirs1_def fresh_db_def empty_tables_def SCHEMA_VERSION_def)

lemma mkdir_g: "\<exists>t. fs_mkdir ''/g'' 0x1ED (demo_at dirs1 8 10) = (Inr (), demo_at dirs2 t 12)"
  by (simp add: fs_mkdir_def eval_dirs dirs1_def dirs2_def)

lemma rename_f_g: "\<exists>t'. fs_rename ''/f'' ''/g'' (demo_at dirs2 t 12) = (Inr (), demo_at dirs3 t' 14)"
  by (simp add: fs_rename_def eval_dirs dirs2_def dirs3_def move_entry_def ancestry_def unless_diverges_def
      ancestry_loop.simps[of 1] parent_of_def parents_of_def)

lemma renamed_over:
  obtains t where "reachable demo_fs (demo_at dirs3 t 14)"
proof -
  obtain t t' where g: "fs_mkdir ''/g'' 0x1ED (demo_at dirs1 8 10) = (Inr (), demo_at dirs2 t 12)"
    and r: "fs_rename ''/f'' ''/g'' (demo_at dirs2 t 12) = (Inr (), demo_at dirs3 t' 14)"
    using mkdir_g rename_f_g by blast
  have "reachable demo_fs (demo_at dirs1 8 10)"
    by (rule reachable.step[OF reachable.start, of _ "Names (CallMkdir ''/f'' 0x1ED)"]) (simp_all add: reply_def bindE_def ret_def mkdir_f)
  then have "reachable demo_fs (demo_at dirs2 t 12)"
    by (rule reachable.step[where c = "Names (CallMkdir ''/g'' 0x1ED)"]) (simp_all add: reply_def bindE_def ret_def g)
  then have "reachable demo_fs (demo_at dirs3 t' 14)"
    by (rule reachable.step[where c = "Names (CallRename ''/f'' ''/g'')"]) (simp_all add: reply_def bindE_def ret_def r)
  then show thesis by (rule that)
qed

lemma demo_at_simps [simp]: "fs_db (demo_at d t pos) = d" "reliable (fs_conn (demo_at d t pos))"
  by (simp_all add: demo_at_def)

lemma dirs3_faults:
  "fault_of dirs3 NlinkMismatch 1" "fault_of dirs3 NlinkMismatch 3" "node_of dirs3 3 \<noteq> None" "\<not> linked dirs3 3"
  by (simp_all add: dirs3_def dirs_db_def dir_cols_def has_kind_def node_of_def entry_of_def linked_def ROOT_INODE_def
      subdir_count_def count_rows_def)

text \<open>
  A rename of a directory over an empty directory takes the entry of the old one away but
  lowers its link count from 2 to 1 only, so the node is not deleted: it stays without any name, and the parent
  keeps a link count one too high; \<open>fsck\<close> reports both.
\<close>

theorem rename_over_directory_leaks:
  "\<exists>s i report c'. reachable demo_fs s \<and> reliable (fs_conn s) \<and> has_kind (fs_db s) i Dir \<and> \<not> linked (fs_db s) i
    \<and> run_fsck (fs_conn s) = (Inr report, c')
    \<and> issue NlinkMismatch i \<in> set (issues report) \<and> issue NlinkMismatch ROOT_INODE \<in> set (issues report)"
proof -
  obtain t where re: "reachable demo_fs (demo_at dirs3 t 14)" by (rule renamed_over)
  let ?s = "demo_at dirs3 t 14"
  have keys: "wf_keys dirs3" using tree_keys[OF ok_simps(3)[OF reachable_ok[OF re demo_fs_ok(1)]]] by simp
  have "wp run_fsck (\<lambda>r _. issues r = all_issues dirs3) (\<lambda>_ _. False) (fs_conn ?s)"
    by (rule wp_run_fsck) simp_all
  from wp_returns[OF this] obtain report c' where r: "run_fsck (fs_conn ?s) = (Inr report, c')" "issues report = all_issues dirs3"
    by blast
  have "has_kind dirs3 3 Dir" by (simp add: dirs3_def dirs_db_def dir_cols_def has_kind_def node_of_def)
  with re r dirs3_faults in_all_issues[OF keys] show ?thesis by (force simp: ROOT_INODE_def)
qed

theorem histories_pass_fsck_witness:
  "\<exists>s report c' i. reachable demo_fs s \<and> run_fsck (fs_conn s) = (Inr report, c') \<and> issue NlinkMismatch i \<in> set (issues report)"
proof -
  obtain t where re: "reachable demo_fs (demo_at dirs3 t 14)" by (rule renamed_over)
  let ?s = "demo_at dirs3 t 14"
  have keys: "wf_keys dirs3" using tree_keys[OF ok_simps(3)[OF reachable_ok[OF re demo_fs_ok(1)]]] by simp
  have "wp run_fsck (\<lambda>r _. issues r = all_issues dirs3) (\<lambda>_ _. False) (fs_conn ?s)"
    by (rule wp_run_fsck) simp_all
  from wp_returns[OF this] obtain report c' where r: "run_fsck (fs_conn ?s) = (Inr report, c')" "issues report = all_issues dirs3"
    by blast
  have "issue NlinkMismatch 1 \<in> set (issues report)" using in_all_issues[OF keys] dirs3_faults(1) r(2) by simp
  moreover from histories_pass_fsck[OF demo_fs_ok(1) re r(1) this] have "NlinkMismatch = NlinkMismatch" .
  ultimately show ?thesis using re r(1) by blast
qed

end
