(* ===== verification/Fs_Adapter.thy ===== *)
theory Fs_Adapter
  imports Fs_Fsck
begin

text \<open>
  The FUSE adapter: \<open>fuse/adapter.rs\<close>.  A handler is a computation on the filesystem that returns the
  reply it sends; the kernel's requests, the buffer it offers for a directory and the names that are
  not UTF-8 are arguments.  A name is the result of \<open>to_str\<close>, a time is in nanoseconds from the epoch.
\<close>

section \<open>Requests and replies\<close>

record request =
  rq_uid :: u32
  rq_gid :: u32

type_synonym os_name = "string option"

datatype file_type = RegularFile | Directory | SymlinkType

record file_attr =
  fa_ino :: u64
  fa_size :: u64
  fa_blocks :: u64
  fa_atime :: int
  fa_mtime :: int
  fa_ctime :: int
  fa_crtime :: int
  fa_kind :: file_type
  fa_perm :: "16 word"
  fa_nlink :: u32
  fa_uid :: u32
  fa_gid :: u32
  fa_rdev :: u32
  fa_blksize :: u32
  fa_flags :: u32

type_synonym dir_item = "u64 \<times> int \<times> file_type \<times> string"  \<comment> \<open>inode, next offset, kind, name\<close>

datatype fuse_reply =
    RepError int | RepOk | RepEntry file_attr | RepAttr file_attr | RepOpened u64
  | RepCreated file_attr u64 | RepData "byte list" | RepWritten u32 | RepSize u32
  | RepDirectory "dir_item list" | RepStatfs "int list"

datatype time_or_now = SpecificTime int | Now

definition EINVAL :: int where "EINVAL = 22"
definition ENOENT :: int where "ENOENT = 2"
definition ERANGE :: int where "ERANGE = 34"

section \<open>Attributes\<close>

fun kind_to_ft :: "node_kind \<Rightarrow> file_type" where
  "kind_to_ft File = RegularFile"
| "kind_to_ft Dir = Directory"
| "kind_to_ft Symlink = SymlinkType"

text \<open>\<open>/\<close> on \<open>i64\<close> rounds towards zero, so a negative time has no seconds and its \<open>rem_euclid\<close> nanoseconds.\<close>

definition to_ts :: "int \<Rightarrow> int" where
  "to_ts ns = (let secs = max (sgn ns * (\<bar>ns\<bar> div 1000000000)) 0; nanos = ns mod 1000000000
     in secs * 1000000000 + nanos)"

definition stat_to_attr :: "stat \<Rightarrow> file_attr" where
  "stat_to_attr st = \<lparr>fa_ino = st_inode st, fa_size = st_size st, fa_blocks = (st_size st + 511) div 512,
     fa_atime = to_ts (st_atime_ns st), fa_mtime = to_ts (st_mtime_ns st), fa_ctime = to_ts (st_ctime_ns st),
     fa_crtime = to_ts (st_ctime_ns st), fa_kind = kind_to_ft (st_kind st), fa_perm = ucast (st_mode st AND 0xFFF),
     fa_nlink = st_nlink st, fa_uid = st_uid st, fa_gid = st_gid st, fa_rdev = 0, fa_blksize = 4096, fa_flags = 0\<rparr>"

section \<open>The shape of a handler\<close>

text \<open>\<open>match result { Ok(x) => ..., Err(e) => reply.error(e.errno()) }\<close>\<close>

definition answer :: "('a \<Rightarrow> fuse_reply) \<Rightarrow> 'a fs \<Rightarrow> fuse_reply fs" where
  "answer f m s = (case m s of
      (Inr x, s') \<Rightarrow> (Inr (f x), s')
    | (Inl (Fail e), s') \<Rightarrow> (Inr (RepError (errno e)), s')
    | (Inl e, s') \<Rightarrow> (Inl e, s'))"

definition with_name :: "os_name \<Rightarrow> (string \<Rightarrow> fuse_reply fs) \<Rightarrow> fuse_reply fs" where
  "with_name name k = (case name of None \<Rightarrow> ret (RepError EINVAL) | Some n \<Rightarrow> k n)"

definition with_path :: "inode \<Rightarrow> (string \<Rightarrow> fuse_reply fs) \<Rightarrow> fuse_reply fs" where
  "with_path i k = bindE (db_op (path_of_inode i)) (\<lambda>p.
     case p of None \<Rightarrow> ret (RepError ENOENT) | Some path \<Rightarrow> k path)"

definition with_child :: "inode \<Rightarrow> os_name \<Rightarrow> (string \<Rightarrow> fuse_reply fs) \<Rightarrow> fuse_reply fs" where
  "with_child parent name k = with_name name (\<lambda>n. with_path parent (\<lambda>p. k (child_path p n)))"

definition user :: "request \<Rightarrow> 'a fs \<Rightarrow> 'a fs" where
  "user req m = as_user (rq_uid req) (rq_gid req) m"

definition stat_at :: "string \<Rightarrow> stat fs" where
  "stat_at path = db_op (fs_stat path)"

section \<open>Handlers\<close>

definition fuse_lookup :: "request \<Rightarrow> inode \<Rightarrow> os_name \<Rightarrow> fuse_reply fs" where
  "fuse_lookup req parent name = with_child parent name (\<lambda>path.
     user req (answer (\<lambda>st. RepEntry (stat_to_attr st)) (stat_at path)))"

definition fuse_getattr :: "request \<Rightarrow> inode \<Rightarrow> fuse_reply fs" where
  "fuse_getattr req i = with_path i (\<lambda>path.
     user req (answer (\<lambda>st. RepAttr (stat_to_attr st)) (stat_at path)))"

fun to_ns :: "time_or_now \<Rightarrow> int fs" where
  "to_ns (SpecificTime ns) = ret (if ns < 0 then 0 else sint (word_of_int ns :: u64))"
| "to_ns Now = now_ns"

definition to_ns_opt :: "time_or_now option \<Rightarrow> int option fs" where
  "to_ns_opt t = (case t of None \<Rightarrow> ret None | Some t \<Rightarrow> bindE (to_ns t) (\<lambda>ns. ret (Some ns)))"

text \<open>\<open>setattr\<close>: each step runs if the ones before did not fail.\<close>

definition set_mode :: "string \<Rightarrow> u32 option \<Rightarrow> unit fs" where
  "set_mode path mode = (case mode of Some m \<Rightarrow> fs_chmod path m | None \<Rightarrow> ret ())"

definition set_owner :: "string \<Rightarrow> u32 option \<Rightarrow> u32 option \<Rightarrow> unit fs" where
  "set_owner path uid gid = (if uid \<noteq> None \<or> gid \<noteq> None then fs_chown path uid gid else ret ())"

definition set_times :: "string \<Rightarrow> time_or_now option \<Rightarrow> time_or_now option \<Rightarrow> unit fs" where
  "set_times path atime mtime =
     (if atime \<noteq> None \<or> mtime \<noteq> None then
        bindE (to_ns_opt atime) (\<lambda>a. bindE (to_ns_opt mtime) (\<lambda>m. fs_utimes path a m))
      else ret ())"

definition set_length :: "string \<Rightarrow> u64 option \<Rightarrow> unit fs" where
  "set_length path len = (case len of
      None \<Rightarrow> ret ()
    | Some new_len \<Rightarrow>
        if new_len = 0 then
          bindE (fs_open path (O_RDWR OR O_TRUNC)) (\<lambda>fd. bindE (ok (fs_close_fd fd)) (\<lambda>_. ret ()))
        else fail InvalidArgument)"

definition fuse_setattr ::
  "request \<Rightarrow> inode \<Rightarrow> u32 option \<Rightarrow> u32 option \<Rightarrow> u32 option \<Rightarrow> u64 option \<Rightarrow> time_or_now option \<Rightarrow>
    time_or_now option \<Rightarrow> fuse_reply fs" where
  "fuse_setattr req i mode uid gid len atime mtime = with_path i (\<lambda>path.
     user req (answer (\<lambda>st. RepAttr (stat_to_attr st))
       (bindE (set_mode path mode) (\<lambda>_.
        bindE (set_owner path uid gid) (\<lambda>_.
        bindE (set_times path atime mtime) (\<lambda>_.
        bindE (set_length path len) (\<lambda>_.
        stat_at path)))))))"

definition fuse_mkdir :: "request \<Rightarrow> inode \<Rightarrow> os_name \<Rightarrow> u32 \<Rightarrow> fuse_reply fs" where
  "fuse_mkdir req parent name mode = with_child parent name (\<lambda>path.
     user req (answer (\<lambda>st. RepEntry (stat_to_attr st)) (bindE (fs_mkdir path mode) (\<lambda>_. stat_at path))))"

definition fuse_rmdir :: "request \<Rightarrow> inode \<Rightarrow> os_name \<Rightarrow> fuse_reply fs" where
  "fuse_rmdir req parent name = with_child parent name (\<lambda>path. user req (answer (\<lambda>_. RepOk) (fs_rmdir path)))"

definition fuse_unlink :: "request \<Rightarrow> inode \<Rightarrow> os_name \<Rightarrow> fuse_reply fs" where
  "fuse_unlink req parent name = with_child parent name (\<lambda>path. user req (answer (\<lambda>_. RepOk) (fs_unlink path)))"

definition fuse_open :: "request \<Rightarrow> inode \<Rightarrow> u32 \<Rightarrow> fuse_reply fs" where
  "fuse_open req i flags = with_path i (\<lambda>path. user req (answer RepOpened (fs_open path flags)))"

definition fuse_create :: "request \<Rightarrow> inode \<Rightarrow> os_name \<Rightarrow> u32 \<Rightarrow> u32 \<Rightarrow> fuse_reply fs" where
  "fuse_create req parent name mode flags = with_child parent name (\<lambda>path.
     user req (answer (\<lambda>(fd, st). RepCreated (stat_to_attr st) fd)
       (bindE (fs_create path flags mode) (\<lambda>fd. bindE (stat_at path) (\<lambda>st. ret (fd, st))))))"

definition fuse_read :: "request \<Rightarrow> u64 \<Rightarrow> int \<Rightarrow> u32 \<Rightarrow> fuse_reply fs" where
  "fuse_read req fh offset sz =
     user req (answer RepData (fs_read_fd fh (word_of_int (max offset 0)) (ucast sz)))"

definition fuse_write :: "request \<Rightarrow> u64 \<Rightarrow> int \<Rightarrow> byte list \<Rightarrow> fuse_reply fs" where
  "fuse_write req fh offset data =
     user req (answer (\<lambda>_. RepWritten (of_nat (length data))) (fs_write_fd fh (word_of_int (max offset 0)) data))"

definition fuse_flush :: "u64 \<Rightarrow> fuse_reply fs" where
  "fuse_flush fh = answer (\<lambda>_. RepOk) (fs_flush fh)"

definition fuse_release :: "request \<Rightarrow> u64 \<Rightarrow> fuse_reply fs" where
  "fuse_release req fh = user req (answer (\<lambda>_. RepOk) (fs_close_fd fh))"

definition fuse_fsync :: "u64 \<Rightarrow> fuse_reply fs" where
  "fuse_fsync fh = answer (\<lambda>_. RepOk) (fs_fsync fh)"

definition fuse_opendir :: "fuse_reply fs" where
  "fuse_opendir = ret (RepOpened 0)"

text \<open>
  \<open>readdir\<close>: the listing with \<open>.\<close> and \<open>..\<close>, from \<open>offset\<close>, until the kernel's buffer is full; \<open>full\<close> says
  whether an item no longer fits behind the ones before.
\<close>

definition dot_dot :: "inode \<Rightarrow> string \<Rightarrow> (u64 \<times> file_type \<times> string) list fs" where
  "dot_dot i path =
     (if i \<noteq> ROOT_INODE then
        (case adapter_parent_of_path path of
           None \<Rightarrow> ret []
         | Some ppath \<Rightarrow> bindE (ok (stat_at ppath)) (\<lambda>st.
             ret (case st of Some st \<Rightarrow> [(st_inode st, Directory, ''..'')] | None \<Rightarrow> [])))
      else ret [(i, Directory, ''..'')])"

definition dir_items :: "inode \<Rightarrow> string \<Rightarrow> (u64 \<times> file_type \<times> string) list fs" where
  "dir_items i path =
     bindE (fs_readdir path) (\<lambda>entries.
     bindE (dot_dot i path) (\<lambda>parent.
     ret ((i, Directory, ''.'') # parent
       @ map (\<lambda>de. (de_inode de, kind_to_ft (de_kind de), de_name de)) entries)))"

fun fill :: "(dir_item list \<Rightarrow> dir_item \<Rightarrow> bool) \<Rightarrow> dir_item list \<Rightarrow> dir_item list \<Rightarrow> dir_item list" where
  "fill full out [] = out"
| "fill full out (x # xs) = (if full out x then out else fill full (out @ [x]) xs)"

definition numbered :: "(u64 \<times> file_type \<times> string) list \<Rightarrow> dir_item list" where
  "numbered items = map (\<lambda>(k, (i, ft, name)). (i, int k + 1, ft, name)) (zip [0 ..< length items] items)"

definition fuse_readdir :: "(dir_item list \<Rightarrow> dir_item \<Rightarrow> bool) \<Rightarrow> request \<Rightarrow> inode \<Rightarrow> int \<Rightarrow> fuse_reply fs" where
  "fuse_readdir full req i offset = with_path i (\<lambda>path.
     user req (answer (\<lambda>items. RepDirectory (fill full [] (drop (unat (word_of_int offset :: u64)) (numbered items))))
       (dir_items i path)))"

definition fuse_releasedir :: "fuse_reply fs" where
  "fuse_releasedir = ret RepOk"

definition fuse_fsyncdir :: "inode \<Rightarrow> fuse_reply fs" where
  "fuse_fsyncdir i = with_path i (\<lambda>path. answer (\<lambda>_. RepOk) (fs_fsyncdir path))"

definition fuse_statfs :: "fuse_reply fs" where
  "fuse_statfs = ret (RepStatfs [1000000, 500000, 500000, 1000000, 500000, 4096, 255, 4096])"

definition fuse_readlink :: "request \<Rightarrow> inode \<Rightarrow> fuse_reply fs" where
  "fuse_readlink req i = with_path i (\<lambda>path. user req (answer RepData (db_op (fs_readlink path))))"

definition fuse_symlink :: "request \<Rightarrow> inode \<Rightarrow> os_name \<Rightarrow> byte list \<Rightarrow> fuse_reply fs" where
  "fuse_symlink req parent name target = with_child parent name (\<lambda>path.
     user req (answer (\<lambda>st. RepEntry (stat_to_attr st)) (bindE (fs_symlink target path) (\<lambda>_. stat_at path))))"

definition fuse_link :: "request \<Rightarrow> inode \<Rightarrow> inode \<Rightarrow> os_name \<Rightarrow> fuse_reply fs" where
  "fuse_link req i newparent newname = with_name newname (\<lambda>n.
     with_path i (\<lambda>target_path. with_path newparent (\<lambda>np.
       user req (answer (\<lambda>st. RepEntry (stat_to_attr st))
         (bindE (fs_link target_path (child_path np n)) (\<lambda>_. stat_at (child_path np n)))))))"

definition fuse_rename :: "request \<Rightarrow> inode \<Rightarrow> os_name \<Rightarrow> inode \<Rightarrow> os_name \<Rightarrow> fuse_reply fs" where
  "fuse_rename req parent name newparent newname = with_name name (\<lambda>n. with_name newname (\<lambda>n'.
     with_path parent (\<lambda>p. with_path newparent (\<lambda>p'.
       user req (answer (\<lambda>_. RepOk) (fs_rename (child_path p n) (child_path p' n')))))))"

definition fuse_access :: "request \<Rightarrow> inode \<Rightarrow> int \<Rightarrow> fuse_reply fs" where
  "fuse_access req i wanted = with_path i (\<lambda>path.
     user req (answer (\<lambda>_. RepOk)
       (bindE (stat_at path) (\<lambda>row.
        of_result (require_access (st_mode row) (st_uid row) (st_gid row) (rq_uid req) (rq_gid req)
          (access_from_bits_truncate (word_of_int wanted)))))))"

definition fuse_setxattr :: "request \<Rightarrow> inode \<Rightarrow> os_name \<Rightarrow> byte list \<Rightarrow> fuse_reply fs" where
  "fuse_setxattr req i name value = with_name name (\<lambda>n. with_path i (\<lambda>path.
     user req (answer (\<lambda>_. RepOk) (fs_setxattr path n value 0))))"

text \<open>An attribute's value or names: the size when it is asked for, the bytes when they fit.\<close>

definition sized :: "u32 \<Rightarrow> byte list \<Rightarrow> fuse_reply" where
  "sized sz v = (if sz = 0 then RepSize (of_nat (length v))
     else if (of_nat (length v) :: u32) \<le> sz then RepData v else RepError ERANGE)"

definition fuse_getxattr :: "request \<Rightarrow> inode \<Rightarrow> os_name \<Rightarrow> u32 \<Rightarrow> fuse_reply fs" where
  "fuse_getxattr req i name sz = with_name name (\<lambda>n. with_path i (\<lambda>path.
     user req (answer (sized sz) (fs_getxattr path n))))"

definition name_bytes :: "string list \<Rightarrow> byte list" where
  "name_bytes names = concat (map (\<lambda>n. map (\<lambda>c. of_nat (of_char c)) n @ [0]) names)"

definition fuse_listxattr :: "request \<Rightarrow> inode \<Rightarrow> u32 \<Rightarrow> fuse_reply fs" where
  "fuse_listxattr req i sz = with_path i (\<lambda>path.
     user req (answer (\<lambda>names. sized sz (name_bytes names)) (fs_listxattr path)))"

definition fuse_removexattr :: "request \<Rightarrow> inode \<Rightarrow> os_name \<Rightarrow> fuse_reply fs" where
  "fuse_removexattr req i name = with_name name (\<lambda>n. with_path i (\<lambda>path.
     user req (answer (\<lambda>_. RepOk) (fs_removexattr path n))))"

section \<open>Mounting\<close>

record mount_options =
  mt_readonly :: bool
  mt_sync_mode :: sync_mode
  mt_checkpoint_interval :: "nat option"

definition mount_options_default :: mount_options where
  "mount_options_default = \<lparr>mt_readonly = False, mt_sync_mode = default_sync_mode, mt_checkpoint_interval = None\<rparr>"

text \<open>
  \<open>mount2\<close> stands for the session loop of the \<open>fuser\<close> crate on the adapter: it says whether the mount
  worked, and may leave the host changed.
\<close>

definition mount :: "(filesystem \<Rightarrow> (host, exn, bool) io) \<Rightarrow> string \<Rightarrow> mount_options \<Rightarrow> u32 \<Rightarrow> u32 \<Rightarrow> (nat \<Rightarrow> int) \<Rightarrow>
    (host, exn, unit) io" where
  "mount mount2 path opts euid egid clock =
     bindE (open_fs path \<lparr>oo_readonly = mt_readonly opts, oo_uid = None, oo_gid = None,
              oo_sync_mode = mt_sync_mode opts, oo_checkpoint_interval = mt_checkpoint_interval opts\<rparr> euid egid clock) (\<lambda>fs.
     bindE (mount2 fs) (\<lambda>mounted.
     require mounted InvalidArgument))"

section \<open>Requests as data\<close>

datatype entry_request =
    ReqLookup inode os_name | ReqMkdir inode os_name u32 | ReqRmdir inode os_name | ReqUnlink inode os_name
  | ReqCreate inode os_name u32 u32 | ReqSymlink inode os_name "byte list" | ReqLink inode inode os_name
  | ReqRename inode os_name inode os_name

datatype node_request =
    ReqGetattr inode
  | ReqSetattr inode "u32 option" "u32 option" "u32 option" "u64 option" "time_or_now option" "time_or_now option"
  | ReqOpen inode u32 | ReqOpendir | ReqReaddir inode int | ReqReleasedir | ReqFsyncdir inode | ReqReadlink inode
  | ReqAccess inode int | ReqStatfs

datatype handle_request =
    ReqRead u64 int u32 | ReqWrite u64 int "byte list" | ReqFlush u64 | ReqRelease u64 | ReqFsync u64

datatype xattr_request =
    ReqSetxattr inode os_name "byte list" | ReqGetxattr inode os_name u32 | ReqListxattr inode u32
  | ReqRemovexattr inode os_name

datatype fuse_request =
    ReqEntry entry_request | ReqNode node_request | ReqHandle handle_request | ReqXattr xattr_request

fun handle_entry :: "request \<Rightarrow> entry_request \<Rightarrow> fuse_reply fs" where
  "handle_entry req (ReqLookup p n) = fuse_lookup req p n"
| "handle_entry req (ReqMkdir p n m) = fuse_mkdir req p n m"
| "handle_entry req (ReqRmdir p n) = fuse_rmdir req p n"
| "handle_entry req (ReqUnlink p n) = fuse_unlink req p n"
| "handle_entry req (ReqCreate p n m flags) = fuse_create req p n m flags"
| "handle_entry req (ReqSymlink p n target) = fuse_symlink req p n target"
| "handle_entry req (ReqLink i p n) = fuse_link req i p n"
| "handle_entry req (ReqRename p n p' n') = fuse_rename req p n p' n'"

fun handle_node :: "(dir_item list \<Rightarrow> dir_item \<Rightarrow> bool) \<Rightarrow> request \<Rightarrow> node_request \<Rightarrow> fuse_reply fs" where
  "handle_node full req (ReqGetattr i) = fuse_getattr req i"
| "handle_node full req (ReqSetattr i m u g len a mt) = fuse_setattr req i m u g len a mt"
| "handle_node full req (ReqOpen i flags) = fuse_open req i flags"
| "handle_node full req ReqOpendir = fuse_opendir"
| "handle_node full req (ReqReaddir i offset) = fuse_readdir full req i offset"
| "handle_node full req ReqReleasedir = fuse_releasedir"
| "handle_node full req (ReqFsyncdir i) = fuse_fsyncdir i"
| "handle_node full req (ReqReadlink i) = fuse_readlink req i"
| "handle_node full req (ReqAccess i wanted) = fuse_access req i wanted"
| "handle_node full req ReqStatfs = fuse_statfs"

fun handle_handle :: "request \<Rightarrow> handle_request \<Rightarrow> fuse_reply fs" where
  "handle_handle req (ReqRead fh offset sz) = fuse_read req fh offset sz"
| "handle_handle req (ReqWrite fh offset data) = fuse_write req fh offset data"
| "handle_handle req (ReqFlush fh) = fuse_flush fh"
| "handle_handle req (ReqRelease fh) = fuse_release req fh"
| "handle_handle req (ReqFsync fh) = fuse_fsync fh"

fun handle_xattr :: "request \<Rightarrow> xattr_request \<Rightarrow> fuse_reply fs" where
  "handle_xattr req (ReqSetxattr i n v) = fuse_setxattr req i n v"
| "handle_xattr req (ReqGetxattr i n sz) = fuse_getxattr req i n sz"
| "handle_xattr req (ReqListxattr i sz) = fuse_listxattr req i sz"
| "handle_xattr req (ReqRemovexattr i n) = fuse_removexattr req i n"

fun handle :: "(dir_item list \<Rightarrow> dir_item \<Rightarrow> bool) \<Rightarrow> request \<Rightarrow> fuse_request \<Rightarrow> fuse_reply fs" where
  "handle full req (ReqEntry r) = handle_entry req r"
| "handle full req (ReqNode r) = handle_node full req r"
| "handle full req (ReqHandle r) = handle_handle req r"
| "handle full req (ReqXattr r) = handle_xattr req r"

text \<open>The bounds: offsets that fit, and a descriptor counter that has not run out.\<close>

fun handle_ok :: "handle_request \<Rightarrow> bool" where
  "handle_ok (ReqRead fh offset sz) \<longleftrightarrow> offset < 2 ^ 63"
| "handle_ok (ReqWrite fh offset data) \<longleftrightarrow> offset + int (length data) < 2 ^ 63 \<and> length data < 2 ^ 63"
| "handle_ok _ \<longleftrightarrow> True"

fun request_ok :: "filesystem \<Rightarrow> fuse_request \<Rightarrow> bool" where
  "request_ok s (ReqHandle r) \<longleftrightarrow> handle_ok r"
| "request_ok s _ \<longleftrightarrow> \<not> fdtable_full (fs_fdtable s)"

section \<open>Times\<close>

text \<open>A time at or after the epoch is reported to the kernel to the nanosecond.\<close>

theorem attr_times_exact:
  assumes "0 \<le> st_atime_ns st" and "0 \<le> st_mtime_ns st" and "0 \<le> st_ctime_ns st"
  shows "fa_atime (stat_to_attr st) = st_atime_ns st \<and> fa_mtime (stat_to_attr st) = st_mtime_ns st
    \<and> fa_ctime (stat_to_attr st) = st_ctime_ns st"
proof -
  have "to_ts ns = ns" if "0 \<le> ns" for ns
  proof (cases "ns = 0")
    case False
    then have "sgn ns = 1" and "0 \<le> ns div 1000000000" using that by (simp_all add: sgn_if pos_imp_zdiv_nonneg_iff)
    then show ?thesis using that by (simp add: to_ts_def Let_def max_def)
  qed (simp add: to_ts_def)
  then show ?thesis using assms by (simp add: stat_to_attr_def)
qed

definition demo_stat :: stat where
  "demo_stat = stat_of_row (node_row 1 (root_cols 0 0 1700000000000000001))"

theorem attr_times_exact_witness: "fa_mtime (stat_to_attr demo_stat) = 1700000000000000001"
  using attr_times_exact[of demo_stat] by (simp add: demo_stat_def stat_of_row_def node_row_def root_cols_def)

text \<open>A time before the epoch becomes one after it: a nanosecond before is 0.999999999 seconds after.\<close>

lemma negative_times_wrong: "to_ts (- 1) = 999999999"
  by (simp add: to_ts_def)

end
