(* ===== verification/Fs_Requests.thy ===== *)
theory Fs_Requests
  imports Fs_Adapter
begin

text \<open>
  What a request of the kernel does.  Every handler replies, all it does to the filesystem are transitions that the
  user who sent the request can make by calls, and the caller of the mount is restored.  The locale \<open>sender_contract\<close>
  shows this together with any relation between the states before and after that single transitions satisfy; it is
  interpreted for the permissions of the sender.
\<close>

section \<open>Computations as transitions\<close>

abbreviation effects :: "filesystem \<Rightarrow> filesystem \<Rightarrow> bool" where
  "effects \<equiv> call_effect\<^sup>*\<^sup>*"

definition same_caller :: "filesystem \<Rightarrow> filesystem \<Rightarrow> bool" where
  "same_caller s s' \<longleftrightarrow> fs_caller_uid s' = fs_caller_uid s \<and> fs_caller_gid s' = fs_caller_gid s"

lemma call_keeps_caller: "call_effect s s' \<Longrightarrow> same_caller s s'"
  by (induction rule: call_effect.induct) (auto simp: becomes_def same_env_def same_caller_def)

lemma effects_caller: "effects s s' \<Longrightarrow> same_caller s s'"
  by (induction rule: rtranclp_induct) (auto simp: same_caller_def dest!: call_keeps_caller)

lemma effects_ok: "effects s s' \<Longrightarrow> fs_ok s \<Longrightarrow> fs_ok s'"
  by (induction rule: rtranclp_induct) (auto intro: call_effect_ok)

lemma effects_quiet: "fs_quiet s s' \<Longrightarrow> effects s s'"
  by (rule r_into_rtranclp[of call_effect]) (rule call_effect_quiet)

text \<open>\<open>acts R m s\<close>: \<open>m\<close> does not panic, does transitions of the caller, and \<open>R\<close> holds between the states.\<close>

definition acts :: "(filesystem \<Rightarrow> filesystem \<Rightarrow> bool) \<Rightarrow> 'a fs \<Rightarrow> filesystem \<Rightarrow> bool" where
  "acts R m s \<longleftrightarrow> (fs_ok s \<longrightarrow> wp m (\<lambda>_ s'. effects s s' \<and> R s s') (\<lambda>e s'. (\<exists>x. e = Fail x) \<and> effects s s' \<and> R s s') s)"

lemma acts_bind:
  assumes "acts R m s" and "\<And>x s'. R s s' \<Longrightarrow> acts R' (f x) s'"
    and "\<And>s1. fs_ok s \<Longrightarrow> effects s s1 \<Longrightarrow> R s s1 \<Longrightarrow> R'' s s1"
    and "\<And>s1 s2. fs_ok s \<Longrightarrow> effects s s1 \<Longrightarrow> R s s1 \<Longrightarrow> R' s1 s2 \<Longrightarrow> R'' s s2"
  shows "acts R'' (bindE m f) s"
  unfolding acts_def wp_bindE
proof
  assume ok: "fs_ok s"
  from assms(1)[unfolded acts_def, rule_format, OF this]
  show "wp m (\<lambda>x. wp (f x) (\<lambda>_ s'. effects s s' \<and> R'' s s') (\<lambda>e s'. (\<exists>x. e = Fail x) \<and> effects s s' \<and> R'' s s'))
      (\<lambda>e s'. (\<exists>x. e = Fail x) \<and> effects s s' \<and> R'' s s') s"
  proof (rule wp_mono)
    fix x s' assume s': "effects s s' \<and> R s s'"
    then have "fs_ok s'" using effects_ok ok by blast
    with assms(2)[of s' x] s' show "wp (f x) (\<lambda>_ s'. effects s s' \<and> R'' s s') (\<lambda>e s'. (\<exists>x. e = Fail x) \<and> effects s s' \<and> R'' s s') s'"
      unfolding acts_def by (auto elim!: wp_mono intro: rtranclp_trans[of call_effect] assms(4)[OF ok])
  qed (use assms(3)[OF ok] in auto)
qed

lemma acts_call:
  assumes "fs_inv s \<Longrightarrow> wp m (\<lambda>_ s'. call_effect s s') (\<lambda>e s'. (\<exists>x. e = Fail x) \<and> call_effect s s') s"
    and "\<And>s'. fs_ok s \<Longrightarrow> call_effect s s' \<Longrightarrow> R s s'"
  shows "acts R m s"
  unfolding acts_def
proof
  assume ok: "fs_ok s"
  from assms(1)[OF ok_simps(1)[OF ok]]
  show "wp m (\<lambda>_ s'. effects s s' \<and> R s s') (\<lambda>e s'. (\<exists>x. e = Fail x) \<and> effects s s' \<and> R s s') s"
    by (rule wp_mono) (use assms(2)[OF ok] in auto)
qed

lemma acts_also:
  assumes "acts R m s" and "fs_ok s \<Longrightarrow> wp m (\<lambda>_. R' s) (\<lambda>_. R' s) s"
  shows "acts (\<lambda>s s'. R s s' \<and> R' s s') m s"
  unfolding acts_def
proof
  assume ok: "fs_ok s"
  from wp_conj[OF assms(1)[unfolded acts_def, rule_format, OF ok] assms(2)[OF ok]]
  show "wp m (\<lambda>_ s'. effects s s' \<and> R s s' \<and> R' s s') (\<lambda>e s'. (\<exists>x. e = Fail x) \<and> effects s s' \<and> R s s' \<and> R' s s') s"
    by (rule wp_mono) auto
qed

lemma acts_mono: "acts R m s \<Longrightarrow> (\<And>s'. R s s' \<Longrightarrow> R' s s') \<Longrightarrow> acts R' m s"
  unfolding acts_def by (auto elim!: wp_mono)

lemma acts_ok: "acts R m s \<Longrightarrow> acts R (ok m) s"
  unfolding acts_def ok_def wp_def by (auto split: prod.splits sum.splits exn.splits)

text \<open>Computations that leave all but the counters alone.\<close>

lemma acts_ret: "acts fs_quiet (ret x) s"
  by (simp add: acts_def wp_eqs quiet_defs)

lemma acts_fail: "acts fs_quiet (fail e) s"
  by (simp add: acts_def wp_eqs quiet_defs)

lemma acts_of_result: "acts fs_quiet (of_result r) s"
  by (simp add: acts_def wp_eqs quiet_defs split: sum.split)

lemma acts_quiet: "(fs_inv s \<Longrightarrow> wp m (\<lambda>_. fs_quiet s) (\<lambda>e s'. (\<exists>x. e = Fail x) \<and> fs_quiet s s') s) \<Longrightarrow> acts fs_quiet m s"
  unfolding acts_def by (auto simp: fs_ok_def elim!: wp_mono intro: effects_quiet)

lemma quiet_trans: "fs_quiet s s1 \<Longrightarrow> fs_quiet s1 s2 \<Longrightarrow> fs_quiet s s2"
  by (simp add: quiet_defs)

lemma quiet_bind: "acts fs_quiet m s \<Longrightarrow> (\<And>x s'. acts fs_quiet (f x) s') \<Longrightarrow> acts fs_quiet (bindE m f) s"
  by (rule acts_bind[where R = fs_quiet and R' = fs_quiet]) (auto intro: quiet_trans)

lemma acts_queries:
  "acts fs_quiet (stat_at path) s" "acts fs_quiet (fs_readdir path) s" "acts fs_quiet (fs_getxattr path n) s"
  "acts fs_quiet (fs_listxattr path) s" "acts fs_quiet (db_op (fs_readlink path)) s" "acts fs_quiet now_ns s"
  "acts fs_quiet (fs_fsync fd) s" "acts fs_quiet (fs_fsyncdir path) s" "acts fs_quiet (fs_flush fd) s"
  by (auto simp: stat_at_def wp_eqs quiet_defs inv_tree
      intro!: acts_quiet wp_fs_stat wp_fs_readdir wp_fs_getxattr wp_fs_listxattr wp_fs_readlink wp_fs_fsync)

lemma acts_dir_items: "acts fs_quiet (dir_items i path) s"
  unfolding dir_items_def dot_dot_def
  by (intro quiet_bind acts_queries) (auto intro!: quiet_bind acts_queries acts_ret acts_ok split: option.split)

section \<open>The contract of a handler\<close>

lemma unat_offset: "n < 2 ^ 63 \<Longrightarrow> int (unat (word_of_int (max n 0) :: u64)) = max n 0"
  by (simp add: unsigned_of_int take_bit_int_eq_self)

lemma offset_below:
  assumes "max n 0 + int k < 2 ^ 63" shows "unat (word_of_int (max n 0) :: u64) + k < 2 ^ 63"
proof -
  have "int (unat (word_of_int (max n 0) :: u64) + k) < int (2 ^ 63)"
    using unat_offset[of n] assms by simp
  then show ?thesis by (simp only: of_nat_less_iff)
qed

abbreviation as_sender :: "request \<Rightarrow> filesystem \<Rightarrow> filesystem" where
  "as_sender req s \<equiv> s\<lparr>fs_caller_uid := rq_uid req, fs_caller_gid := rq_gid req\<rparr>"

abbreviation setattr_steps :: "string \<Rightarrow> u32 option \<Rightarrow> u32 option \<Rightarrow> u32 option \<Rightarrow> u64 option \<Rightarrow> time_or_now option \<Rightarrow>
    time_or_now option \<Rightarrow> stat fs" where
  "setattr_steps path mode uid gid len atime mtime \<equiv>
     bindE (set_mode path mode) (\<lambda>_. bindE (set_owner path uid gid) (\<lambda>_. bindE (set_times path atime mtime) (\<lambda>_.
     bindE (set_length path len) (\<lambda>_. stat_at path))))"

text \<open>The sender's transitions, and then the caller of before.\<close>

definition served :: "(filesystem \<Rightarrow> filesystem \<Rightarrow> bool) \<Rightarrow> request \<Rightarrow> filesystem \<Rightarrow> filesystem \<Rightarrow> bool" where
  "served R req s s' \<longleftrightarrow> (\<exists>s1. effects (as_sender req s) s1 \<and> R (as_sender req s) s1
     \<and> s' = s1\<lparr>fs_caller_uid := fs_caller_uid s, fs_caller_gid := fs_caller_gid s\<rparr>)"

definition replies :: "(filesystem \<Rightarrow> filesystem \<Rightarrow> bool) \<Rightarrow> request \<Rightarrow> fuse_reply fs \<Rightarrow> filesystem \<Rightarrow> bool" where
  "replies R req m s \<longleftrightarrow> (fs_ok s \<longrightarrow> wp m (\<lambda>_. served R req s) (\<lambda>_ _. False) s)"

lemma fs_ok_sender [simp]: "fs_ok (as_sender req s) = fs_ok s"
  by (simp add: fs_ok_def fs_inv_def)

lemma replies_user:
  assumes "\<And>s'. fs_fdtable s' = fs_fdtable s \<Longrightarrow> acts R m s'"
  shows "replies R req (user req (answer f m)) s"
  unfolding replies_def user_def wp_as_user
proof
  assume "fs_ok s"
  then have "wp m (\<lambda>_ s'. effects (as_sender req s) s' \<and> R (as_sender req s) s')
      (\<lambda>e s'. (\<exists>x. e = Fail x) \<and> effects (as_sender req s) s' \<and> R (as_sender req s) s') (as_sender req s)"
    using assms[of "as_sender req s"] by (simp add: acts_def)
  then show "wp (answer f m) (\<lambda>_ s'. served R req s (s'\<lparr>fs_caller_uid := fs_caller_uid s, fs_caller_gid := fs_caller_gid s\<rparr>))
      (\<lambda>_ _. False) (as_sender req s)"
    unfolding answer_def wp_def served_def by (auto split: prod.splits sum.splits exn.splits)
qed

text \<open>
  A relation that every call of the sender, preceded and followed by computations that change nothing, satisfies,
  and the steps of \<open>setattr\<close>, the only handler that makes more than one such call.
\<close>

locale sender_contract =
  fixes R :: "filesystem \<Rightarrow> filesystem \<Rightarrow> bool"
  assumes call: "fs_ok s \<Longrightarrow> call_effect s s' \<Longrightarrow> R s s'"
    and after: "R s s1 \<Longrightarrow> fs_quiet s1 s' \<Longrightarrow> R s s'"
    and before: "fs_quiet s s1 \<Longrightarrow> R s1 s' \<Longrightarrow> R s s'"
    and setattr: "\<not> fdtable_full (fs_fdtable s) \<Longrightarrow> acts R (setattr_steps path mode uid gid len atime mtime) s"
begin

lemma of_quiet: "acts fs_quiet m s \<Longrightarrow> acts R m s"
  unfolding acts_def by (auto elim!: wp_mono intro: call call_effect_quiet)

lemma then_quiet: "acts R m s \<Longrightarrow> (\<And>x s'. acts fs_quiet (f x) s') \<Longrightarrow> acts R (bindE m f) s"
  by (rule acts_bind[where R = R and R' = fs_quiet]) (auto intro: after)

lemma names:
  "acts R (fs_mkdir path mode) s" "acts R (fs_rmdir path) s" "acts R (fs_unlink path) s" "acts R (fs_symlink x path) s"
  "acts R (fs_link target path) s" "acts R (fs_rename src dst) s"
  using run_name_effect[of s "CallMkdir path mode"] run_name_effect[of s "CallRmdir path"] run_name_effect[of s "CallUnlink path"]
    run_name_effect[of s "CallSymlink x path"] run_name_effect[of s "CallLink target path"] run_name_effect[of s "CallRename src dst"]
  by (auto simp: wp_reply intro!: acts_call call)

lemma attributes: "acts R (fs_setxattr path n v fl) s" "acts R (fs_removexattr path n) s"
  using run_attr_effect[of "CallSetxattr path n v fl" s] run_attr_effect[of "CallRemovexattr path n" s]
  by (auto simp: wp_reply intro!: acts_call call)

lemma files:
  "\<not> fdtable_full (fs_fdtable s) \<Longrightarrow> acts R (fs_create path flags mode) s"
  "\<not> fdtable_full (fs_fdtable s) \<Longrightarrow> acts R (fs_open path flags) s"
  "unat offset + length data < 2 ^ 63 \<Longrightarrow> acts R (fs_write_fd fd offset data) s"
  "unat offset + unat n < 2 ^ 64 \<Longrightarrow> acts R (fs_read_fd fd offset n) s" "acts R (fs_close_fd fd) s"
  using run_file_effect[of s "CallCreate path flags mode"] run_file_effect[of s "CallOpen path flags"]
    run_file_effect[of s "CallWrite fd offset data"] run_file_effect[of s "CallRead fd offset n"] run_file_effect[of s "CallClose fd"]
  by (auto simp: wp_reply intro!: acts_call call)

lemma served_quiet:
  assumes "fs_ok s" and "fs_quiet s s'"
  shows "served R req s s'"
proof -
  have "fs_quiet (as_sender req s) (as_sender req s')" using assms(2) by (simp add: quiet_defs)
  then have "effects (as_sender req s) (as_sender req s') \<and> R (as_sender req s) (as_sender req s')"
    using assms(1) by (auto intro: effects_quiet call call_effect_quiet)
  then show ?thesis using assms(2) unfolding served_def
    by (intro exI[of _ "as_sender req s'"]) (simp add: quiet_defs)
qed

lemma served_after:
  assumes "fs_quiet s s1" and "served R req s1 s'"
  shows "served R req s s'"
proof -
  obtain s2 where s2: "effects (as_sender req s1) s2" "R (as_sender req s1) s2"
    "s' = s2\<lparr>fs_caller_uid := fs_caller_uid s1, fs_caller_gid := fs_caller_gid s1\<rparr>"
    using assms(2) by (auto simp: served_def)
  have q: "fs_quiet (as_sender req s) (as_sender req s1)" using assms(1) by (simp add: quiet_defs)
  have "effects (as_sender req s) s2" using effects_quiet[OF q] s2(1) by simp
  then show ?thesis using s2(3) before[OF q s2(2)] assms(1) by (auto simp: served_def quiet_defs)
qed

lemma replies_ret: "replies R req (ret x) s"
  by (simp add: replies_def wp_eqs served_quiet quiet_defs)

lemma replies_sync: "replies R req (answer f (fs_fsync fd)) s" "replies R req (answer f (fs_fsyncdir path)) s"
  "replies R req (answer f (fs_flush fd)) s"
proof -
  have "replies R req (answer f m) s"
    if "fs_ok s \<Longrightarrow> wp m (\<lambda>_. fs_quiet s) (\<lambda>e s'. (\<exists>x. e = Fail x) \<and> fs_quiet s s') s" for m
    using that served_quiet unfolding replies_def answer_def wp_def
    by (auto split: prod.splits sum.splits exn.splits)
  then show "replies R req (answer f (fs_fsync fd)) s" "replies R req (answer f (fs_fsyncdir path)) s"
    "replies R req (answer f (fs_flush fd)) s" by (auto intro!: wp_fs_fsync)
qed

lemma replies_with_path:
  assumes "\<And>path s'. fs_fdtable s' = fs_fdtable s \<Longrightarrow> replies R req (k path) s'"
  shows "replies R req (with_path i k) s"
  unfolding replies_def with_path_def wp_bindE wp_db_op
proof
  assume ok: "fs_ok s"
  show "wp (path_of_inode i) (\<lambda>x c. wp (case x of None \<Rightarrow> ret (RepError ENOENT) | Some path \<Rightarrow> k path)
      (\<lambda>_. served R req s) (\<lambda>_ _. False) (s\<lparr>fs_conn := c\<rparr>)) (\<lambda>e c. False) (fs_conn s)"
  proof (rule wp_path_of_inode[OF ok_simps(3)[OF ok]])
    fix t
    let ?s = "s\<lparr>fs_conn := (fs_conn s)\<lparr>c_tick := t\<rparr>\<rparr>"
    have ok': "fs_ok ?s" using ok by (simp add: fs_ok_def fs_inv_def)
    have quiet: "fs_quiet s ?s" by (simp add: quiet_defs)
    show "wp (case None of None \<Rightarrow> ret (RepError ENOENT) | Some path \<Rightarrow> k path) (\<lambda>_. served R req s) (\<lambda>_ _. False) ?s"
      using served_quiet[OF ok quiet] by (simp add: wp_eqs)
    fix cs
    have "wp (k (path_string cs)) (\<lambda>_. served R req ?s) (\<lambda>_ _. False) ?s"
      using assms[of ?s "path_string cs"] ok' by (simp add: replies_def)
    then show "wp (case Some (path_string cs) of None \<Rightarrow> ret (RepError ENOENT) | Some path \<Rightarrow> k path)
        (\<lambda>_. served R req s) (\<lambda>_ _. False) ?s"
      unfolding option.case by (rule wp_mono) (auto intro: served_after[OF quiet])
  qed
qed

lemma replies_with_name: "(\<And>n. replies R req (k n) s) \<Longrightarrow> replies R req (with_name name k) s"
  by (simp add: with_name_def replies_ret split: option.split)

lemma replies_with_child:
  "(\<And>path s'. fs_fdtable s' = fs_fdtable s \<Longrightarrow> replies R req (k path) s') \<Longrightarrow> replies R req (with_child p name k) s"
  unfolding with_child_def by (intro replies_with_name replies_with_path)

lemmas rules = replies_with_child replies_with_path replies_with_name replies_user replies_sync replies_ret
lemmas calls = names attributes files then_quiet of_quiet quiet_bind acts_queries acts_of_result acts_ret acts_dir_items setattr

lemma replies_entry: "\<not> fdtable_full (fs_fdtable s) \<Longrightarrow> replies R req (handle_entry req r) s"
  by (cases r)
    (simp_all add: fuse_lookup_def fuse_mkdir_def fuse_rmdir_def fuse_unlink_def fuse_create_def fuse_symlink_def fuse_link_def
      fuse_rename_def rules calls)

lemma replies_node: "\<not> fdtable_full (fs_fdtable s) \<Longrightarrow> replies R req (handle_node full req r) s"
  by (cases r)
    (simp_all add: fuse_getattr_def fuse_setattr_def fuse_open_def fuse_opendir_def fuse_readdir_def
      fuse_releasedir_def fuse_fsyncdir_def fuse_readlink_def fuse_access_def fuse_statfs_def rules calls)

lemma replies_xattr: "replies R req (handle_xattr req r) s"
  by (cases r)
    (simp_all add: fuse_setxattr_def fuse_getxattr_def fuse_listxattr_def fuse_removexattr_def rules calls)

lemma replies_handle: "handle_ok r \<Longrightarrow> replies R req (handle_handle req r) s"
proof (cases r)
  case (ReqRead fh offset sz)
  assume "handle_ok r"
  then have below: "unat (word_of_int (max offset 0) :: u64) < 2 ^ 63"
    using ReqRead offset_below[of offset 0] by simp
  have "unat (ucast sz :: u64) < 2 ^ 32" using unsigned_less[of sz, where 'a = nat] by (simp add: unsigned_ucast_eq take_bit_nat_eq_self)
  then have "unat (word_of_int (max offset 0) :: u64) + unat (ucast sz :: u64) < 2 ^ 64"
    by (rule order_less_le_trans[OF add_strict_mono[OF below]]) simp
  then show ?thesis using ReqRead by (simp add: fuse_read_def rules calls)
next
  case (ReqWrite fh offset data)
  assume "handle_ok r"
  then have "unat (word_of_int (max offset 0) :: u64) + length data < 2 ^ 63"
    using ReqWrite by (intro offset_below) auto
  then show ?thesis using ReqWrite by (simp add: fuse_write_def rules calls)
qed (simp_all add: fuse_flush_def fuse_release_def fuse_fsync_def rules calls)

text \<open>Every request within the bounds.\<close>

lemma replies_request: "request_ok s r \<Longrightarrow> replies R req (handle full req r) s"
  by (cases r) (simp_all add: replies_entry replies_node replies_handle replies_xattr)

lemma serves:
  assumes "fs_ok s" and "request_ok s r"
  obtains rep s' where "handle full req r s = (Inr rep, s')" "served R req s s'"
proof -
  have "wp (handle full req r) (\<lambda>_. served R req s) (\<lambda>_ _. False) s"
    using replies_request[OF assms(2)] assms(1) by (simp add: replies_def)
  from wp_returns[OF this] show thesis using that by blast
qed

end

section \<open>The steps of setattr\<close>

abbreviation same_fds :: "filesystem \<Rightarrow> filesystem \<Rightarrow> bool" where
  "same_fds s s' \<equiv> fs_fdtable s' = fs_fdtable s"

text \<open>A relation that composes and that each step satisfies holds for all steps.\<close>

lemma setattr_chain:
  assumes quiet: "\<And>s s'. fs_quiet s s' \<Longrightarrow> T s s'"
    and trans: "\<And>s s1 s2. fs_ok s \<Longrightarrow> effects s s1 \<Longrightarrow> T s s1 \<Longrightarrow> T s1 s2 \<Longrightarrow> T s s2"
    and attrs: "\<And>path m s. acts T (fs_chmod path m) s" "\<And>path u g s. acts T (fs_chown path u g) s"
      "\<And>path a mt s. acts T (fs_utimes path a mt) s"
    and files: "\<And>path flags s. \<not> fdtable_full (fs_fdtable s) \<Longrightarrow> acts T (fs_open path flags) s" "\<And>fd s. acts T (fs_close_fd fd) s"
    and room: "\<not> fdtable_full (fs_fdtable s)"
  shows "acts T (setattr_steps path mode uid gid len atime mtime) s"
proof -
  let ?F = "\<lambda>s s'. T s s' \<and> same_fds s s'"
  have seq: "acts ?F (bindE m f) s" if "acts ?F m s" and "\<And>x s'. acts ?F (f x) s'" for m :: "'a fs" and f :: "'a \<Rightarrow> 'b fs" and s
    by (rule acts_bind[OF that]) (auto intro: trans)
  have then_T: "acts T (bindE m f) s" if "acts ?F m s" and "\<And>x s'. same_fds s s' \<Longrightarrow> acts T (f x) s'" for m :: "'a fs" and f :: "'a \<Rightarrow> 'b fs" and s
    by (rule acts_bind[OF that(1), where R' = T]) (auto intro: trans that(2))
  have seqT: "acts T (bindE m f) s" if "acts T m s" and "\<And>x s'. acts T (f x) s'" for m :: "'a fs" and f :: "'a \<Rightarrow> 'b fs" and s
    by (rule acts_bind[OF that]) (auto intro: trans)
  have q: "acts fs_quiet m s \<Longrightarrow> acts ?F m s" for m :: "'a fs" and s
    by (erule acts_mono) (simp add: quiet, simp add: quiet_defs)
  have qT: "acts fs_quiet m s \<Longrightarrow> acts T m s" for m :: "'a fs" and s
    by (erule acts_mono) (simp add: quiet)
  have chmod: "acts ?F (fs_chmod path m) s" for path m s
    by (rule acts_also[OF attrs(1)]) (auto simp: node_updated_def outcome_defs intro!: wp_fs_chmod)
  have chown: "acts ?F (fs_chown path u g) s" for path u g s
    by (rule acts_also[OF attrs(2)]) (auto simp: node_updated_def outcome_defs intro!: wp_fs_chown)
  have utimes: "acts ?F (fs_utimes path a mt) s" for path a mt s
    by (rule acts_also[OF attrs(3)]) (auto simp: node_updated_def outcome_defs intro!: wp_fs_utimes)
  have "acts ?F (to_ns t) s" for t s by (cases t) (simp_all add: q acts_ret acts_queries)
  then have times: "acts ?F (to_ns_opt t) s" for t s
    by (cases t) (auto simp: to_ns_opt_def q acts_ret intro!: seq)
  have mode: "acts ?F (set_mode path mode) s" and owner: "acts ?F (set_owner path uid gid) s"
    and set_times: "acts ?F (set_times path atime mtime) s" for s
    by (auto simp: set_mode_def set_owner_def set_times_def chmod chown utimes times q acts_ret intro!: seq split: option.split)
  have length: "acts T (set_length path len) s" if "\<not> fdtable_full (fs_fdtable s)" for s
    using that by (auto simp: set_length_def qT acts_ret acts_fail intro!: seqT files acts_ok split: option.split)
  show ?thesis
  proof (rule then_T[OF mode], rule then_T[OF owner], rule then_T[OF set_times])
    fix s1 s2 s3 assume "same_fds s s1" "same_fds s1 s2" "same_fds s2 s3"
    then show "acts T (bindE (set_length path len) (\<lambda>_. stat_at path)) s3"
      using room by (intro seqT length qT acts_queries) simp
  qed
qed

section \<open>Interpretations\<close>

lemma attr_calls:
  assumes "\<And>s s'. fs_ok s \<Longrightarrow> call_effect s s' \<Longrightarrow> R s s'"
  shows "acts R (fs_chmod path m) s" "acts R (fs_chown path u g) s" "acts R (fs_utimes path a mt) s"
    "\<not> fdtable_full (fs_fdtable s) \<Longrightarrow> acts R (fs_open path flags) s" "acts R (fs_close_fd fd) s"
  using run_attr_effect[of "CallChmod path m" s] run_attr_effect[of "CallChown path u g" s] run_attr_effect[of "CallUtimes path a mt" s]
    run_file_effect[of s "CallOpen path flags"] run_file_effect[of s "CallClose fd"]
  by (auto simp: wp_reply intro!: acts_call assms)

interpretation plain: sender_contract "\<lambda>_ _. True"
  by unfold_locales (auto intro!: setattr_chain attr_calls)

text \<open>Entries of directories change only where the sender may write.\<close>

definition entries_guarded :: "filesystem \<Rightarrow> filesystem \<Rightarrow> bool" where
  "entries_guarded s s' \<longleftrightarrow> (\<forall>p n. entry_of (fs_db s') p n \<noteq> entry_of (fs_db s) p n \<longrightarrow> may_write_dir s p)"

abbreviation same_entries :: "filesystem \<Rightarrow> filesystem \<Rightarrow> bool" where
  "same_entries s s' \<equiv> entry_of (fs_db s') = entry_of (fs_db s)"

lemma attr_calls_keep_entries:
  "acts same_entries (fs_chmod path m) s" "acts same_entries (fs_chown path u g) s" "acts same_entries (fs_utimes path a mt) s"
  "\<not> fdtable_full (fs_fdtable s) \<Longrightarrow> acts same_entries (fs_open path flags) s" "acts same_entries (fs_close_fd fd) s"
proof -
  have *: "acts same_entries m s" if "acts (\<lambda>_ _. True) m s" and "fs_ok s \<Longrightarrow> wp m (\<lambda>_. same_entries s) (\<lambda>_. same_entries s) s" for m :: "'a fs"
    using acts_also[where R' = same_entries, OF that(1)] that(2) by simp
  show "acts same_entries (fs_chmod path m) s"
    by (rule *) (auto simp: node_updated_def outcome_defs intro!: attr_calls wp_fs_chmod)
  show "acts same_entries (fs_chown path u g) s"
    by (rule *) (auto simp: node_updated_def outcome_defs intro!: attr_calls wp_fs_chown)
  show "acts same_entries (fs_utimes path a mt) s"
    by (rule *) (auto simp: node_updated_def outcome_defs intro!: attr_calls wp_fs_utimes)
  show "acts same_entries (fs_open path flags) s" if "\<not> fdtable_full (fs_fdtable s)"
    by (rule *) (use that in \<open>auto simp: fs_quiet_def becomes_def fs_ok_def entries_of_blob_changes(2) intro!: attr_calls wp_fs_open split: if_splits\<close>)
  have gone: "entry_of (fs_db s) i n = None" if "fs_ok s" "fdtable_get fd (fs_fdtable s) = Inr x" "\<not> referenced (fs_db s) (fe_inode x)" "i = fe_inode x"
    for i n x
  proof -
    note ok = ok_simps[OF that(1)]
    have "i \<noteq> ROOT_INODE" using that(2,4) ok(5) by (auto simp: fds_ok_def)
    then show ?thesis using unreferenced_no_children(1)[OF ok(3,4)] that(3,4) by simp
  qed
  show "acts same_entries (fs_close_fd fd) s"
    by (rule *) (auto simp: fs_quiet_def becomes_def fun_eq_iff gone intro!: attr_calls wp_fs_close_fd split: if_splits)
qed

lemma may_write_quiet: "fs_quiet s s1 \<Longrightarrow> may_write_dir s1 p = may_write_dir s p"
  by (simp add: may_write_dir_def grants_def quiet_defs)

interpretation names: sender_contract entries_guarded
proof
  fix s s' :: filesystem
  show "fs_ok s \<Longrightarrow> call_effect s s' \<Longrightarrow> entries_guarded s s'"
    using entries_call by (auto simp: entries_guarded_def)
  show "entries_guarded s s1 \<Longrightarrow> fs_quiet s1 s' \<Longrightarrow> entries_guarded s s'" for s1
    by (simp add: entries_guarded_def fs_quiet_def)
  show "fs_quiet s s1 \<Longrightarrow> entries_guarded s1 s' \<Longrightarrow> entries_guarded s s'" for s1
    using may_write_quiet by (auto simp: entries_guarded_def fs_quiet_def)
  show "acts entries_guarded (setattr_steps path mode uid gid len atime mtime) s" if "\<not> fdtable_full (fs_fdtable s)"
    for path mode uid gid len atime mtime
    by (rule acts_mono[OF setattr_chain[OF _ _ attr_calls_keep_entries that]]) (auto simp: entries_guarded_def fs_quiet_def)
qed

text \<open>Owners and modes change only by root and the owner.\<close>

definition owners_guarded :: "filesystem \<Rightarrow> filesystem \<Rightarrow> bool" where
  "owners_guarded s s' \<longleftrightarrow> (\<forall>i. node_of (fs_db s) i \<noteq> None \<longrightarrow> node_of (fs_db s') i \<noteq> None
     \<longrightarrow> owner_of (fs_db s') i \<noteq> owner_of (fs_db s) i \<longrightarrow> may_change_owner s i)"

abbreviation no_new_nodes :: "filesystem \<Rightarrow> filesystem \<Rightarrow> bool" where
  "no_new_nodes s s' \<equiv> \<forall>i. node_of (fs_db s) i = None \<longrightarrow> node_of (fs_db s') i = None"

lemma owners_guarded_call: "fs_ok s \<Longrightarrow> call_effect s s' \<Longrightarrow> owners_guarded s s'"
  unfolding owners_guarded_def
proof (intro allI impI)
  fix i assume "fs_ok s" "call_effect s s'" "node_of (fs_db s) i \<noteq> None" "node_of (fs_db s') i \<noteq> None"
    "owner_of (fs_db s') i \<noteq> owner_of (fs_db s) i"
  moreover have "owner_of (fs_db s') i \<noteq> None" using calculation(4) by (simp add: owner_of_def)
  ultimately show "may_change_owner s i" by (intro owners_call[of s s'])
qed

lemma effects_readonly: "effects s s' \<Longrightarrow> fs_readonly s' = fs_readonly s"
  by (induction rule: rtranclp_induct) (auto dest: call_keeps_env)

lemma owners_guarded_trans:
  assumes "effects s s1" and "owners_guarded s s1" and "owners_guarded s1 s2" and "no_new_nodes s1 s2"
  shows "owners_guarded s s2"
  unfolding owners_guarded_def
proof (intro allI impI)
  fix i assume i: "node_of (fs_db s) i \<noteq> None" "node_of (fs_db s2) i \<noteq> None" "owner_of (fs_db s2) i \<noteq> owner_of (fs_db s) i"
  have i1: "node_of (fs_db s1) i \<noteq> None" 
  proof
    assume "node_of (fs_db s1) i = None"
    with assms(4) i(2) show False by simp
  qed
  show "may_change_owner s i"
  proof (cases "owner_of (fs_db s1) i = owner_of (fs_db s) i")
    case True
    then have "may_change_owner s1 i" using assms(3) i i1 by (simp add: owners_guarded_def)
    moreover have "map_option n_uid (node_of (fs_db s1) i) = map_option n_uid (node_of (fs_db s) i)"
      using True by (cases "node_of (fs_db s1) i"; cases "node_of (fs_db s) i") (simp_all add: owner_of_def)
    ultimately show ?thesis using effects_caller[OF assms(1)] effects_readonly[OF assms(1)]
      by (simp add: may_change_owner_def same_caller_def)
  next
    case False
    then show ?thesis using assms(2) i(1) i1 by (simp add: owners_guarded_def)
  qed
qed

abbreviation owner_steps :: "filesystem \<Rightarrow> filesystem \<Rightarrow> bool" where
  "owner_steps s s' \<equiv> owners_guarded s s' \<and> no_new_nodes s s'"

lemma trunc_keeps_nodes: "trunc_db i cs now d d' \<Longrightarrow> node_of d j = None \<Longrightarrow> node_of d' j = None"
  using blobs_only_same by (auto simp: trunc_db_def range_truncated_def)

lemma attr_calls_guard_owners:
  "acts owner_steps (fs_chmod path m) s" "acts owner_steps (fs_chown path u g) s" "acts owner_steps (fs_utimes path a mt) s"
  "\<not> fdtable_full (fs_fdtable s) \<Longrightarrow> acts owner_steps (fs_open path flags) s" "acts owner_steps (fs_close_fd fd) s"
proof -
  note calls = attr_calls[of owners_guarded, OF owners_guarded_call]
  show "acts owner_steps (fs_chmod path m) s"
    by (rule acts_also[OF calls(1)]) (auto simp: node_updated_def outcome_defs intro!: wp_fs_chmod)
  show "acts owner_steps (fs_chown path u g) s"
    by (rule acts_also[OF calls(2)]) (auto simp: node_updated_def outcome_defs intro!: wp_fs_chown)
  show "acts owner_steps (fs_utimes path a mt) s"
    by (rule acts_also[OF calls(3)]) (auto simp: node_updated_def outcome_defs intro!: wp_fs_utimes)
  show "acts owner_steps (fs_open path flags) s" if "\<not> fdtable_full (fs_fdtable s)"
    by (rule acts_also[OF calls(4)[OF _ _ that]])
      (auto simp: fs_quiet_def becomes_def fs_ok_def trunc_keeps_nodes intro!: wp_fs_open split: if_splits)
  show "acts owner_steps (fs_close_fd fd) s"
    by (rule acts_also[OF calls(5)]) (auto simp: fs_quiet_def becomes_def intro!: wp_fs_close_fd split: if_splits)
qed

lemma may_change_quiet: "fs_quiet s s1 \<Longrightarrow> may_change_owner s1 i = may_change_owner s i"
  by (simp add: may_change_owner_def quiet_defs)

interpretation owners: sender_contract owners_guarded
proof
  fix s s' :: filesystem
  show "fs_ok s \<Longrightarrow> call_effect s s' \<Longrightarrow> owners_guarded s s'" by (rule owners_guarded_call)
  show "owners_guarded s s1 \<Longrightarrow> fs_quiet s1 s' \<Longrightarrow> owners_guarded s s'" for s1
    by (simp add: owners_guarded_def fs_quiet_def)
  show "fs_quiet s s1 \<Longrightarrow> owners_guarded s1 s' \<Longrightarrow> owners_guarded s s'" for s1
    using may_change_quiet by (auto simp: owners_guarded_def fs_quiet_def)
  show "acts owners_guarded (setattr_steps path mode uid gid len atime mtime) s" if "\<not> fdtable_full (fs_fdtable s)"
    for path mode uid gid len atime mtime
    by (rule acts_mono[OF setattr_chain[OF _ _ attr_calls_guard_owners that]])
      (auto simp: owners_guarded_def fs_quiet_def dest: owners_guarded_trans)
qed

section \<open>Properties\<close>

text \<open>
  C25 (Adapter): in a state that satisfies the invariant, every request of the kernel is answered, whatever its
  inodes, names and flags are and whatever the engine does: no handler panics or loops, the invariant
  holds afterwards, and the caller that \<open>as_user\<close> replaced is back.
\<close>

theorem fuse_always_replies:
  assumes "fs_ok s" and "request_ok s r"
  shows "\<exists>rep s'. handle full req r s = (Inr rep, s') \<and> fs_ok s'
    \<and> fs_caller_uid s' = fs_caller_uid s \<and> fs_caller_gid s' = fs_caller_gid s"
proof -
  obtain rep s' where h: "handle full req r s = (Inr rep, s')" and "served (\<lambda>_ _. True) req s s'"
    by (rule plain.serves[OF assms])
  then obtain s1 where s1: "effects (as_sender req s) s1" "s' = s1\<lparr>fs_caller_uid := fs_caller_uid s, fs_caller_gid := fs_caller_gid s\<rparr>"
    by (auto simp: served_def)
  have "fs_ok s1" using effects_ok[OF s1(1)] assms(1) by simp
  then show ?thesis using h s1(2) by (simp add: fs_ok_def fs_inv_def)
qed

lemma demo_room: "\<not> fdtable_full (fs_fdtable file_fs)"
  by (simp add: file_fs_def fdtable_full_def fdtable_open_def fdtable_new_def Let_def)

theorem fuse_always_replies_witness:
  "\<exists>rep s'. handle (\<lambda>_ _. False) \<lparr>rq_uid = 1000, rq_gid = 1000\<rparr> (ReqEntry (ReqMkdir 1 (Some ''d'') 0x1ED)) file_fs = (Inr rep, s')
    \<and> fs_caller_uid s' = 0"
  using fuse_always_replies[OF file_fs_ok(1), of "ReqEntry (ReqMkdir 1 (Some ''d'') 0x1ED)" "\<lambda>_ _. False"
      "\<lparr>rq_uid = 1000, rq_gid = 1000\<rparr>"] demo_room by (auto simp del: handle.simps simp: file_fs_simps)

text \<open>
  C20 (Adapter): a request of the kernel refines the calls of its sender: all that it does to the state is a sequence of
  transitions of the filesystem with the user and the group of the request as the caller, so that what holds of every call holds of
  every request.
\<close>

theorem requests_act_as_sender:
  assumes "fs_ok s" and "request_ok s r" and "handle full req r s = (res, s')"
  shows "\<exists>s1. call_effect\<^sup>*\<^sup>* (s\<lparr>fs_caller_uid := rq_uid req, fs_caller_gid := rq_gid req\<rparr>) s1
    \<and> s' = s1\<lparr>fs_caller_uid := fs_caller_uid s, fs_caller_gid := fs_caller_gid s\<rparr>"
  using plain.serves[OF assms(1,2), of full req] assms(3) by (auto simp: served_def)

theorem requests_act_as_sender_witness:
  "\<exists>res s' s1. handle (\<lambda>_ _. False) \<lparr>rq_uid = 1000, rq_gid = 1000\<rparr> (ReqEntry (ReqUnlink 1 (Some ''f''))) file_fs = (res, s')
    \<and> call_effect\<^sup>*\<^sup>* (file_fs\<lparr>fs_caller_uid := 1000, fs_caller_gid := 1000\<rparr>) s1"
proof -
  obtain res s' where h: "handle (\<lambda>_ _. False) \<lparr>rq_uid = 1000, rq_gid = 1000\<rparr> (ReqEntry (ReqUnlink 1 (Some ''f''))) file_fs = (res, s')"
    by fastforce
  from requests_act_as_sender[OF file_fs_ok(1) _ h] demo_room h show ?thesis by (auto simp del: handle.simps)
qed

text \<open>
  C21 (Adapter): a request of the kernel changes an entry of a directory only if its sender, not the owner of the mount, has write
  and search permission on the directory, and the owner, the group or the mode of a node only if its sender is root or owns the node; on a
  read-only mount it changes neither.
\<close>

theorem requests_need_permission:
  assumes "fs_ok s" and "request_ok s r" and "handle full req r s = (res, s')"
  shows "(\<forall>p n. entry_of (fs_db s') p n \<noteq> entry_of (fs_db s) p n
        \<longrightarrow> may_write_dir (s\<lparr>fs_caller_uid := rq_uid req, fs_caller_gid := rq_gid req\<rparr>) p)
    \<and> (\<forall>i. node_of (fs_db s) i \<noteq> None \<longrightarrow> node_of (fs_db s') i \<noteq> None \<longrightarrow> owner_of (fs_db s') i \<noteq> owner_of (fs_db s) i
        \<longrightarrow> may_change_owner (s\<lparr>fs_caller_uid := rq_uid req, fs_caller_gid := rq_gid req\<rparr>) i)"
proof -
  have "served entries_guarded req s s'" by (rule names.serves[OF assms(1,2), of full req]) (use assms(3) in simp)
  then obtain s1 where "entries_guarded (as_sender req s) s1" "fs_db s1 = fs_db s'" by (auto simp: served_def)
  moreover have "served owners_guarded req s s'" by (rule owners.serves[OF assms(1,2), of full req]) (use assms(3) in simp)
  then obtain s2 where "owners_guarded (as_sender req s) s2" "fs_db s2 = fs_db s'" by (auto simp: served_def)
  ultimately show ?thesis unfolding entries_guarded_def owners_guarded_def by simp
qed

theorem requests_need_permission_witness:
  "\<exists>res s'. handle (\<lambda>_ _. False) \<lparr>rq_uid = 1000, rq_gid = 1000\<rparr> (ReqEntry (ReqUnlink 1 (Some ''f''))) file_fs = (res, s')
    \<and> entry_of (fs_db s') 1 ''f'' = Some 2"
proof -
  obtain res s' where h: "handle (\<lambda>_ _. False) \<lparr>rq_uid = 1000, rq_gid = 1000\<rparr> (ReqEntry (ReqUnlink 1 (Some ''f''))) file_fs = (res, s')"
    by fastforce
  have "\<not> may_write_dir (file_fs\<lparr>fs_caller_uid := 1000, fs_caller_gid := 1000\<rparr>) 1"
    by (simp add: may_write_dir_def grants_def check_access_def file_fs_def file_db_def node_of_def ACCESS_W_def ACCESS_X_def
        fresh_node_def root_cols_def)
  with requests_need_permission[OF file_fs_ok(1) _ h] demo_room
  have "entry_of (fs_db s') 1 ''f'' = entry_of (fs_db file_fs) 1 ''f''" by auto
  with h show ?thesis by (auto simp del: handle.simps simp: file_fs_simps)
qed


end
