(* ===== verification/Fs_Kernel.thy ===== *)
theory Fs_Kernel
  imports Fs_Requests
begin

text \<open>
  What the kernel sees of the filesystem through inode numbers.  The adapter turns a number into a path, and
  the path back into a node: a name that is looked up is the entry of the directory with that number, a directory
  lists its own entries and its real parent, what is written through a handle is read back, and the pages
  that the requests for a directory return make up its listing.
\<close>

section \<open>From numbers to paths and back\<close>

lemma wp_answer: "wp (answer f m) Q E s
    = wp m (\<lambda>x. Q (f x)) (\<lambda>e s'. case e of Fail x \<Rightarrow> Q (RepError (errno x)) s' | _ \<Rightarrow> E e s') s"
  by (auto simp: wp_def answer_def split: prod.split sum.split exn.split)

lemma wp_user: "wp (user req m) Q E s = wp m
    (\<lambda>x s'. Q x (s'\<lparr>fs_caller_uid := fs_caller_uid s, fs_caller_gid := fs_caller_gid s\<rparr>))
    (\<lambda>e s'. E e (s'\<lparr>fs_caller_uid := fs_caller_uid s, fs_caller_gid := fs_caller_gid s\<rparr>)) (as_sender req s)"
  by (simp add: user_def wp_as_user)

lemmas wp_adapter = wp_answer wp_user wp_eqs

lemma wp_with_path:
  assumes "fs_ok s" and "reliable (fs_conn s)" and "linked (fs_db s) i"
    and "\<And>cs t. walk (fs_db s) ROOT_INODE cs = Inr i \<Longrightarrow> \<forall>c\<in>set cs. valid_component c
      \<Longrightarrow> wp (k (path_string cs)) Q E (s\<lparr>fs_conn := (fs_conn s)\<lparr>c_tick := t\<rparr>\<rparr>)"
  shows "wp (with_path i k) Q E s"
proof -
  note ok = ok_simps[OF assms(1)]
  obtain cs t where p: "path_of_inode i (fs_conn s) = (Inr (Some (path_string cs)), (fs_conn s)\<lparr>c_tick := t\<rparr>)"
    and w: "walk (fs_db s) ROOT_INODE cs = Inr i" using path_of_inode_arrives[OF ok(3,4) assms(2,3)] by blast
  have "wp (k (path_string cs)) Q E (s\<lparr>fs_conn := (fs_conn s)\<lparr>c_tick := t\<rparr>\<rparr>)"
    by (rule assms(4)[OF w walk_valid[OF ok(3) w]])
  then show ?thesis by (simp add: with_path_def wp_def bindE_def db_op_def p)
qed

text \<open>The path of a child, if it is not too long, leads to the entry.\<close>

lemma lookup_child:
  assumes t: "tree d" and w: "walk d ROOT_INODE cs = Inr p" and n: "valid_component n"
    and short: "length (path_string cs) + length n < PATH_MAX"
  shows "lookup d (child_path (path_string cs) n) = (case entry_of d p n of Some i \<Rightarrow> Inr i | None \<Rightarrow> Inl NotFound)"
proof -
  have valid: "\<forall>c\<in>set (cs @ [n]). valid_component c" using walk_valid[OF t w] n by simp
  have "length (path_string (cs @ [n])) \<le> PATH_MAX" using short by (simp add: path_string_snoc)
  then have "parse_path (path_string (cs @ [n])) = Inr (cs @ [n])"
    using valid parse_path_char[of "path_string (cs @ [n])" "cs @ [n]"] by simp
  then have "lookup d (child_path (path_string cs) n) = walk d ROOT_INODE (cs @ [n])"
    using valid by (simp add: child_path_string lookup_def)
  also have "\<dots> = (case entry_of d p n of Some i \<Rightarrow> Inr i | None \<Rightarrow> Inl NotFound)"
  proof (cases "entry_of d p n")
    case None
    then show ?thesis using walk_missing[OF t w] by simp
  next
    case (Some i)
    then have "walk d ROOT_INODE (cs @ [n]) = Inr i" using w by (auto simp: walk_append[OF t])
    then show ?thesis using Some by simp
  qed
  finally show ?thesis .
qed

text \<open>The bound on the path of a node: its directory can still take a name of \<open>k\<close> bytes.\<close>

definition path_room :: "db \<Rightarrow> inode \<Rightarrow> nat \<Rightarrow> bool" where
  "path_room d i k \<longleftrightarrow> (\<forall>cs. walk d ROOT_INODE cs = Inr i \<longrightarrow> length (path_string cs) + k < PATH_MAX)"

lemma answers_stat:
  assumes "fs_ok s" and "reliable (fs_conn s)"
    and "\<And>e s'. lookup (fs_db s) path = Inl e \<Longrightarrow> Q (RepError (errno e)) s'"
    and "\<And>i cols s'. lookup (fs_db s) path = Inr i \<Longrightarrow> node_of (fs_db s) i = Some cols \<Longrightarrow> Q (f (stat_of_row (node_row i cols))) s'"
  shows "wp (user req (answer f (stat_at path))) Q E s"
  unfolding wp_user wp_answer stat_at_def wp_db_op
  by (rule wp_fs_stat) (use assms ok_simps(3)[OF assms(1)] in auto)

text \<open>
  C22 (Adapter): a name that the kernel looks up in a directory it has the number of is answered with the number and
  the attributes of the node that the directory has under that name, and with \<open>ENOENT\<close> if it has none,
  although the adapter goes through the path of the directory; paths are at most 4096 bytes.
\<close>

theorem lookup_serves_entry:
  assumes "fs_ok s" and "reliable (fs_conn s)" and "linked (fs_db s) p" and "valid_component n" and "path_room (fs_db s) p (length n)"
    and "handle full req (ReqEntry (ReqLookup p (Some n))) s = (res, s')"
  shows "case entry_of (fs_db s) p n of
      Some i \<Rightarrow> (\<exists>cols. node_of (fs_db s) i = Some cols \<and> res = Inr (RepEntry (stat_to_attr (stat_of_row (node_row i cols)))))
    | None \<Rightarrow> res = Inr (RepError ENOENT)"
proof -
  note ok = ok_simps[OF assms(1)]
  let ?good = "\<lambda>rep. case entry_of (fs_db s) p n of
      Some i \<Rightarrow> (\<exists>cols. node_of (fs_db s) i = Some cols \<and> rep = RepEntry (stat_to_attr (stat_of_row (node_row i cols))))
    | None \<Rightarrow> rep = RepError ENOENT"
  have "wp (fuse_lookup req p (Some n)) (\<lambda>rep _. ?good rep) (\<lambda>_ _. False) s"
    unfolding fuse_lookup_def with_child_def with_name_def option.case
  proof (rule wp_with_path[OF assms(1-3)])
    fix cs t assume w: "walk (fs_db s) ROOT_INODE cs = Inr p"
    have look: "lookup (fs_db s) (child_path (path_string cs) n) = (case entry_of (fs_db s) p n of Some i \<Rightarrow> Inr i | None \<Rightarrow> Inl NotFound)"
      by (rule lookup_child[OF ok(3) w assms(4)]) (use assms(5) w in \<open>auto simp: path_room_def\<close>)
    show "wp (user req (answer (\<lambda>st. RepEntry (stat_to_attr st)) (stat_at (child_path (path_string cs) n))))
        (\<lambda>rep _. ?good rep) (\<lambda>_ _. False) (s\<lparr>fs_conn := (fs_conn s)\<lparr>c_tick := t\<rparr>\<rparr>)"
      by (rule answers_stat) (use assms(1,2) look in \<open>auto simp: fs_ok_def fs_inv_def ENOENT_def split: option.splits\<close>)
  qed
  from wp_run[OF this] assms(6) show ?thesis by (cases res; cases "entry_of (fs_db s) p n") auto
qed

section \<open>Directories\<close>

text \<open>The listing of a directory as it goes to the kernel, and the directory it is in.\<close>

definition kernel_items :: "inode \<Rightarrow> inode \<Rightarrow> dir_entry list \<Rightarrow> (u64 \<times> file_type \<times> string) list" where
  "kernel_items i up es = (i, Directory, ''.'') # (up, Directory, ''..'')
     # map (\<lambda>de. (de_inode de, kind_to_ft (de_kind de), de_name de)) es"

definition parent_of_dir :: "db \<Rightarrow> inode \<Rightarrow> inode \<Rightarrow> bool" where
  "parent_of_dir d i up \<longleftrightarrow> (if i = ROOT_INODE then up = i else \<exists>n. entry_of d up n = Some i)"

lemma wp_dot_dot:
  assumes "fs_ok s" and "reliable (fs_conn s)" and "walk (fs_db s) ROOT_INODE cs = Inr i" and "lookup (fs_db s) (path_string cs) = Inr i"
    and Q: "\<And>up s'. parent_of_dir (fs_db s) i up \<Longrightarrow> fs_quiet s s' \<Longrightarrow> Q [(up, Directory, ''..'')] s'"
  shows "wp (dot_dot i (path_string cs)) Q E s"
proof (cases "i = ROOT_INODE")
  case True
  then show ?thesis using Q[of i s] by (simp add: dot_dot_def wp_eqs parent_of_dir_def quiet_defs)
next
  case False
  note ok = ok_simps[OF assms(1)]
  obtain ns n where cs: "cs = ns @ [n]" using False assms(3) by (cases cs rule: rev_cases) auto
  obtain q where q: "walk (fs_db s) ROOT_INODE ns = Inr q" "entry_of (fs_db s) q n = Some i"
    using assms(3) unfolding cs by (auto simp: walk_append[OF ok(3)] split: option.splits)
  have valid: "\<forall>c\<in>set cs. valid_component c" by (rule walk_valid[OF ok(3) assms(3)])
  have "adapter_parent_of_path (path_string cs) = Some (path_string ns)"
    using valid unfolding cs by (intro adapter_parent_snoc) auto
  moreover have "parse_path (path_string cs) = Inr cs"
    using valid assms(4) parse_path_char[of "path_string cs" cs] parse_path_char[of "path_string cs"]
    by (auto simp: lookup_def split: sum.splits)
  then have "lookup (fs_db s) (path_string ns) = Inr q"
    using q(1) parse_path_parent[of "path_string cs" ns "[n]"] by (simp add: cs lookup_def)
  moreover have "parent_of_dir (fs_db s) i q" using q(2) False by (auto simp: parent_of_dir_def)
  ultimately show ?thesis using False assms(2) Q ok(3)
    by (auto simp: dot_dot_def wp_eqs stat_at_def stat_of_row_def node_row_def quiet_defs intro!: wp_fs_stat)
qed

lemma lookup_path_string:
  assumes "tree d" and "walk d ROOT_INODE cs = Inr i" and "length (path_string cs) \<le> PATH_MAX"
  shows "lookup d (path_string cs) = Inr i"
  using walk_valid[OF assms(1,2)] parse_path_char[of "path_string cs" cs] assms(2,3) by (simp add: lookup_def)

lemma wp_dir_items:
  assumes "fs_ok s" and "reliable (fs_conn s)" and "walk (fs_db s) ROOT_INODE cs = Inr i"
    and E: "\<And>e s'. readdir_check s (path_string cs) = Inl e \<Longrightarrow> E (Fail e) s'"
    and Q: "\<And>up s'. parent_of_dir (fs_db s) i up \<Longrightarrow> fs_quiet s s' \<Longrightarrow> Q (kernel_items i up (dir_list (fs_db s) i)) s'"
  shows "wp (dir_items i (path_string cs)) Q E s"
proof -
  note ok = ok_simps[OF assms(1)]
  have valid: "\<forall>c\<in>set cs. valid_component c" by (rule walk_valid[OF ok(3) assms(3)])
  show ?thesis unfolding dir_items_def wp_bindE
  proof (rule wp_fs_readdir[OF ok(1)])
    fix s' j assume j: "readdir_check s (path_string cs) = Inr j" and q: "fs_quiet s s'"
    have look: "lookup (fs_db s) (path_string cs) = Inr j" using j by (simp add: readdir_check_Inr)
    then have "parse_path (path_string cs) = Inr cs"
      using valid parse_path_char[of "path_string cs" cs] parse_path_char[of "path_string cs"]
      by (auto simp: lookup_def split: sum.splits)
    then have ji: "j = i" using look assms(3) by (simp add: lookup_def)
    have s': "fs_ok s'" "reliable (fs_conn s')" "fs_db s' = fs_db s"
      using q assms(1,2) effects_ok[OF effects_quiet[OF q]] by (auto simp: quiet_defs reliable_def)
    show "wp (dot_dot i (path_string cs)) (\<lambda>x. wp (ret ((i, Directory, ''.'') # x
        @ map (\<lambda>de. (de_inode de, kind_to_ft (de_kind de), de_name de)) (dir_list (fs_db s) j))) Q E) E s'"
      by (rule wp_dot_dot[OF s'(1,2)])
        (use assms(3) look ji s'(3) Q quiet_trans[OF q] in \<open>auto simp: wp_eqs kernel_items_def\<close>)
  qed (use assms(2) E in auto)
qed

text \<open>
  C23 (Adapter): a page of a directory that the kernel is given is a part of one listing, from the offset asked for: \<open>.\<close>
  with the number of the directory, \<open>..\<close> with that of the directory it is an entry of (the root its own), and then,
  sorted by name and without duplicates, exactly the entries of the directory with the numbers and kinds of their nodes.
\<close>

theorem fuse_readdir_correct:
  assumes "fs_ok s" and "reliable (fs_conn s)" and "linked (fs_db s) i"
    and "handle full req (ReqNode (ReqReaddir i offset)) s = (Inr (RepDirectory page), s')"
  shows "\<exists>up es. page = fill full [] (drop (unat (word_of_int offset :: u64)) (numbered (kernel_items i up es)))
    \<and> parent_of_dir (fs_db s) i up \<and> sorted (map de_name es) \<and> distinct (map de_name es)
    \<and> (\<forall>e. e \<in> set es \<longleftrightarrow> entry_of (fs_db s) i (de_name e) = Some (de_inode e)
          \<and> map_option n_kind (node_of (fs_db s) (de_inode e)) = Some (de_kind e))"
proof -
  let ?good = "\<lambda>rep. \<forall>page. rep = RepDirectory page \<longrightarrow> (\<exists>up. parent_of_dir (fs_db s) i up
    \<and> page = fill full [] (drop (unat (word_of_int offset :: u64)) (numbered (kernel_items i up (dir_list (fs_db s) i)))))"
  have "wp (fuse_readdir full req i offset) (\<lambda>rep _. ?good rep) (\<lambda>_ _. True) s"
    unfolding fuse_readdir_def
  proof (rule wp_with_path[OF assms(1-3)])
    fix cs t assume w: "walk (fs_db s) ROOT_INODE cs = Inr i"
    show "wp (user req (answer (\<lambda>items. RepDirectory (fill full [] (drop (unat (word_of_int offset :: u64)) (numbered items))))
        (dir_items i (path_string cs)))) (\<lambda>rep _. ?good rep) (\<lambda>_ _. True) (s\<lparr>fs_conn := (fs_conn s)\<lparr>c_tick := t\<rparr>\<rparr>)"
      unfolding wp_user wp_answer
      by (rule wp_dir_items) (use assms(1,2) w in \<open>auto simp: fs_ok_def fs_inv_def\<close>)
  qed
  from wp_run[OF this] assms(4) obtain up where "parent_of_dir (fs_db s) i up"
    "page = fill full [] (drop (unat (word_of_int offset :: u64)) (numbered (kernel_items i up (dir_list (fs_db s) i))))" by auto
  then show ?thesis using dir_list_spec[OF assms(1) refl, of i] by blast
qed

section \<open>Handles\<close>

lemma sender_of_served:
  "same_caller (as_sender req s) s1 \<Longrightarrow> as_sender req (s1\<lparr>fs_caller_uid := u, fs_caller_gid := g\<rparr>) = s1"
  by (cases s1) (simp add: same_caller_def)

text \<open>
  C24 (Adapter): what the kernel writes through a handle that is open for reading and writing is reported as written in
  full, and a read of the same range through the handle returns it.
\<close>

theorem fuse_write_then_read:
  assumes "fs_ok s" and "reliable (fs_conn s)" and "write_check s fh = Inr i" and "fd_check s fh O_RDONLY = Inr i"
    and "0 \<le> offset" and "offset + int (length data) < 2 ^ 63" and "length data < 2 ^ 32"
  shows "\<exists>s1 s2. handle full req (ReqHandle (ReqWrite fh offset data)) s = (Inr (RepWritten (of_nat (length data))), s1)
    \<and> handle full req (ReqHandle (ReqRead fh offset (of_nat (length data)))) s1 = (Inr (RepData data), s2)"
proof -
  let ?s = "as_sender req s" and ?off = "word_of_int (max offset 0) :: u64"
  have off: "unat ?off + length data < 2 ^ 63" using offset_below[of offset "length data"] assms(5,6) by simp
  have chk: "write_check ?s fh = Inr i" "fd_check ?s fh O_RDONLY = Inr i" "fs_ok ?s" "reliable (fs_conn ?s)"
    using assms(1-4) by (auto simp: write_check_def fd_check_Inr split: if_splits)
  from write_read_runs[OF chk(3,4,1,2) off] obtain n s1 s2 where w: "fs_write_fd fh ?off data ?s = (Inr n, s1)"
    and r: "fs_read_fd fh ?off (of_nat (length data)) s1 = (Inr data, s2)" by blast
  have "wp (fs_write_fd fh ?off data) (\<lambda>_ s'. same_caller ?s s') (\<lambda>_ _. True) ?s"
    using run_file_effect[of ?s "CallWrite fh ?off data"] off ok_simps(1)[OF chk(3)]
    by (auto simp: wp_reply elim!: wp_mono dest: call_keeps_caller)
  from wp_runQ[OF this w] have "as_sender req (s1\<lparr>fs_caller_uid := fs_caller_uid s, fs_caller_gid := fs_caller_gid s\<rparr>) = s1"
    by (rule sender_of_served)
  moreover have "ucast (of_nat (length data) :: u32) = (of_nat (length data) :: u64)"
    using assms(7) by (intro word_unat_eq_iff[THEN iffD2]) (simp add: unsigned_ucast_eq unsigned_of_nat take_bit_nat_eq_self)
  ultimately show ?thesis using w r
    by (simp add: fuse_write_def fuse_read_def user_def as_user_def answer_def)
qed

section \<open>Pages of a directory\<close>

text \<open>
  \<open>list_dir\<close> sends the handler one request after the other: from the start, and then from the offset that came with
  the last item of the page before, until a page is empty; each request has a buffer of its own.
\<close>

fun list_dir :: "(dir_item list \<Rightarrow> dir_item \<Rightarrow> bool) list \<Rightarrow> request \<Rightarrow> inode \<Rightarrow> int \<Rightarrow> dir_item list list fs" where
  "list_dir [] req i offset = ret []"
| "list_dir (full # fulls) req i offset =
     bindE (handle full req (ReqNode (ReqReaddir i offset))) (\<lambda>rep.
     case rep of
       RepDirectory page \<Rightarrow>
         if page = [] then ret []
         else bindE (list_dir fulls req i (fst (snd (last page)))) (\<lambda>pages. ret (page # pages))
     | _ \<Rightarrow> ret [])"

text \<open>A page holds what its buffer accepted, and the buffer refused what comes next.\<close>

definition cut_by :: "(dir_item list \<Rightarrow> dir_item \<Rightarrow> bool) \<Rightarrow> dir_item list \<Rightarrow> dir_item list \<Rightarrow> bool" where
  "cut_by full page rest \<longleftrightarrow> page \<noteq> [] \<and> (\<forall>k < length page. \<not> full (take k page) (page ! k))
     \<and> (rest = [] \<or> full page (hd rest))"

text \<open>The sender may read directory \<open>i\<close>, whose path is not too long, and the engine works.\<close>

definition readable :: "request \<Rightarrow> inode \<Rightarrow> filesystem \<Rightarrow> bool" where
  "readable req i s \<longleftrightarrow> fs_ok s \<and> reliable (fs_conn s) \<and> linked (fs_db s) i \<and> path_room (fs_db s) i 0
     \<and> (\<exists>cols. node_of (fs_db s) i = Some cols \<and> n_kind cols = Dir \<and> grants (as_sender req s) cols ACCESS_R)"

lemma parent_of_dir_unique:
  "tree d \<Longrightarrow> has_kind d i Dir \<Longrightarrow> parent_of_dir d i a \<Longrightarrow> parent_of_dir d i b \<Longrightarrow> a = b"
  using tree_unique_parent[of d i] edges_iff[OF tree_keys, of d]
  by (auto simp: parent_of_dir_def unique_parent_def split: if_splits)

lemma readdir_replies:
  assumes "readable req i s" and up: "parent_of_dir (fs_db s) i up"
  shows "\<exists>s'. fuse_readdir full req i offset s = (Inr (RepDirectory (fill full []
      (drop (unat (word_of_int offset :: u64)) (numbered (kernel_items i up (dir_list (fs_db s) i)))))), s')
    \<and> readable req i s' \<and> fs_db s' = fs_db s"
proof -
  have ok: "fs_ok s" "reliable (fs_conn s)" "linked (fs_db s) i" "path_room (fs_db s) i 0"
    using assms(1) by (simp_all add: readable_def)
  obtain cols where dir: "node_of (fs_db s) i = Some cols" "n_kind cols = Dir" "grants (as_sender req s) cols ACCESS_R"
    using assms(1) by (auto simp: readable_def)
  let ?page = "fill full [] (drop (unat (word_of_int offset :: u64)) (numbered (kernel_items i up (dir_list (fs_db s) i))))"
  have "wp (fuse_readdir full req i offset)
      (\<lambda>rep s'. rep = RepDirectory ?page \<and> readable req i s' \<and> fs_db s' = fs_db s) (\<lambda>_ _. False) s"
    unfolding fuse_readdir_def
  proof (rule wp_with_path[OF ok(1-3)])
    fix cs t assume w: "walk (fs_db s) ROOT_INODE cs = Inr i"
    let ?s = "as_sender req (s\<lparr>fs_conn := (fs_conn s)\<lparr>c_tick := t\<rparr>\<rparr>)"
    have s: "fs_ok ?s" "reliable (fs_conn ?s)" using ok(1,2) by (simp_all add: fs_ok_def fs_inv_def)
    have "lookup (fs_db s) (path_string cs) = Inr i"
      using lookup_path_string[OF ok_simps(3)[OF ok(1)] w] ok(4) w by (fastforce simp: path_room_def)
    then have "readdir_check ?s (path_string cs) = Inr i"
      using dir by (auto simp: readdir_check_Inr grants_def)
    moreover have "a = up" if "parent_of_dir (fs_db s) i a" for a
      by (rule parent_of_dir_unique[OF ok_simps(3)[OF ok(1)] _ that up]) (use dir in \<open>simp add: has_kind_def\<close>)
    moreover have "readable req i (s'\<lparr>fs_caller_uid := u, fs_caller_gid := g\<rparr>)" if "fs_quiet ?s s'" for s' u g
      using that effects_ok[OF effects_quiet[OF that] s(1)] ok dir
      by (auto simp: readable_def quiet_defs reliable_def grants_def fs_ok_def fs_inv_def)
    ultimately show "wp (user req (answer (\<lambda>items. RepDirectory (fill full [] (drop (unat (word_of_int offset :: u64)) (numbered items))))
        (dir_items i (path_string cs)))) (\<lambda>rep s'. rep = RepDirectory ?page \<and> readable req i s' \<and> fs_db s' = fs_db s)
        (\<lambda>_ _. False) (s\<lparr>fs_conn := (fs_conn s)\<lparr>c_tick := t\<rparr>\<rparr>)"
      unfolding wp_user wp_answer
      by (intro wp_dir_items[OF s]) (use w in \<open>auto simp: quiet_defs\<close>)
  qed
  then show ?thesis using wp_returns by fastforce
qed

lemma fill_cut:
  "\<exists>page rest. xs = page @ rest \<and> fill full out xs = out @ page
    \<and> (\<forall>k < length page. \<not> full (out @ take k page) (page ! k)) \<and> (rest = [] \<or> full (out @ page) (hd rest))"
proof (induction xs arbitrary: out)
  case (Cons x xs)
  show ?case
  proof (cases "full out x")
    case False
    from Cons.IH[of "out @ [x]"] obtain page rest where "xs = page @ rest" "fill full (out @ [x]) xs = out @ x # page"
      "\<forall>k < length page. \<not> full (out @ x # take k page) (page ! k)" "rest = [] \<or> full (out @ x # page) (hd rest)" by auto
    then show ?thesis using False
      by (intro exI[of _ "x # page"] exI[of _ rest]) (auto simp: less_Suc_eq_0_disj)
  qed (auto intro: exI[of _ "[]"])
qed simp

lemma length_numbered [simp]: "length (numbered items) = length items"
  by (simp add: numbered_def)

lemma last_numbered:
  assumes "drop q (numbered items) = page @ rest" and "page \<noteq> []"
  shows "fst (snd (last page)) = int (q + length page)" and "q + length page \<le> length items"
    and "rest = drop (q + length page) (numbered items)"
proof -
  have len: "length (numbered items) - q = length page + length rest" using arg_cong[OF assms(1), of length] by simp
  moreover have n: "0 < length page" using assms(2) by simp
  ultimately show le: "q + length page \<le> length items" unfolding length_numbered by linarith
  have "last page = drop q (numbered items) ! (length page - 1)"
    using n assms(2) by (simp add: assms(1) last_conv_nth nth_append)
  also have "\<dots> = numbered items ! (q + (length page - 1))" using le by simp
  finally show "fst (snd (last page)) = int (q + length page)"
    using n le by (simp add: numbered_def case_prod_beta)
  show "rest = drop (q + length page) (numbered items)"
    using arg_cong[OF assms(1), of "drop (length page)"] by (simp add: add.commute)
qed

lemma list_dir_from:
  assumes "parent_of_dir (fs_db s) i up" and "items = kernel_items i up (dir_list (fs_db s) i)" and "length items < 2 ^ 63"
    and "readable req i s" and "\<forall>full \<in> set fulls. \<forall>x. \<not> full [] x" and "length items \<le> q + length fulls"
    and "q \<le> length items"
  shows "\<exists>pages s'. list_dir fulls req i (int q) s = (Inr pages, s') \<and> concat pages = drop q (numbered items)
    \<and> (\<forall>k < length pages. cut_by (fulls ! k) (pages ! k) (concat (drop (Suc k) pages)))"
  using assms
proof (induction fulls arbitrary: q s)
  case Nil
  then show ?case by (simp add: ret_def)
next
  case (Cons full fulls)
  have q: "unat (word_of_int (int q) :: u64) = q" using Cons.prems(3,7) unat_of_nat64[of q] by simp
  obtain s1 where run: "fuse_readdir full req i (int q) s = (Inr (RepDirectory (fill full [] (drop q (numbered items)))), s1)"
    and s1: "readable req i s1" "fs_db s1 = fs_db s"
    using readdir_replies[OF Cons.prems(4,1), of full "int q"] unfolding Cons.prems(2)[symmetric] q by blast
  from fill_cut[of "drop q (numbered items)" full "[]", unfolded append_Nil] obtain page rest where
    split: "drop q (numbered items) = page @ rest" and fill: "fill full [] (drop q (numbered items)) = page"
    and fits: "\<forall>k < length page. \<not> full (take k page) (page ! k)" and stop: "rest = [] \<or> full page (hd rest)" by blast
  show ?case
  proof (cases "page = []")
    case True
    have "\<not> full [] (hd rest)" using Cons.prems(5) by (simp del: split_paired_All)
    then have "drop q (numbered items) = []" using split stop True by simp
    then show ?thesis using run fill True by (simp add: bindE_def ret_def)
  next
    case False
    note step = last_numbered[OF split False]
    have "length items \<le> q + length page + length fulls" using Cons.prems(6) False by (cases page) auto
    then obtain pages s' where rest_run: "list_dir fulls req i (int (q + length page)) s1 = (Inr pages, s')"
      and rest: "concat pages = drop (q + length page) (numbered items)"
      and cut: "\<forall>k < length pages. cut_by (fulls ! k) (pages ! k) (concat (drop (Suc k) pages))"
      using Cons.IH[of s1 "q + length page"] Cons.prems(1-3,5) s1 step(2) by (auto simp: add.assoc)
    have "list_dir (full # fulls) req i (int q) s = (Inr (page # pages), s')"
      using run rest_run False by (simp add: bindE_def ret_def fill step(1))
    moreover have "concat (page # pages) = drop q (numbered items)" using split rest step(3) by simp
    moreover have "cut_by full page (concat pages)" using False fits stop rest step(3) by (simp add: cut_by_def)
    ultimately show ?thesis using cut
      by (intro exI[of _ "page # pages"] exI[of _ s']) (auto simp: less_Suc_eq_0_disj)
  qed
qed

lemma dir_list_length: "length (dir_list d i) \<le> length (t_entries d)"
  by (simp add: dir_list_def rows_under_def)

lemma parent_of_dir_exists: "linked d i \<Longrightarrow> \<exists>up. parent_of_dir d i up"
  by (auto simp: linked_def parent_of_dir_def)

lemma numbered_items: "map (\<lambda>(j, offset, ft, name). (j, ft, name)) (numbered items) = items"
  by (simp add: numbered_def comp_def case_prod_beta)

text \<open>
  C36 (Adapter): the kernel that reads a directory request by request, each from the offset that came with the last item of the
  page before, gets \<open>.\<close>, \<open>..\<close> and every entry exactly once and in order, whatever sizes its buffers have as long as
  one item fits an empty one; each page holds what its buffer accepted, and the buffer refused the item that comes next.
  The engine works, the sender may read the directory, its path is not longer than paths may be, and there are as many requests as
  items; nothing else changes the directory in between.
\<close>

theorem readdir_pages_complete:
  assumes "readable req i s" and "\<forall>full \<in> set fulls. \<forall>x. \<not> full [] x"
    and "length (t_entries (fs_db s)) + 2 \<le> length fulls" and "length (t_entries (fs_db s)) + 2 < 2 ^ 63"
  shows "\<exists>pages up es s'. list_dir fulls req i 0 s = (Inr pages, s')
    \<and> map (\<lambda>(j, offset, ft, name). (j, ft, name)) (concat pages) = kernel_items i up es
    \<and> (\<forall>k < length pages. cut_by (fulls ! k) (pages ! k) (concat (drop (Suc k) pages)))
    \<and> parent_of_dir (fs_db s) i up \<and> sorted (map de_name es) \<and> distinct (map de_name es)
    \<and> (\<forall>e. e \<in> set es \<longleftrightarrow> entry_of (fs_db s) i (de_name e) = Some (de_inode e)
          \<and> map_option n_kind (node_of (fs_db s) (de_inode e)) = Some (de_kind e))"
proof -
  obtain up where up: "parent_of_dir (fs_db s) i up" using assms(1) parent_of_dir_exists by (auto simp: readable_def)
  let ?items = "kernel_items i up (dir_list (fs_db s) i)"
  have "length ?items \<le> length (t_entries (fs_db s)) + 2" using dir_list_length by (simp add: kernel_items_def)
  then obtain pages s' where run: "list_dir fulls req i 0 s = (Inr pages, s')" and all: "concat pages = numbered ?items"
    and cut: "\<forall>k < length pages. cut_by (fulls ! k) (pages ! k) (concat (drop (Suc k) pages))"
    using list_dir_from[OF up refl _ assms(1,2), of 0] assms(3,4) by auto
  have "fs_ok s" using assms(1) by (simp add: readable_def)
  from dir_list_spec[OF this refl, of i] run cut up show ?thesis
    using numbered_items[of ?items] unfolding all[symmetric] by blast
qed

section \<open>Witnesses\<close>

lemma demo_root_path: "walk (fs_db file_fs) ROOT_INODE cs = Inr 1 \<Longrightarrow> cs = []"
  using walk_append[OF ok_simps(3)[OF file_fs_ok(1)]]
  by (cases cs rule: rev_cases) (auto simp: file_fs_simps split: option.splits if_splits)

lemma demo_root_linked: "linked (fs_db file_fs) 1"
  by (simp add: linked_def ROOT_INODE_def)

theorem lookup_serves_entry_witness:
  "\<exists>a s'. handle (\<lambda>_ _. False) \<lparr>rq_uid = 1000, rq_gid = 1000\<rparr> (ReqEntry (ReqLookup 1 (Some ''f''))) file_fs = (Inr (RepEntry a), s')
    \<and> fa_ino a = 2 \<and> fa_kind a = RegularFile"
proof -
  obtain res s' where h: "handle (\<lambda>_ _. False) \<lparr>rq_uid = 1000, rq_gid = 1000\<rparr> (ReqEntry (ReqLookup 1 (Some ''f''))) file_fs = (res, s')"
    by fastforce
  have "path_room (fs_db file_fs) 1 (length ''f'')" and "valid_component ''f''"
    by (auto simp: path_room_def PATH_MAX_def path_string_def valid_component_def NAME_MAX_def dest!: demo_root_path)
  from lookup_serves_entry[OF file_fs_ok demo_root_linked this(2,1) h] h show ?thesis
    by (auto simp: file_fs_simps stat_to_attr_def stat_of_row_def node_row_def fresh_node_def simp del: handle.simps)
qed

lemma fill_all: "fill (\<lambda>_ _. False) out xs = out @ xs"
  by (induction xs arbitrary: out) simp_all

theorem fuse_readdir_correct_witness:
  "\<exists>page s' es. handle (\<lambda>_ _. False) \<lparr>rq_uid = 0, rq_gid = 0\<rparr> (ReqNode (ReqReaddir 1 0)) file_fs = (Inr (RepDirectory page), s')
    \<and> page = numbered (kernel_items 1 1 es) \<and> \<lparr>de_name = ''f'', de_kind = File, de_inode = 2\<rparr> \<in> set es"
proof -
  have good: "wp (fuse_readdir (\<lambda>_ _. False) \<lparr>rq_uid = 0, rq_gid = 0\<rparr> 1 0) (\<lambda>rep _. \<exists>page. rep = RepDirectory page) (\<lambda>_ _. False) file_fs"
    unfolding fuse_readdir_def
  proof (rule wp_with_path[OF file_fs_ok demo_root_linked])
    fix cs t assume "walk (fs_db file_fs) ROOT_INODE cs = Inr 1"
    then have cs: "cs = []" by (rule demo_root_path)
    let ?s = "as_sender \<lparr>rq_uid = 0, rq_gid = 0\<rparr> (file_fs\<lparr>fs_conn := (fs_conn file_fs)\<lparr>c_tick := t\<rparr>\<rparr>)"
    have s: "fs_inv ?s" "reliable (fs_conn ?s)" using file_fs_ok by (simp_all add: fs_ok_def fs_inv_def)
    have check: "readdir_check ?s ''/'' = Inr 1"
      using file_fs_simps by (auto simp: readdir_check_Inr lookup_def path_g ROOT_INODE_def grants_def check_access_def ACCESS_R_def
          ACCESS_X_def access_contains_def)
    show "wp (user \<lparr>rq_uid = 0, rq_gid = 0\<rparr> (answer (\<lambda>items. RepDirectory (fill (\<lambda>_ _. False) [] (drop (unat (word_of_int 0 :: u64)) (numbered items))))
        (dir_items 1 (path_string cs)))) (\<lambda>rep _. \<exists>page. rep = RepDirectory page) (\<lambda>_ _. False) (file_fs\<lparr>fs_conn := (fs_conn file_fs)\<lparr>c_tick := t\<rparr>\<rparr>)"
      unfolding wp_user wp_answer dir_items_def wp_bindE cs path_string_def join_slash.simps
      by (rule wp_fs_readdir[OF s(1)]) (use s check in \<open>auto simp: dot_dot_def ROOT_INODE_def wp_eqs\<close>)
  qed
  then obtain page s' where h: "handle (\<lambda>_ _. False) \<lparr>rq_uid = 0, rq_gid = 0\<rparr> (ReqNode (ReqReaddir 1 0)) file_fs = (Inr (RepDirectory page), s')"
    using wp_returns[OF good] by auto
  from fuse_readdir_correct[OF file_fs_ok demo_root_linked h] obtain up es where
    "page = numbered (kernel_items 1 up es)" "parent_of_dir (fs_db file_fs) 1 up"
    and es: "\<forall>e. e \<in> set es \<longleftrightarrow> entry_of (fs_db file_fs) 1 (de_name e) = Some (de_inode e)
          \<and> map_option n_kind (node_of (fs_db file_fs) (de_inode e)) = Some (de_kind e)" by (auto simp: fill_all)
  moreover have "\<lparr>de_name = ''f'', de_kind = File, de_inode = 2\<rparr> \<in> set es"
    using es by (simp add: file_fs_simps fresh_node_def)
  ultimately show ?thesis using h by (auto simp: parent_of_dir_def ROOT_INODE_def simp del: handle.simps)
qed

theorem readdir_pages_complete_witness:
  "\<exists>pages es s'. list_dir (replicate 3 (\<lambda>out _. out \<noteq> [])) \<lparr>rq_uid = 0, rq_gid = 0\<rparr> 1 0 file_fs = (Inr pages, s')
    \<and> map (\<lambda>(j, offset, ft, name). (j, ft, name)) (concat pages) = kernel_items 1 1 es
    \<and> \<lparr>de_name = ''f'', de_kind = File, de_inode = 2\<rparr> \<in> set es"
proof -
  have "path_room (fs_db file_fs) 1 0" by (auto simp: path_room_def PATH_MAX_def path_string_def dest!: demo_root_path)
  moreover have "\<exists>cols. node_of (fs_db file_fs) 1 = Some cols \<and> n_kind cols = Dir
      \<and> grants (as_sender \<lparr>rq_uid = 0, rq_gid = 0\<rparr> file_fs) cols ACCESS_R"
    using file_fs_simps(5) by (auto simp: grants_def check_access_def ACCESS_R_def ACCESS_X_def access_contains_def)
  ultimately have "readable \<lparr>rq_uid = 0, rq_gid = 0\<rparr> 1 file_fs"
    using file_fs_ok demo_root_linked by (simp add: readable_def)
  moreover have "length (t_entries (fs_db file_fs)) = 1" by (simp add: file_fs_def file_db_def connect_def)
  ultimately obtain pages up es s' where
    run: "list_dir (replicate 3 (\<lambda>out _. out \<noteq> [])) \<lparr>rq_uid = 0, rq_gid = 0\<rparr> 1 0 file_fs = (Inr pages, s')"
    and all: "map (\<lambda>(j, offset, ft, name). (j, ft, name)) (concat pages) = kernel_items 1 up es" and up: "parent_of_dir (fs_db file_fs) 1 up"
    and es: "\<forall>e. e \<in> set es \<longleftrightarrow> entry_of (fs_db file_fs) 1 (de_name e) = Some (de_inode e)
          \<and> map_option n_kind (node_of (fs_db file_fs) (de_inode e)) = Some (de_kind e)"
    using readdir_pages_complete[of "\<lparr>rq_uid = 0, rq_gid = 0\<rparr>" 1 file_fs "replicate 3 (\<lambda>out _. out \<noteq> [])"] by auto
  have "\<lparr>de_name = ''f'', de_kind = File, de_inode = 2\<rparr> \<in> set es"
    using es by (simp add: file_fs_simps fresh_node_def)
  with run all up show ?thesis by (auto simp: parent_of_dir_def ROOT_INODE_def)
qed

theorem fuse_write_then_read_witness:
  "\<exists>s1 s2. handle (\<lambda>_ _. False) \<lparr>rq_uid = 1000, rq_gid = 1000\<rparr> (ReqHandle (ReqWrite 1 3 [1, 2, 3])) file_fs = (Inr (RepWritten 3), s1)
    \<and> handle (\<lambda>_ _. False) \<lparr>rq_uid = 1000, rq_gid = 1000\<rparr> (ReqHandle (ReqRead 1 3 3)) s1 = (Inr (RepData [1, 2, 3]), s2)"
  using fuse_write_then_read[OF file_fs_ok file_fs_fd(2,1), of 3 "[1, 2, 3]"] by (simp del: handle.simps)

end
