(* ===== verification/Fs_View.thy ===== *)
theory Fs_View
  imports Fs_Behaviour "HOL-Library.Sublist"
begin

text \<open>
  The tables as a filesystem of paths: \<open>view\<close> maps a list of names to the node it leads to.  The operations
  on names refine updates of this map, with \<open>rename\<close> moving everything below the source at once, and
  renaming, linking and removing are stated without any parent, entry or link count.
\<close>

section \<open>The map from paths to nodes\<close>

type_synonym view = "string list \<Rightarrow> inode option"

definition view :: "db \<Rightarrow> view" where
  "view d cs = (case walk d ROOT_INODE cs of Inr i \<Rightarrow> Some i | Inl e \<Rightarrow> None)"

lemma view_Some: "view d cs = Some i \<longleftrightarrow> walk d ROOT_INODE cs = Inr i"
  by (auto simp: view_def split: sum.splits)

lemma view_Nil [simp]: "view d [] = Some ROOT_INODE"
  by (simp add: view_def)

lemma option_ext: "(\<And>i. a = Some i \<longleftrightarrow> b = Some i) \<Longrightarrow> a = b"
  by (cases a; cases b) auto

lemma view_snoc:
  assumes "tree d"
  shows "view d (cs @ [x]) = Option.bind (view d cs) (\<lambda>q. entry_of d q x)"
proof (rule option_ext)
  fix i
  show "(view d (cs @ [x]) = Some i) = (Option.bind (view d cs) (\<lambda>q. entry_of d q x) = Some i)"
    by (auto simp: view_Some walk_append[OF assms] bind_eq_Some_conv split: option.splits)
qed

text \<open>A map that grows from the root like the entries do is the view.\<close>

lemma view_unique:
  assumes "tree d" and "v [] = Some ROOT_INODE" and "\<And>cs x. v (cs @ [x]) = Option.bind (v cs) (\<lambda>q. entry_of d q x)"
  shows "view d = v"
proof
  show "view d cs = v cs" for cs
    by (induction cs rule: rev_induct) (simp_all add: assms view_snoc)
qed

lemma view_append: "tree d \<Longrightarrow> view d cs = Some i \<Longrightarrow> view d (cs @ zs) = Some j \<longleftrightarrow> walk d i zs = Inr j"
  by (auto simp: view_Some walk_append)

text \<open>A directory has one path.\<close>

lemma view_dir_inj:
  "tree d \<Longrightarrow> has_kind d q Dir \<Longrightarrow> view d cs = Some q \<Longrightarrow> view d cs' = Some q \<Longrightarrow> cs' = cs"
proof (induction cs arbitrary: cs' q rule: rev_induct)
  case Nil
  have "entry_of d p n \<noteq> Some ROOT_INODE" for p n using Nil(1) unfolding tree_def wf_root_def by blast
  then show ?case using Nil by (cases cs' rule: rev_cases) (auto simp: view_snoc bind_eq_Some_conv)
next
  case (snoc n cs)
  obtain p where p: "view d cs = Some p" "entry_of d p n = Some q"
    using snoc.prems by (auto simp: view_snoc bind_eq_Some_conv)
  have "cs' \<noteq> []" using p(2) snoc.prems(1,4) by (auto simp: tree_def wf_root_def)
  then obtain cs1 m where cs': "cs' = cs1 @ [m]" by (meson rev_exhaust)
  obtain p' where p': "view d cs1 = Some p'" "entry_of d p' m = Some q"
    using snoc.prems unfolding cs' by (auto simp: view_snoc bind_eq_Some_conv)
  have "p' = p \<and> m = n" using snoc.prems(1,2) p(2) p'(2) unfolding tree_def wf_dirs_def by blast
  moreover have "has_kind d p Dir" using tree_entryD[OF snoc.prems(1) p(2)] by simp
  ultimately show ?case using snoc.IH[OF snoc.prems(1) _ p(1)] p'(1) cs' by blast
qed

lemma entry_view_inj:
  "tree d \<Longrightarrow> view d pc = Some p \<Longrightarrow> has_kind d p Dir \<Longrightarrow> view d cs = Some q \<Longrightarrow> cs @ [x] \<noteq> pc @ [n] \<Longrightarrow> (q, x) \<noteq> (p, n)"
  using view_dir_inj[of d p pc cs] by auto

section \<open>Updates of the map\<close>

lemma view_add:
  assumes t: "tree d" "tree d'" and p: "view d pc = Some p" "has_kind d p Dir" and free: "entry_of d p n = None"
    and leaf: "\<And>x. entry_of d i x = None"
    and e: "\<And>q x. entry_of d' q x = (if (q, x) = (p, n) then Some i else entry_of d q x)"
  shows "view d' = (view d)(pc @ [n] \<mapsto> i)"
proof (rule view_unique[OF t(2)])
  have gone: "view d (pc @ [n]) = None" using p(1) free by (simp add: view_snoc[OF t(1)])
  fix cs x
  show "((view d)(pc @ [n] \<mapsto> i)) (cs @ [x]) = Option.bind (((view d)(pc @ [n] \<mapsto> i)) cs) (\<lambda>q. entry_of d' q x)"
  proof (cases "cs @ [x] = pc @ [n]")
    case True
    then show ?thesis using p(1) by (simp add: e)
  next
    case False
    then have ne: "view d cs = Some q \<Longrightarrow> entry_of d' q x = entry_of d q x" for q
      using entry_view_inj[OF t(1) p] unfolding e by metis
    show ?thesis
    proof (cases "cs = pc @ [n]")
      case True
      have "i \<noteq> p" using no_self_entry[OF t(2), of p n i] by (auto simp: e)
      moreover have "view d (pc @ [n, x]) = None" using view_snoc[OF t(1), of "pc @ [n]" x] gone by simp
      ultimately show ?thesis using True leaf by (simp add: e)
    next
      case other: False
      then show ?thesis using False ne by (cases "view d cs") (auto simp: view_snoc[OF t(1)])
    qed
  qed
qed simp

text \<open>A node without entries below it loses a name.\<close>

lemma view_remove:
  assumes t: "tree d" "tree d'" and p: "view d pc = Some p" "has_kind d p Dir" and i: "entry_of d p n = Some i"
    and leaf: "\<And>x. entry_of d i x = None"
    and e: "\<And>q x. entry_of d' q x = (if (q, x) = (p, n) then None else entry_of d q x)"
  shows "view d' = (view d)(pc @ [n] := None)"
proof (rule view_unique[OF t(2)])
  have here: "view d (pc @ [n]) = Some i" using p(1) i by (simp add: view_snoc[OF t(1)])
  fix cs x
  show "((view d)(pc @ [n] := None)) (cs @ [x]) = Option.bind (((view d)(pc @ [n] := None)) cs) (\<lambda>q. entry_of d' q x)"
  proof (cases "cs @ [x] = pc @ [n]")
    case True
    then show ?thesis using p(1) by (simp add: e)
  next
    case False
    then have ne: "view d cs = Some q \<Longrightarrow> entry_of d' q x = entry_of d q x" for q
      using entry_view_inj[OF t(1) p] unfolding e by metis
    show ?thesis
    proof (cases "cs = pc @ [n]")
      case True
      have "view d (pc @ [n, x]) = None" using view_snoc[OF t(1), of "pc @ [n]" x] here leaf by simp
      then show ?thesis using True by simp
    next
      case other: False
      then show ?thesis using False ne by (cases "view d cs") (auto simp: view_snoc[OF t(1)])
    qed
  qed
qed simp

text \<open>The subtree at \<open>src\<close> goes to \<open>dst\<close>, in place of what was there.\<close>

definition moved :: "view \<Rightarrow> string list \<Rightarrow> string list \<Rightarrow> view" where
  "moved v src dst cs = (if prefix dst cs then v (src @ drop (length dst) cs)
     else if prefix src cs then None else v cs)"

lemma moved_under:
  assumes keep: "\<And>zs q. view d (src @ zs) = Some q \<Longrightarrow> entry_of d' q x = entry_of d q x" and t: "tree d" and at: "prefix dst cs"
  shows "moved (view d) src dst (cs @ [x]) = Option.bind (moved (view d) src dst cs) (\<lambda>q. entry_of d' q x)"
proof -
  obtain zs where zs: "cs = dst @ zs" using at by (auto simp: prefix_def)
  have "view d (src @ zs @ [x]) = Option.bind (view d (src @ zs)) (\<lambda>q. entry_of d q x)"
    using view_snoc[OF t, of "src @ zs" x] by simp
  also have "\<dots> = Option.bind (view d (src @ zs)) (\<lambda>q. entry_of d' q x)"
    using keep by (cases "view d (src @ zs)") simp_all
  finally show ?thesis unfolding zs moved_def by (simp add: prefix_def)
qed

lemma moved_away:
  assumes keep: "\<And>q. view d cs = Some q \<Longrightarrow> cs @ [x] \<noteq> sc @ [sn] \<Longrightarrow> entry_of d' q x = entry_of d q x"
    and gone: "\<And>q. view d sc = Some q \<Longrightarrow> entry_of d' q sn = None"
    and t: "tree d" and dst: "\<not> prefix dst cs" "\<not> prefix dst (cs @ [x])"
  shows "moved (view d) (sc @ [sn]) dst (cs @ [x]) = Option.bind (moved (view d) (sc @ [sn]) dst cs) (\<lambda>q. entry_of d' q x)"
proof (cases "prefix (sc @ [sn]) cs")
  case True
  then show ?thesis using dst by (auto simp: moved_def prefix_snoc)
next
  case src: False
  show ?thesis
  proof (cases "cs @ [x] = sc @ [sn]")
    case True
    then show ?thesis using dst src gone by (cases "view d sc") (auto simp: moved_def)
  next
    case False
    then have "\<not> prefix (sc @ [sn]) (cs @ [x])" using src by (simp add: prefix_snoc) (metis append1_eq_conv)
    then show ?thesis using dst src keep False by (cases "view d cs") (auto simp: moved_def view_snoc[OF t])
  qed
qed

lemma view_move:
  assumes t: "tree d" "tree d'" and sp: "view d sc = Some sp" "has_kind d sp Dir" and p: "view d pc = Some p" "has_kind d p Dir"
    and i: "entry_of d sp sn = Some i" and apart: "(i, p) \<notin> (edges d)\<^sup>*" and ne: "sc @ [sn] \<noteq> pc @ [n]"
    and e: "\<And>q x. entry_of d' q x = (if (q, x) = (p, n) then Some i else if (q, x) = (sp, sn) then None else entry_of d q x)"
  shows "view d' = moved (view d) (sc @ [sn]) (pc @ [n])"
proof (rule view_unique[OF t(2)])
  show "moved (view d) (sc @ [sn]) (pc @ [n]) [] = Some ROOT_INODE" by (simp add: moved_def)
  have src: "view d (sc @ [sn]) = Some i" using sp(1) i by (simp add: view_snoc[OF t(1)])
  have down: "(i, q) \<in> (edges d)\<^sup>*" if "view d ((sc @ [sn]) @ zs) = Some q" for zs q
    using walk_up[OF t(1)] that src view_append[OF t(1) src] by blast
  have nsp: "(i, sp) \<notin> (edges d)\<^sup>*" by (rule above_parent[OF t(1) i])
  have npc: "\<not> prefix (sc @ [sn]) pc" using down p(1) apart by (auto simp: prefix_def)
  have diff: "(sp, sn) \<noteq> (p, n)" using entry_view_inj[OF t(1) p sp(1) ne] .
  fix cs x
  show "moved (view d) (sc @ [sn]) (pc @ [n]) (cs @ [x])
    = Option.bind (moved (view d) (sc @ [sn]) (pc @ [n]) cs) (\<lambda>q. entry_of d' q x)"
  proof (cases "prefix (pc @ [n]) cs")
    case True
    have "entry_of d' q x = entry_of d q x" if "view d ((sc @ [sn]) @ zs) = Some q" for zs q
      using down[OF that] apart nsp by (auto simp: e)
    then show ?thesis by (rule moved_under[OF _ t(1) True])
  next
    case above: False
    show ?thesis
    proof (cases "cs @ [x] = pc @ [n]")
      case True
      then show ?thesis using p(1) src npc by (simp add: moved_def e)
    next
      case False
      then have dst: "\<not> prefix (pc @ [n]) (cs @ [x])" using above by (auto simp: prefix_snoc)
      have "entry_of d' q x = entry_of d q x" if "view d cs = Some q" "cs @ [x] \<noteq> sc @ [sn]" for q
        using entry_view_inj[OF t(1) sp that] entry_view_inj[OF t(1) p that(1) False] by (simp only: e if_False)
      then show ?thesis by (rule moved_away[OF _ _ t(1) above dst]) (use sp(1) diff in \<open>auto simp: e\<close>)
    qed
  qed
qed

lemma view_cong: "tree d \<Longrightarrow> tree d' \<Longrightarrow> entry_of d' = entry_of d \<Longrightarrow> view d' = view d"
  by (rule view_unique) (simp_all add: view_snoc)

section \<open>The abstract operations\<close>

definition comps :: "string \<Rightarrow> string list" where
  "comps path = (case parse_path path of Inr cs \<Rightarrow> cs | Inl e \<Rightarrow> [])"

fun abs_name :: "name_call \<Rightarrow> inode \<Rightarrow> view \<Rightarrow> view" where
  "abs_name (CallMkdir path mode) new v = v(comps path \<mapsto> new)"
| "abs_name (CallSymlink target path) new v = v(comps path \<mapsto> new)"
| "abs_name (CallLink target path) new v = v(comps path := v (comps target))"
| "abs_name (CallUnlink path) new v = v(comps path := None)"
| "abs_name (CallRmdir path) new v = v(comps path := None)"
| "abs_name (CallRename src dst) new v =
     (if src = dst \<or> v (comps src) = v (comps dst) then v else moved v (comps src) (comps dst))"

fun abs_call :: "fs_call \<Rightarrow> inode \<Rightarrow> view \<Rightarrow> view" where
  "abs_call (Names c) new v = abs_name c new v"
| "abs_call (Files (CallCreate path flags mode)) new v = (if v (comps path) = None then v(comps path \<mapsto> new) else v)"
| "abs_call (CallAsUser u g c) new v = abs_call c new v"
| "abs_call c new v = v"

fun unlinks :: "fs_call \<Rightarrow> bool" where
  "unlinks (Names (CallUnlink path)) \<longleftrightarrow> True"
| "unlinks (CallAsUser u g c) \<longleftrightarrow> unlinks c"
| "unlinks c \<longleftrightarrow> False"

section \<open>The refinement\<close>

lemma parent_view:
  assumes "parent_lookup d path = Inr (p, n)"
  obtains pc where "comps path = pc @ [n]" and "view d pc = Some p"
proof -
  obtain cs where cs: "parse_path path = Inr cs" "cs \<noteq> []" "walk d ROOT_INODE (butlast cs) = Inr p" "last cs = n"
    using assms by (auto simp: parent_lookup_def split: sum.splits if_splits)
  then have "comps path = butlast cs @ [n]" by (auto simp: comps_def)
  then show thesis using that cs(3) by (simp add: view_Some)
qed

lemma lookup_view: "lookup d path = Inr i \<Longrightarrow> view d (comps path) = Some i"
  by (auto simp: lookup_def comps_def view_Some split: sum.splits)

lemma entry_view: "tree d \<Longrightarrow> parent_lookup d path = Inr (p, n) \<Longrightarrow> view d (comps path) = entry_of d p n"
  by (erule parent_view) (simp add: view_snoc)

abbreviation refined :: "fs_call \<Rightarrow> filesystem \<Rightarrow> filesystem \<Rightarrow> bool" where
  "refined c s s' \<equiv> tree (fs_db s') \<longrightarrow> view (fs_db s') = abs_call c (next_inode (fs_db s)) (view (fs_db s))"

abbreviation unchanged :: "filesystem \<Rightarrow> filesystem \<Rightarrow> bool" where
  "unchanged s s' \<equiv> tree (fs_db s') \<longrightarrow> view (fs_db s') = view (fs_db s)"

lemma unchanged_entries: "fs_inv s \<Longrightarrow> entry_of (fs_db s') = entry_of (fs_db s) \<Longrightarrow> unchanged s s'"
  using view_cong[OF inv_tree] by blast

lemma view_added:
  assumes inv: "fs_inv s" and c: "add_check s path = Inr (p, n)" and t': "tree d'"
    and leaf: "\<And>x. entry_of (fs_db s) i x = None"
    and e: "\<And>q x. entry_of d' q x = (if (q, x) = (p, n) then Some i else entry_of (fs_db s) q x)"
  shows "view d' = (view (fs_db s))(comps path \<mapsto> i)" and "view (fs_db s) (comps path) = None"
proof -
  note pn = c[unfolded add_check_Inr]
  obtain pc where pc: "comps path = pc @ [n]" "view (fs_db s) pc = Some p" using pn parent_view by blast
  have "has_kind (fs_db s) p Dir" using pn by (auto simp: has_kind_def)
  from view_add[OF inv_tree[OF inv] t' pc(2) this _ leaf e] pn show "view d' = (view (fs_db s))(comps path \<mapsto> i)"
    by (simp add: pc(1))
  show "view (fs_db s) (comps path) = None" using pn entry_view[OF inv_tree[OF inv]] by simp
qed

lemma view_removed:
  assumes inv: "fs_inv s" and pl: "parent_lookup (fs_db s) path = Inr (p, n)" and i: "entry_of (fs_db s) p n = Some i" and t': "tree d'"
    and leaf: "\<And>x. entry_of (fs_db s) i x = None"
    and e: "\<And>q x. entry_of d' q x = (if (q, x) = (p, n) then None else entry_of (fs_db s) q x)"
  shows "view d' = (view (fs_db s))(comps path := None)"
proof -
  obtain pc where pc: "comps path = pc @ [n]" "view (fs_db s) pc = Some p" using pl parent_view by blast
  have "has_kind (fs_db s) p Dir" using tree_entryD[OF inv_tree[OF inv] i] by simp
  from view_remove[OF inv_tree[OF inv] t' pc(2) this i leaf e] show ?thesis by (simp add: pc(1))
qed

lemma view_renamed:
  assumes inv: "fs_inv s" and ren: "renames s src dst sp sn p n i k" and re: "renamed k i sp sn p n now (fs_db s) d'" and t': "tree d'"
    and ne: "entry_of (fs_db s) p n \<noteq> Some i"
  shows "view d' = moved (view (fs_db s)) (comps src) (comps dst)" and "view (fs_db s) (comps src) \<noteq> view (fs_db s) (comps dst)"
proof -
  note t = inv_tree[OF inv]
  have r: "parent_lookup (fs_db s) src = Inr (sp, sn)" "entry_of (fs_db s) sp sn = Some i" "parent_lookup (fs_db s) dst = Inr (p, n)"
    "has_kind (fs_db s) p Dir" using ren by (auto simp: renames_def has_kind_def)
  obtain sc where sc: "comps src = sc @ [sn]" "view (fs_db s) sc = Some sp" using r(1) parent_view by blast
  obtain pc where pc: "comps dst = pc @ [n]" "view (fs_db s) pc = Some p" using r(3) parent_view by blast
  show diff: "view (fs_db s) (comps src) \<noteq> view (fs_db s) (comps dst)"
    using entry_view[OF t r(1)] entry_view[OF t r(3)] r(2) ne by simp
  have "has_kind (fs_db s) sp Dir" using tree_entryD[OF t r(2)] by simp
  from view_move[OF t t' sc(2) this pc(2) r(4) r(2) path_parts[OF t ren refl] _ entries_renamed[OF t r(2) re]]
  show "view d' = moved (view (fs_db s)) (comps src) (comps dst)" using diff by (auto simp: sc(1) pc(1))
qed

abbreviation steps :: "fs_call \<Rightarrow> reply fs \<Rightarrow> filesystem \<Rightarrow> bool" where
  "steps c m s \<equiv> wp m (\<lambda>_. refined c s) (\<lambda>_ s'. unchanged s s' \<or> unlinks c \<and> refined c s s') s"

lemma quiet_unchanged: "fs_quiet s s' \<Longrightarrow> view (fs_db s') = view (fs_db s)"
  by (simp add: fs_quiet_def)

lemma leaf_new: "fs_inv s \<Longrightarrow> entry_of (fs_db s) (next_inode (fs_db s)) x = None"
  using unlinked_no_children[OF inv_tree next_inode_free[OF inv_tree]] .

lemma unlink_leaf: "fs_inv s \<Longrightarrow> unlink_check s path = Inr (p, n, i) \<Longrightarrow> entry_of (fs_db s) i x = None"
  using file_no_children[OF inv_tree] by (simp add: unlink_check_Inr)

lemma refined_mkdir: "fs_inv s \<Longrightarrow> steps (Names (CallMkdir path mode)) (run_name (CallMkdir path mode)) s"
  by (auto simp: wp_eqs quiet_unchanged becomes_def entries_added
      intro!: wp_fs_mkdir view_added(1)[where i = "next_inode (fs_db s)"] leaf_new)

lemma refined_symlink: "fs_inv s \<Longrightarrow> steps (Names (CallSymlink target path)) (run_name (CallSymlink target path)) s"
  by (auto simp: wp_eqs quiet_unchanged becomes_def entries_added
      intro!: wp_fs_symlink view_added(1)[where i = "next_inode (fs_db s)"] leaf_new)

lemma refined_link:
  assumes "fs_inv s"
  shows "steps (Names (CallLink target path)) (run_name (CallLink target path)) s"
proof -
  have "refined (Names (CallLink target path)) s s'" if c: "link_check s target path = Inr (p, n, i)"
    and s': "fs_db s' = link_db p n i now (fs_db s)" for p n i now s'
  proof
    assume t': "tree (fs_db s')"
    have l: "lookup (fs_db s) target = Inr i" "\<not> has_kind (fs_db s) i Dir" "add_check s path = Inr (p, n)"
      using c by (auto simp: link_check_Inr has_kind_def)
    note leaf = file_no_children[OF inv_tree[OF assms] l(2)]
    have "view (fs_db s') = (view (fs_db s))(comps path \<mapsto> i)"
      by (rule view_added(1)[OF assms l(3) t' leaf]) (simp add: s' entries_added)
    then show "view (fs_db s') = abs_call (Names (CallLink target path)) (next_inode (fs_db s)) (view (fs_db s))"
      using lookup_view[OF l(1)] by simp
  qed
  then show ?thesis using assms by (auto simp: wp_eqs quiet_unchanged becomes_def simp del: abs_call.simps intro!: wp_fs_link)
qed

lemma refined_rmdir: "fs_inv s \<Longrightarrow> steps (Names (CallRmdir path)) (run_name (CallRmdir path)) s"
  using rows_under_Nil[OF tree_keys[OF inv_tree]]
  by (auto simp: wp_eqs quiet_unchanged becomes_def rmdir_check_Inr entries_rmdir[OF inv_tree]
      intro!: wp_fs_rmdir view_removed)

lemma unlink_entries:
  assumes inv: "fs_inv s" and c: "unlink_check s path = Inr (p, n, i)"
    and d': "d' = unlink_db p n i now (fs_db s) \<or> d' = del_node i (unlink_db p n i now (fs_db s))" and t': "tree d'"
  shows "view d' = (view (fs_db s))(comps path := None)"
proof (rule view_removed[OF inv _ _ t' unlink_leaf[OF inv c]])
  show "entry_of d' q x = (if (q, x) = (p, n) then None else entry_of (fs_db s) q x)" for q x
    using d' unlink_leaf[OF inv c] by (auto simp: entries_added)
qed (use c in \<open>simp_all add: unlink_check_Inr\<close>)

lemma refined_unlink:
  assumes inv: "fs_inv s"
  shows "steps (Names (CallUnlink path)) (run_name (CallUnlink path)) s"
  unfolding run_name.simps wp_reply
proof (rule wp_fs_unlink[OF inv])
  show "refined (Names (CallUnlink path)) s s'"
    if "unlink_check s path = Inr (p, n, i)" and "becomes s (unlink_final s p n i) t l w s'" for s' p n i t l w
    using that unlink_entries[OF inv that(1), of "fs_db s'" "now1 s"] by (simp add: becomes_def unlink_final_def Let_def)
  show "unchanged s s' \<or> unlinks (Names (CallUnlink path)) \<and> refined (Names (CallUnlink path)) s s'"
    if "unlink_check s path = Inr (p, n, i)" and "becomes s (unlink_db p n i (now1 s) (fs_db s)) t l w s'" for s' p n i t l w
    using that unlink_entries[OF inv that(1), of "fs_db s'" "now1 s"] by (simp add: becomes_def)
qed (simp add: quiet_unchanged)

lemma refined_rename:
  assumes inv: "fs_inv s"
  shows "steps (Names (CallRename src dst)) (run_name (CallRename src dst)) s"
proof -
  have same: "refined (Names (CallRename src dst)) s s'" if "rename_same s src dst" and "fs_quiet s s'" for s'
    using that entry_view[OF inv_tree[OF inv]] by (auto simp: quiet_unchanged rename_same_def renames_def)
  have moved: "refined (Names (CallRename src dst)) s s'" if mv: "rename_moved s src dst s'" for s'
  proof
    assume t': "tree (fs_db s')"
    obtain sp sn p n i k where ren: "renames s src dst sp sn p n i k"
      and re: "renamed k i sp sn p n (now1 s) (fs_db s) (fs_db s')"
      using mv by (auto simp: rename_moved_def becomes_def)
    note r = ren[unfolded renames_def]
    show "view (fs_db s') = abs_call (Names (CallRename src dst)) (next_inode (fs_db s)) (view (fs_db s))"
    proof (cases "entry_of (fs_db s) p n = Some i")
      case True
      then have "(p, n) = (sp, sn)" using re by (auto simp: renamed_def split: if_splits)
      then have "entry_of (fs_db s') = entry_of (fs_db s)"
        using True entries_renamed[OF inv_tree[OF inv] _ re] r by (auto simp: fun_eq_iff)
      then have "view (fs_db s') = view (fs_db s)" by (rule view_cong[OF inv_tree[OF inv] t'])
      moreover have "view (fs_db s) (comps src) = view (fs_db s) (comps dst)"
        using True r entry_view[OF inv_tree[OF inv]] by metis
      ultimately show ?thesis by simp
    next
      case False
      from view_renamed[OF inv ren re t' this] show ?thesis by auto
    qed
  qed
  show ?thesis unfolding run_name.simps wp_reply
    by (rule wp_fs_rename[OF inv]) (use same moved in \<open>auto simp: quiet_unchanged simp del: abs_call.simps\<close>)
qed

text \<open>The other calls leave all entries, but for a file that \<open>create\<close> adds.\<close>

abbreviation keeps_entries :: "reply fs \<Rightarrow> filesystem \<Rightarrow> bool" where
  "keeps_entries m s \<equiv> wp m (\<lambda>_ s'. entry_of (fs_db s') = entry_of (fs_db s)) (\<lambda>_ s'. entry_of (fs_db s') = entry_of (fs_db s)) s"

lemma quiet_entries: "fs_quiet s s' \<Longrightarrow> entry_of (fs_db s') = entry_of (fs_db s)"
  by (simp add: fs_quiet_def)

lemma becomes_entries: "becomes s d t l w s' \<Longrightarrow> entry_of d = entry_of (fs_db s) \<Longrightarrow> entry_of (fs_db s') = entry_of (fs_db s)"
  by (simp add: becomes_def)

lemma entries_map_node: "entry_of (map_node i f d) = entry_of d"
  by (simp add: fun_eq_iff)

lemma keeps_open:
  assumes "fs_inv s"
  shows "keeps_entries (run_file (CallOpen path flags)) s"
  unfolding run_file.simps wp_reply
  by (rule wp_fs_open[OF assms]) (auto simp: quiet_entries becomes_def entries_of_blob_changes split: if_splits)

lemma keeps_write: "fs_inv s \<Longrightarrow> unat offset + length data < 2 ^ 63 \<Longrightarrow> keeps_entries (run_file (CallWrite fd offset data)) s"
  unfolding run_file.simps wp_reply
  by (rule wp_fs_write_fd) (auto simp: quiet_entries entries_of_blob_changes)

lemma keeps_read: "fs_inv s \<Longrightarrow> unat offset + unat len < 2 ^ 64 \<Longrightarrow> keeps_entries (run_file (CallRead fd offset len)) s"
  unfolding run_file.simps wp_reply
  by (rule wp_fs_read_fd) (auto simp: quiet_entries)

lemma keeps_close:
  assumes "fs_ok s"
  shows "keeps_entries (run_file (CallClose fd)) s"
  unfolding run_file.simps wp_reply
proof (rule wp_fs_close_fd)
  note ok = ok_simps[OF assms]
  fix x s' assume x: "fdtable_get fd (fs_fdtable s) = Inr x"
    and d: "close_deletes s fd (fe_inode x) \<longrightarrow> \<not> referenced (fs_db s) (fe_inode x)"
    and s': "becomes s (if close_deletes s fd (fe_inode x) then del_node (fe_inode x) (fs_db s) else fs_db s)
        (closed_fds s fd) (closed_locks s fd (fe_inode x)) (fs_watchers s) s'"
  have "fe_inode x \<noteq> ROOT_INODE" using x ok(5) by (auto simp: fds_ok_def)
  then have "entry_of (del_node (fe_inode x) (fs_db s)) = entry_of (fs_db s)" if "close_deletes s fd (fe_inode x)"
    using unreferenced_no_children(1)[OF ok(3,4)] d that by (auto simp: fun_eq_iff)
  then show "entry_of (fs_db s') = entry_of (fs_db s)" using s' by (auto simp: becomes_def split: if_splits)
qed (auto simp: quiet_entries becomes_def)

lemma keeps_file: "fs_ok s \<Longrightarrow> file_call_ok s c \<Longrightarrow> \<nexists>path flags mode. c = CallCreate path flags mode \<Longrightarrow> keeps_entries (run_file c) s"
  using ok_simps(1) by (cases c) (auto simp del: run_file.simps intro!: keeps_open keeps_write keeps_read keeps_close)

lemma keeps_attr: "keeps_entries (run_attr c) s"
  by (cases c; simp only: run_attr.simps wp_reply)
    (auto simp: quiet_entries node_updated_def becomes_def entries_map_node xattr_stored_def
      intro!: wp_fs_chmod wp_fs_chown wp_fs_utimes wp_fs_setxattr wp_fs_removexattr)

lemma keeps_query: "fs_inv s \<Longrightarrow> keeps_entries (run_query c) s"
  by (cases c; simp only: run_query.simps wp_reply)
    (auto simp: wp_eqs quiet_entries fs_posix_getlk_def fs_ofd_getlk_def split: sum.split
      intro!: wp_fs_stat wp_fs_getxattr wp_fs_listxattr wp_fs_readlink wp_path_of_inode wp_fs_readdir inv_tree)

lemma keeps_lock: "keeps_entries (run_lock c) s"
  by (cases c) (auto simp: wp_reply wp_with_locks fs_posix_lock_def fs_ofd_lock_def fs_flock_def split: sum.split prod.split)

lemma keeps_other: "keeps_entries (run_other c) s"
  by (cases c) (auto simp: wp_eqs quiet_entries becomes_def intro!: wp_fs_fsync wp_fs_watch, auto simp: wp_def split: prod.split)

lemma refined_create:
  assumes inv: "fs_inv s"
  shows "steps (Files (CallCreate path flags mode)) (run_file (CallCreate path flags mode)) s"
  unfolding run_file.simps wp_reply
proof (rule wp_fs_create[OF inv])
  fix s' i assume c: "create_check s path flags = Inr (Some i)"
    and s': "becomes s (fs_db s) (snd (opened s i flags)) (fs_locks s) (fs_watchers s) s'"
  obtain p n where "parent_lookup (fs_db s) path = Inr (p, n)" "entry_of (fs_db s) p n \<noteq> None"
    using c by (auto simp: create_check_def split: split_outcome)
  then have "view (fs_db s) (comps path) \<noteq> None" using entry_view[OF inv_tree[OF inv]] by simp
  then show "refined (Files (CallCreate path flags mode)) s s'" using s' by (auto simp: becomes_def)
next
  fix s' p n i assume c: "add_check s path = Inr (p, n)" and s': "becomes s
        (create_db p n mode (fs_caller_uid s) (fs_caller_gid s) (now1 s) (fs_db s)) (snd (opened s i flags)) (fs_locks s)
        (notify Create path File i None None (now2 s) (fs_watchers s)) s'"
  show "refined (Files (CallCreate path flags mode)) s s'"
    using view_added[OF inv c _ leaf_new[OF inv], of "fs_db s'"] s' by (auto simp: becomes_def entries_added)
qed (simp add: quiet_unchanged)

lemma keeps_steps:
  assumes inv: "fs_inv s" and "keeps_entries m s" and "\<And>new v. abs_call c new v = v"
  shows "steps c m s"
  by (rule wp_mono[OF assms(2)]) (simp_all add: assms(3) unchanged_entries[OF inv])

lemma keeps_unchanged: "fs_inv s \<Longrightarrow> keeps_entries m s \<Longrightarrow> wp m (\<lambda>_. unchanged s) (\<lambda>_. unchanged s) s"
  by (erule wp_mono) (simp_all add: unchanged_entries)

lemma refined_call: "fs_ok s \<Longrightarrow> call_ok s c \<Longrightarrow> steps c (run c) s"
proof (induction c arbitrary: s)
  case (Names c)
  note inv = ok_simps(1)[OF Names(1)]
  show ?case unfolding run.simps
    by (cases c) (simp_all only: refined_mkdir[OF inv] refined_symlink[OF inv] refined_link[OF inv] refined_rmdir[OF inv]
        refined_unlink[OF inv] refined_rename[OF inv])
next
  case (Files c)
  note inv = ok_simps(1)[OF Files(1)]
  show ?case
  proof (cases "\<exists>path flags mode. c = CallCreate path flags mode")
    case True
    then show ?thesis using refined_create[OF inv] by (auto simp del: run_file.simps abs_call.simps)
  next
    case False
    then have "abs_call (Files c) new v = v" for new v by (cases c) simp_all
    from keeps_steps[OF inv keeps_file[OF Files(1) _ False] this] show ?thesis using Files(2) by (simp del: run_file.simps)
  qed
next
  case (CallAsUser u g c)
  let ?s = "s\<lparr>fs_caller_uid := u, fs_caller_gid := g\<rparr>"
  have "fs_ok ?s" and "call_ok ?s c"
    using CallAsUser.prems call_ok_cong[of ?s s c] by (simp_all add: fs_ok_def fs_inv_def)
  from CallAsUser.IH[OF this] show ?case unfolding run.simps wp_as_user by (rule wp_mono) auto
qed (use ok_simps(1) in \<open>auto simp del: run_attr.simps run_query.simps run_lock.simps run_other.simps
    intro!: keeps_unchanged keeps_attr keeps_query keeps_lock keeps_other\<close>)

lemma run_refines:
  assumes ok: "fs_ok s" and "call_ok s c" and "run c s = (r, s')"
  shows "case r of Inr _ \<Rightarrow> view (fs_db s') = abs_call c (next_inode (fs_db s)) (view (fs_db s))
    | Inl _ \<Rightarrow> view (fs_db s') = view (fs_db s)
        \<or> unlinks c \<and> view (fs_db s') = abs_call c (next_inode (fs_db s)) (view (fs_db s))"
proof -
  have "fs_ok s'" using fs_effect_ok[OF run_is_effect(1)[OF ok_simps(1)[OF ok] assms(2,3)] ok] .
  then show ?thesis using wp_run[OF refined_call[OF ok assms(2)] assms(3)] ok_simps(3) by (auto split: sum.splits)
qed

text \<open>
  C2 (Filesystem): the names of the filesystem are a map from paths to nodes, and every call in a reachable state
  refines the operation on this map that its name says: \<open>mkdir\<close>, \<open>create\<close> and \<open>symlink\<close> add a path to a new node,
  \<open>link\<close> a path to the node of another, \<open>unlink\<close> and \<open>rmdir\<close> take one path away, \<open>rename\<close> moves all paths below its
  source to its target in place of what was there, and all other calls leave the map as it is.  A call that fails leaves it, too,
  unless it is an \<open>unlink\<close> that took the name away and then could not delete the node.
\<close>

theorem calls_refine_paths:
  assumes "fs_ok s0" and "reachable s0 s" and "call_ok s c" and "run c s = (r, s')"
  shows "case r of Inr _ \<Rightarrow> view (fs_db s') = abs_call c (next_inode (fs_db s)) (view (fs_db s))
    | Inl _ \<Rightarrow> view (fs_db s') = view (fs_db s)
        \<or> unlinks c \<and> view (fs_db s') = abs_call c (next_inode (fs_db s)) (view (fs_db s))"
  by (rule run_refines[OF reachable_ok[OF assms(2,1)] assms(3,4)])

theorem calls_refine_paths_witness:
  "\<exists>s'. run (Names (CallRename ''/f'' ''/g'')) file_fs = (Inr ReUnit, s')
    \<and> view (fs_db s') [''f''] = None \<and> view (fs_db s') [''g''] = Some 2 \<and> view (fs_db s') [] = Some 1"
proof -
  have "\<exists>s'. fs_rename ''/f'' ''/g'' file_fs = (Inr (), s')"
    by (simp add: fs_rename_def eval_io eval_tables eval_fs eval_demo path_g file_fs_def file_db_def)
  then obtain s' where run: "run (Names (CallRename ''/f'' ''/g'')) file_fs = (Inr ReUnit, s')"
    by (auto simp: reply_def bindE_def ret_def)
  have v: "view (fs_db file_fs) [''f''] = Some 2" "view (fs_db file_fs) [''g''] = None" "view (fs_db file_fs) [] = Some 1"
    "comps ''/f'' = [''f'']" "comps ''/g'' = [''g'']"
    by (simp_all add: view_def file_fs_simps ROOT_INODE_def comps_def demo_path path_g)
  have "view (fs_db s') = moved (view (fs_db file_fs)) [''f''] [''g'']"
    using calls_refine_paths[OF file_fs_ok(1) reachable.start _ run] v by simp
  then have "view (fs_db s') [''f''] = None" "view (fs_db s') [''g''] = Some 2" "view (fs_db s') [] = Some 1"
    using v by (simp_all add: moved_def)
  with run show ?thesis by blast
qed

end
