(* ===== verification/Fs_Events.thy ===== *)
theory Fs_Events
  imports Fs_View
begin

text \<open>
  Watching: every call that succeeds in changing which path leads to which node sends one event,
  with the path and the node of the change, to the subscriptions that match it.
\<close>

section \<open>What is announced\<close>

text \<open>The kind of event, its path, and source and target of a move.\<close>

type_synonym announcement = "event_kind \<times> string \<times> string option \<times> string option"

fun notice_of_name :: "name_call \<Rightarrow> announcement" where
  "notice_of_name (CallMkdir path mode) = (Create, path, None, None)"
| "notice_of_name (CallSymlink target path) = (Create, path, None, None)"
| "notice_of_name (CallLink target path) = (Create, path, None, None)"
| "notice_of_name (CallUnlink path) = (Remove, path, None, None)"
| "notice_of_name (CallRmdir path) = (Remove, path, None, None)"
| "notice_of_name (CallRename src dst) = (Move, dst, Some src, Some dst)"

fun notice :: "fs_call \<Rightarrow> announcement option" where
  "notice (Names c) = Some (notice_of_name c)"
| "notice (Files (CallCreate path flags mode)) = Some (Create, path, None, None)"
| "notice (CallAsUser u g c) = notice c"
| "notice c = None"

definition announces :: "event \<Rightarrow> announcement" where
  "announces ev = (ev_kind ev, ev_path ev, ev_src_path ev, ev_dst_path ev)"

text \<open>An event about a path and the node it leads to, before a removal and after any other change.\<close>

definition event_true :: "filesystem \<Rightarrow> filesystem \<Rightarrow> event \<Rightarrow> bool" where
  "event_true s s' ev \<longleftrightarrow>
     (if ev_kind ev = Remove then view (fs_db s) else view (fs_db s')) (comps (ev_path ev)) = Some (ev_inode ev)"

definition told :: "fs_call \<Rightarrow> filesystem \<Rightarrow> filesystem \<Rightarrow> bool" where
  "told c s s' \<longleftrightarrow> (\<exists>ev. notice c = Some (announces ev) \<and> event_true s s' ev \<and> fs_watchers s' = watch_emit ev (fs_watchers s))"

lemma toldI:
  assumes "fs_watchers s' = notify kind path nk ino src dst now (fs_watchers s)"
    and "notice c = Some (kind, path, src, dst)"
    and "(if kind = Remove then view (fs_db s) else view (fs_db s')) (comps path) = Some ino"
  shows "told c s s'"
  unfolding told_def
  by (rule exI[of _ "\<lparr>ev_kind = kind, ev_path = path, ev_src_path = src, ev_dst_path = dst,
        ev_node_kind = nk, ev_inode = ino, ev_timestamp_ns = now\<rparr>"])
    (use assms in \<open>simp add: announces_def event_true_def notify_def\<close>)

abbreviation announced :: "fs_call \<Rightarrow> filesystem \<Rightarrow> filesystem \<Rightarrow> bool" where
  "announced c s s' \<equiv> tree (fs_db s') \<longrightarrow> view (fs_db s') \<noteq> view (fs_db s) \<longrightarrow> told c s s'"

lemma told_added:
  assumes "fs_inv s" and "add_check s path = Inr (p, n)" and "tree (fs_db s')"
    and "\<And>x. entry_of (fs_db s) i x = None"
    and "\<And>q x. entry_of (fs_db s') q x = (if (q, x) = (p, n) then Some i else entry_of (fs_db s) q x)"
    and "fs_watchers s' = notify Create path nk i None None now (fs_watchers s)"
    and "notice c = Some (Create, path, None, None)"
  shows "told c s s'"
  by (rule toldI[OF assms(6,7)]) (simp add: view_added(1)[OF assms(1-5)])

lemma told_removed:
  assumes "fs_inv s" and "parent_lookup (fs_db s) path = Inr (p, n)" and "entry_of (fs_db s) p n = Some i"
    and "fs_watchers s' = notify Remove path nk i None None now (fs_watchers s)"
    and "notice c = Some (Remove, path, None, None)"
  shows "told c s s'"
  by (rule toldI[OF assms(4,5)]) (simp add: entry_view[OF inv_tree[OF assms(1)] assms(2)] assms(3))

lemma announced_link:
  assumes "fs_inv s" and "link_check s target path = Inr (p, n, i)"
    and "becomes s (link_db p n i now (fs_db s)) t l (notify Create path nk i None None now' (fs_watchers s)) s'"
  shows "announced (Names (CallLink target path)) s s'"
proof -
  have l: "\<not> has_kind (fs_db s) i Dir" "add_check s path = Inr (p, n)"
    using assms(2) by (auto simp: link_check_Inr has_kind_def)
  show ?thesis using told_added[OF assms(1) l(2) _ file_no_children[OF inv_tree[OF assms(1)] l(1)]] assms(3)
    by (simp add: becomes_def entries_added)
qed

lemma announced_rename:
  assumes inv: "fs_inv s" and mv: "rename_moved s src dst s'"
  shows "announced (Names (CallRename src dst)) s s'"
proof (intro impI)
  assume t': "tree (fs_db s')" and ne: "view (fs_db s') \<noteq> view (fs_db s)"
  obtain sp sn p n i k where ren: "renames s src dst sp sn p n i k"
    and re: "renamed k i sp sn p n (now1 s) (fs_db s) (fs_db s')"
    and w: "fs_watchers s' = notify Move dst k i (Some src) (Some dst) (now2 s) (fs_watchers s)"
    using mv by (auto simp: rename_moved_def becomes_def)
  note r = ren[unfolded renames_def]
  have src: "view (fs_db s) (comps src) = Some i" using entry_view[OF inv_tree[OF inv], of src sp sn] r by simp
  have "entry_of (fs_db s) p n \<noteq> Some i"
  proof
    assume e: "entry_of (fs_db s) p n = Some i"
    then have "(p, n) = (sp, sn)" using re by (auto simp: renamed_def split: if_splits)
    then have "entry_of (fs_db s') = entry_of (fs_db s)"
      using e entries_renamed[OF inv_tree[OF inv] _ re] r by (auto simp: fun_eq_iff)
    then show False using view_cong[OF inv_tree[OF inv] t'] ne by simp
  qed
  from view_renamed(1)[OF inv ren re t' this] src have "view (fs_db s') (comps dst) = Some i" by (simp add: moved_def)
  then show "told (Names (CallRename src dst)) s s'" by (intro toldI[OF w]) simp_all
qed

abbreviation tells :: "fs_call \<Rightarrow> reply fs \<Rightarrow> filesystem \<Rightarrow> bool" where
  "tells c m s \<equiv> wp m (\<lambda>_. announced c s) (\<lambda>_ _. True) s"

lemma announced_names:
  assumes inv: "fs_inv s"
  shows "tells (Names c) (run_name c) s"
proof (cases c)
  case (CallMkdir path mode)
  show ?thesis unfolding CallMkdir run_name.simps wp_reply
    by (rule wp_fs_mkdir[OF inv]) (auto simp: becomes_def entries_added intro!: told_added[OF inv _ _ leaf_new[OF inv]])
next
  case (CallSymlink target path)
  show ?thesis unfolding CallSymlink run_name.simps wp_reply
    by (rule wp_fs_symlink[OF inv]) (auto simp: becomes_def entries_added intro!: told_added[OF inv _ _ leaf_new[OF inv]])
next
  case (CallLink target path)
  show ?thesis unfolding CallLink run_name.simps wp_reply
    by (rule wp_fs_link[OF inv]) (simp, rule announced_link[OF inv])
next
  case (CallUnlink path)
  show ?thesis unfolding CallUnlink run_name.simps wp_reply
    by (rule wp_fs_unlink[OF inv]) (auto simp: becomes_def unlink_check_Inr intro: told_removed[OF inv])
next
  case (CallRmdir path)
  show ?thesis unfolding CallRmdir run_name.simps wp_reply
    by (rule wp_fs_rmdir[OF inv]) (auto simp: becomes_def rmdir_check_Inr intro: told_removed[OF inv])
next
  case (CallRename src dst)
  show ?thesis unfolding CallRename run_name.simps wp_reply
    by (rule wp_fs_rename[OF inv]) (use announced_rename[OF inv] in \<open>auto simp: quiet_unchanged\<close>)
qed

lemma announced_create:
  assumes inv: "fs_inv s"
  shows "tells (Files (CallCreate path flags mode)) (run_file (CallCreate path flags mode)) s"
  unfolding run_file.simps wp_reply
  by (rule wp_fs_create[OF inv]) (auto simp: becomes_def entries_added intro!: told_added[OF inv _ _ leaf_new[OF inv]])

lemma keeps_tells: "fs_inv s \<Longrightarrow> keeps_entries m s \<Longrightarrow> tells c m s"
  by (erule wp_mono) (use unchanged_entries in blast)+

lemma announced_call: "fs_ok s \<Longrightarrow> call_ok s c \<Longrightarrow> tells c (run c) s"
proof (induction c arbitrary: s)
  case (Names c)
  then show ?case unfolding run.simps by (intro announced_names ok_simps(1))
next
  case (Files c)
  note inv = ok_simps(1)[OF Files(1)]
  show ?case
  proof (cases "\<exists>path flags mode. c = CallCreate path flags mode")
    case True
    then show ?thesis using announced_create[OF inv] by (auto simp del: run_file.simps)
  next
    case False
    have "file_call_ok s c" using Files(2) by simp
    from keeps_tells[OF inv keeps_file[OF Files(1) this False]] show ?thesis by simp
  qed
next
  case (Attrs c)
  show ?case unfolding run.simps by (rule keeps_tells[OF ok_simps(1)[OF Attrs(1)] keeps_attr])
next
  case (Queries c)
  note inv = ok_simps(1)[OF Queries(1)]
  show ?case unfolding run.simps by (rule keeps_tells[OF inv keeps_query[OF inv]])
next
  case (Locks c)
  show ?case unfolding run.simps by (rule keeps_tells[OF ok_simps(1)[OF Locks(1)] keeps_lock])
next
  case (Others c)
  show ?case unfolding run.simps by (rule keeps_tells[OF ok_simps(1)[OF Others(1)] keeps_other])
next
  case (CallAsUser u g c)
  let ?s = "s\<lparr>fs_caller_uid := u, fs_caller_gid := g\<rparr>"
  have "fs_ok ?s" and "call_ok ?s c"
    using CallAsUser.prems call_ok_cong[of ?s s c] by (simp_all add: fs_ok_def fs_inv_def)
  from CallAsUser.IH[OF this] show ?case unfolding run.simps wp_as_user
    by (rule wp_mono) (simp_all add: told_def event_true_def cong: if_cong split del: if_split)
qed

text \<open>
  C18 (Filesystem, WatchRegistry): a call that succeeds and changes which path leads to which node sends exactly one
  event: of the kind of the call, with the path it was given (both paths for a rename) and the node that the path leads to, and
  each subscription finds it at the end of its queue if one of the event's paths matches, and else nothing new.
\<close>

theorem changes_are_announced:
  assumes "fs_ok s0" and "reachable s0 s" and "call_ok s c" and "run c s = (Inr rep, s')"
    and "view (fs_db s') \<noteq> view (fs_db s)"
  shows "\<exists>ev. notice c = Some (announces ev) \<and> event_true s s' ev
    \<and> (\<forall>sid path rc. slot_wants sid path rc (fs_watchers s) \<longrightarrow> slot_queue sid (fs_watchers s')
          = slot_queue sid (fs_watchers s) @ (if wanted_by path rc ev then [ev] else []))"
proof -
  have ok: "fs_ok s" by (rule reachable_ok[OF assms(2,1)])
  have "tree (fs_db s')" using fs_effect_ok[OF run_is_effect(1)[OF ok_simps(1)[OF ok] assms(3,4)] ok] ok_simps(3) by blast
  then obtain ev where ev: "notice c = Some (announces ev)" "event_true s s' ev" "fs_watchers s' = watch_emit ev (fs_watchers s)"
    using wp_runQ[OF announced_call[OF ok assms(3)] assms(4)] assms(5) by (auto simp: told_def)
  moreover have "slot_queue sid (watch_emit ev r) = slot_queue sid r @ (if wanted_by path rc ev then [ev] else [])"
    if "slot_wants sid path rc r" for sid path rc r
    using that by (auto simp: slot_wants_def slot_queue_def slot_of_emit matches_slot_def list_ex_iff wanted_by_def
        split: option.splits)
  ultimately show ?thesis by auto
qed

text \<open>A subscriber to the root hears of the rename of \<open>/f\<close>.\<close>

definition watched_fs :: filesystem where
  "watched_fs = file_fs\<lparr>fs_watchers := snd (subscribe ''/'' False watch_registry_new)\<rparr>"

lemma watched_fs_ok: "fs_ok watched_fs" "fs_db watched_fs = fs_db file_fs"
  using file_fs_ok(1) by (simp_all add: watched_fs_def fs_ok_def fs_inv_def)

theorem changes_are_announced_witness:
  "\<exists>s' ev. run (Names (CallRename ''/f'' ''/g'')) watched_fs = (Inr ReUnit, s')
    \<and> slot_queue 1 (fs_watchers s') = [ev] \<and> announces ev = (Move, ''/g'', Some ''/f'', Some ''/g'')"
proof -
  have "\<exists>s'. fs_rename ''/f'' ''/g'' watched_fs = (Inr (), s')"
    by (simp add: fs_rename_def eval_io eval_tables eval_fs eval_demo path_g file_fs_def file_db_def watched_fs_def subscribe_def)
  then obtain s' where run: "run (Names (CallRename ''/f'' ''/g'')) watched_fs = (Inr ReUnit, s')"
    by (auto simp: reply_def bindE_def ret_def)
  have v: "view (fs_db watched_fs) [''f''] = Some 2" "view (fs_db watched_fs) [''g''] = None" "comps ''/f'' = [''f'']" "comps ''/g'' = [''g'']"
    by (simp_all add: view_def watched_fs_ok file_fs_simps ROOT_INODE_def comps_def demo_path path_g)
  have "view (fs_db s') = moved (view (fs_db watched_fs)) [''f''] [''g'']"
    using run_refines[OF watched_fs_ok(1) _ run] v by simp
  then have "view (fs_db s') [''f''] = None" by (simp add: moved_def)
  then have ne: "view (fs_db s') \<noteq> view (fs_db watched_fs)" using v(1) by auto
  obtain ev where ev: "announces ev = (Move, ''/g'', Some ''/f'', Some ''/g'')"
    "slot_queue 1 (fs_watchers s') = slot_queue 1 (fs_watchers watched_fs) @ (if wanted_by ''/'' False ev then [ev] else [])"
    using changes_are_announced[OF watched_fs_ok(1) reachable.start _ run ne]
    by (auto simp: watched_fs_def subscribe_def watch_registry_new_def slot_wants_def slot_of_def)
  then have "wanted_by ''/'' False ev"
    by (auto simp: wanted_by_def event_paths_def announces_def path_matches_def watch_parent_of_path_def)
  moreover have "slot_queue 1 (fs_watchers watched_fs) = []"
    by (simp add: watched_fs_def subscribe_def watch_registry_new_def slot_queue_def slot_of_def)
  ultimately show ?thesis using run ev by auto
qed

end
