(* ===== verification/Fs_Contents.thy ===== *)
theory Fs_Contents
  imports Fs_View
begin

text \<open>
  The other half of the abstract filesystem: \<open>contents\<close> gives each node its bytes, and every call refines
  an operation on byte lists.  A successful write overwrites the list of one node, a successful open may
  empty it, and no other call, and no call that fails, changes the bytes of any node.
\<close>

section \<open>The bytes of a node\<close>

definition contents :: "u64 \<Rightarrow> db \<Rightarrow> inode \<Rightarrow> byte list" where
  "contents cs d i = (case node_of d i of None \<Rightarrow> [] | Some c \<Rightarrow> file_range d i (unat cs) 0 (unat (n_size c)))"

text \<open>What they depend on.\<close>

definition data_of :: "db \<Rightarrow> inode \<Rightarrow> (u64 \<times> (u64 \<Rightarrow> byte list option)) option" where
  "data_of d i = map_option (\<lambda>c. (n_size c, blob_of d i)) (node_of d i)"

lemma contents_data: "data_of d' i = data_of d i \<Longrightarrow> contents cs d' i = contents cs d i"
  by (cases "node_of d i"; cases "node_of d' i") (auto simp: contents_def data_of_def file_range_def file_byte_def)

lemma data_of_map_node:
  "(\<And>n. n_size (f n) = n_size n) \<Longrightarrow> data_of (map_node i f d) j = data_of d j"
  by (simp add: data_of_def option.map_comp o_def)

lemma data_of_simps [simp]:
  "data_of (touch i now d) j = data_of d j" "data_of (add_nlink i k now d) j = data_of d j"
  "data_of (add_symlink i t d) j = data_of d j" "data_of (add_entry p n i d) j = data_of d j"
  "data_of (del_entry p n d) j = data_of d j" "data_of (move_entry sp sn p n i d) j = data_of d j"
  "data_of (put_xattr i a v d) j = data_of d j" "data_of (set_xattr i a v d) j = data_of d j"
  "data_of (del_xattr i a d) j = data_of d j"
  "data_of (del_node i d) j = (if j = i then None else data_of d j)"
  "data_of (new_entry p n cols d) j = (if j = next_inode d then Some (n_size cols, blob_of d j) else data_of d j)"
  by (auto simp: touch_def add_nlink_def data_of_map_node set_time_cols_def set_if_def add_nlink_cols_def split: option.split)
    (auto simp: data_of_def move_entry_def new_entry_def)

text \<open>Nodes keep their data or go; new nodes are empty.\<close>

definition data_kept :: "db \<Rightarrow> db \<Rightarrow> bool" where
  "data_kept d d' \<longleftrightarrow> (\<forall>i. data_of d' i = None \<or> data_of d' i = data_of d i
     \<or> node_of d i = None \<and> map_option fst (data_of d' i) = Some 0)"

lemma data_kept_contents:
  assumes "data_kept d d'" and "node_of d' i = Some c"
  shows "contents cs d' i = contents cs d i"
proof -
  have "data_of d' i = Some (n_size c, blob_of d' i)" using assms(2) by (simp add: data_of_def)
  then have "data_of d' i = data_of d i \<or> node_of d i = None \<and> n_size c = 0"
    using assms(1)[unfolded data_kept_def, THEN spec, of i] by (elim disjE) simp_all
  then show ?thesis
  proof
    assume "node_of d i = None \<and> n_size c = 0"
    then show ?thesis using assms(2) by (simp add: contents_def file_range_def)
  qed (rule contents_data)
qed

lemma data_keptI: "(\<And>i. data_of d' i = None \<or> data_of d' i = data_of d i) \<Longrightarrow> data_kept d d'"
  unfolding data_kept_def by blast

lemma data_tx:
  assumes "tree d"
  shows "data_kept d (mkdir_db p n m u g now d)" "data_kept d (create_db p n m u g now d)"
    "data_kept d (symlink_db x p n u g now d)" "data_kept d (link_db p n i now d)"
    "data_kept d (unlink_db p n i now d)" "data_kept d (rmdir_db p n i now d)"
    "data_kept d (del_node i (unlink_db p n i now d))" "data_kept d d" "data_kept d (del_node i d)"
  using next_inode_free[OF assms]
  by (auto simp: data_kept_def mkdir_db_def create_db_def symlink_db_def link_db_def unlink_db_def rmdir_db_def)

lemma data_replaced: "replaced sp p n j k now d d' \<Longrightarrow> data_of d' i = None \<or> data_of d' i = data_of d i"
  by (auto simp: replaced_def replace_db_def Let_def split: if_splits)

lemma data_move: "data_of (move_db k i sp sn p n now d) j = data_of d j"
  by (simp add: move_db_def Let_def data_of_map_node)

lemma data_renamed: "renamed k i sp sn p n now d d' \<Longrightarrow> data_kept d d'"
  using data_replaced by (fastforce simp: renamed_def data_move intro!: data_keptI split: if_splits)

lemma data_unlink: "tree (fs_db s) \<Longrightarrow> data_kept (fs_db s) (unlink_final s p n i)"
  by (simp add: unlink_final_def Let_def data_tx)

section \<open>Calls that keep all bytes\<close>

abbreviation keeps_data :: "reply fs \<Rightarrow> filesystem \<Rightarrow> bool" where
  "keeps_data m s \<equiv> wp m (\<lambda>_ s'. data_kept (fs_db s) (fs_db s')) (\<lambda>_ s'. data_kept (fs_db s) (fs_db s')) s"

lemma data_self [simp]: "data_kept d d"
  by (simp add: data_kept_def)

lemma quiet_data: "fs_quiet s s' \<Longrightarrow> data_kept (fs_db s) (fs_db s')"
  by (simp add: fs_quiet_def)

lemma data_names:
  assumes inv: "fs_inv s"
  shows "keeps_data (run_name c) s"
  by (cases c; simp only: run_name.simps wp_reply)
    (auto simp: quiet_data becomes_def data_tx[OF inv_tree[OF inv]] data_unlink[OF inv_tree[OF inv]] rename_moved_def data_renamed
      intro!: wp_fs_mkdir[OF inv] wp_fs_symlink[OF inv] wp_fs_link[OF inv] wp_fs_rmdir[OF inv] wp_fs_unlink[OF inv] wp_fs_rename[OF inv])

lemma data_updates:
  "data_of d1 = data_of d \<Longrightarrow> data_kept d (map_node i (set_owner_cols m u g now) d1)"
  "data_of d1 = data_of d \<Longrightarrow> data_kept d (map_node i (set_time_cols a t c) d1)"
  "data_of d1 = data_of d \<Longrightarrow> data_kept d d1"
  by (auto intro!: data_keptI simp: data_of_map_node set_owner_cols_def set_time_cols_def set_if_def split: option.split)

lemma data_of_xattrs: "data_of (put_xattr i a v d) = data_of d" "data_of (set_xattr i a v d) = data_of d"
  "data_of (del_xattr i a d) = data_of d"
  by (simp_all add: fun_eq_iff)

lemma data_attr: "keeps_data (run_attr c) s"
  by (cases c; simp only: run_attr.simps wp_reply)
    (auto simp: quiet_data node_updated_def becomes_def xattr_stored_def data_updates data_of_xattrs
      intro!: wp_fs_chmod wp_fs_chown wp_fs_utimes wp_fs_setxattr wp_fs_removexattr)

lemma data_query: "fs_inv s \<Longrightarrow> keeps_data (run_query c) s"
  by (cases c; simp only: run_query.simps wp_reply)
    (auto simp: wp_eqs quiet_data fs_posix_getlk_def fs_ofd_getlk_def split: sum.split
      intro!: wp_fs_stat wp_fs_getxattr wp_fs_listxattr wp_fs_readlink wp_path_of_inode wp_fs_readdir inv_tree)

lemma data_lock: "keeps_data (run_lock c) s"
  by (cases c) (auto simp: wp_reply wp_with_locks fs_posix_lock_def fs_ofd_lock_def fs_flock_def split: sum.split prod.split)

lemma data_other: "keeps_data (run_other c) s"
  by (cases c) (auto simp: wp_eqs quiet_data becomes_def intro!: wp_fs_fsync wp_fs_watch, auto simp: wp_def split: prod.split)

lemma data_create:
  assumes "fs_inv s"
  shows "keeps_data (run_file (CallCreate path flags mode)) s"
  unfolding run_file.simps wp_reply
  by (rule wp_fs_create[OF assms]) (auto simp: quiet_data becomes_def data_tx[OF inv_tree[OF assms]])

lemma data_close:
  assumes "fs_inv s"
  shows "keeps_data (run_file (CallClose fd)) s"
  unfolding run_file.simps wp_reply
  by (rule wp_fs_close_fd) (auto simp: quiet_data becomes_def data_tx[OF inv_tree[OF assms]])

lemma data_read:
  assumes "fs_inv s" and "unat offset + unat len < 2 ^ 64"
  shows "keeps_data (run_file (CallRead fd offset len)) s"
  unfolding run_file.simps wp_reply
  by (rule wp_fs_read_fd[OF assms]) (auto simp: quiet_data)

section \<open>Writes and truncations\<close>

text \<open>A byte list overwritten at an offset, with zeroes in the gap if the offset is past its end.\<close>

definition overwrite :: "nat \<Rightarrow> byte list \<Rightarrow> byte list \<Rightarrow> byte list" where
  "overwrite off data bs = (if data = [] then bs
     else take off bs @ replicate (off - length bs) 0 @ data @ drop (off + length data) bs)"

lemma length_overwrite: "length (overwrite off data bs) = (if data = [] then length bs else max (length bs) (off + length data))"
  by (auto simp: overwrite_def min_def max_def)

lemma nth_overwrite:
  assumes "x < length (overwrite off data bs)"
  shows "overwrite off data bs ! x = (if off \<le> x \<and> x < off + length data then data ! (x - off)
     else if x < length bs then bs ! x else 0)"
  using assms by (auto simp: overwrite_def nth_append min_def not_less)

lemma length_contents: "node_of d i = Some c \<Longrightarrow> length (contents cs d i) = unat (n_size c)"
  by (simp add: contents_def file_range_def)

lemma nth_contents: "node_of d i = Some c \<Longrightarrow> x < unat (n_size c) \<Longrightarrow> contents cs d i ! x = file_byte d i (unat cs) x"
  by (simp add: contents_def file_range_def)

lemma unat_new_size:
  assumes "unat offset + length data < 2 ^ 63"
  shows "unat (new_size cols offset data) = (if data = [] then unat (n_size cols) else max (unat (n_size cols)) (unat offset + length data))"
proof -
  have "unat (of_nat (length data) :: u64) = length data" using assms by (intro unat_of_nat64) simp
  then have "unat (offset + of_nat (length data)) = unat offset + length data"
    using assms by (simp add: unat_plus_simple[THEN iffD1] word_le_nat_alt unat_word_ariths)
  then show ?thesis by (simp add: new_size_def max_def word_le_nat_alt)
qed

lemma contents_write:
  assumes inv: "fs_inv s" and cols: "node_of (fs_db s) i = Some cols" and len: "unat offset + length data < 2 ^ 63"
    and w: "write_db i (fs_chunk_size s) (unat offset) data (new_size cols offset data) now (fs_db s) d'"
  shows "contents (fs_chunk_size s) d' j
    = (if j = i then overwrite (unat offset) data (contents (fs_chunk_size s) (fs_db s) i) else contents (fs_chunk_size s) (fs_db s) j)"
proof -
  let ?cs = "fs_chunk_size s" and ?d = "fs_db s" and ?sz = "new_size cols offset data"
  obtain d1 where d1: "range_written ?d i (unat ?cs) (unat offset) data d1" and d': "d' = map_node i (set_size_cols ?sz now now) d1"
    using w by (auto simp: write_db_def)
  have nodes: "node_of d1 = node_of ?d" using d1 blobs_only_same[of ?d d1] by (simp add: range_written_def)
  show ?thesis
  proof (cases "j = i")
    case True
    have node: "node_of d' i = Some (set_size_cols ?sz now now cols)" using cols nodes by (simp add: d')
    have fit: "chunks_fit ?d i (unat ?cs) (unat (n_size cols))" and small: "unat (n_size cols) < 2 ^ 63"
      using inv_extents[OF inv cols] by auto
    have pos: "0 < unat ?cs" using inv_chunk[OF inv] by (simp add: unat_gt_0)
    have "contents ?cs d' i = overwrite (unat offset) data (contents ?cs ?d i)"
    proof (rule nth_equalityI)
      show len': "length (contents ?cs d' i) = length (overwrite (unat offset) data (contents ?cs ?d i))"
        using unat_new_size[OF len] by (simp add: length_contents[OF node] length_contents[OF cols] length_overwrite)
      fix x assume x: "x < length (contents ?cs d' i)"
      then have "x < 2 ^ 64" using small len unat_new_size[OF len]
        by (auto simp: length_contents[OF node] split: if_splits)
      then have byte: "file_byte d' i (unat ?cs) x
          = (if unat offset \<le> x \<and> x < unat offset + length data then data ! (x - unat offset) else file_byte ?d i (unat ?cs) x)"
        using d1 by (simp add: d' file_byte_def range_written_def)
      have past: "\<not> x < unat (n_size cols) \<Longrightarrow> file_byte ?d i (unat ?cs) x = 0"
        using chunks_fit_past_end[OF fit pos _ \<open>x < 2 ^ 64\<close>] by simp
      have "contents ?cs d' i ! x = file_byte d' i (unat ?cs) x"
        using x by (intro nth_contents[OF node]) (simp add: length_contents[OF node])
      then show "contents ?cs d' i ! x = overwrite (unat offset) data (contents ?cs ?d i) ! x"
        using x len' past by (simp add: byte nth_overwrite length_contents[OF cols] nth_contents[OF cols])
    qed
    then show ?thesis using True by simp
  next
    case False
    have "data_of d' j = data_of ?d j" using d1 False nodes by (simp add: d' data_of_def range_written_def)
    from contents_data[OF this] show ?thesis using False by simp
  qed
qed

lemma contents_trunc:
  assumes t: "trunc_db i cs now d d'"
  shows "contents cs d' j = (if j = i then [] else contents cs d j)"
proof -
  obtain d1 where d1: "range_truncated d i (unat cs) 0 d1" and d': "d' = map_node i (set_size_cols 0 now now) d1"
    using t by (auto simp: trunc_db_def)
  have nodes: "node_of d1 = node_of d" using d1 blobs_only_same[of d d1] by (simp add: range_truncated_def)
  show ?thesis
  proof (cases "j = i")
    case True
    then show ?thesis by (auto simp: d' contents_def file_range_def set_size_cols_def split: option.split)
  next
    case False
    then have "data_of d' j = data_of d j" using d1 nodes by (simp add: d' data_of_def range_truncated_def)
    from contents_data[OF this] show ?thesis using False by simp
  qed
qed

section \<open>The refinement\<close>

text \<open>What a call that succeeds does to the bytes of a node.\<close>

fun abs_data :: "fs_call \<Rightarrow> filesystem \<Rightarrow> inode \<Rightarrow> byte list \<Rightarrow> byte list" where
  "abs_data (Files (CallWrite fd offset data)) s i bs = (if write_check s fd = Inr i then overwrite (unat offset) data bs else bs)"
| "abs_data (Files (CallOpen path flags)) s i bs = (if flags AND O_TRUNC \<noteq> 0 \<and> fs_open_check s path flags = Inr i then [] else bs)"
| "abs_data (CallAsUser u g c) s i bs = abs_data c (s\<lparr>fs_caller_uid := u, fs_caller_gid := g\<rparr>) i bs"
| "abs_data c s i bs = bs"

abbreviation bytes_of :: "filesystem \<Rightarrow> inode \<Rightarrow> byte list" where
  "bytes_of s \<equiv> contents (fs_chunk_size s) (fs_db s)"

abbreviation steps_data :: "fs_call \<Rightarrow> reply fs \<Rightarrow> filesystem \<Rightarrow> bool" where
  "steps_data c m s \<equiv> wp m
     (\<lambda>_ s'. \<forall>i. node_of (fs_db s') i \<noteq> None \<longrightarrow> contents (fs_chunk_size s) (fs_db s') i = abs_data c s i (bytes_of s i))
     (\<lambda>_ s'. \<forall>i. node_of (fs_db s') i \<noteq> None \<longrightarrow> contents (fs_chunk_size s) (fs_db s') i = bytes_of s i) s"

lemma keeps_data_steps: "keeps_data m s \<Longrightarrow> (\<And>i bs. abs_data c s i bs = bs) \<Longrightarrow> steps_data c m s"
  by (erule wp_mono) (auto dest: data_kept_contents)

lemma steps_write:
  assumes "fs_inv s" and "unat offset + length data < 2 ^ 63"
  shows "steps_data (Files (CallWrite fd offset data)) (run_file (CallWrite fd offset data)) s"
  unfolding run_file.simps wp_reply
  by (rule wp_fs_write_fd[OF assms]) (auto simp: contents_write[OF assms(1) _ assms(2)] fs_quiet_def)

lemma steps_open:
  assumes "fs_inv s"
  shows "steps_data (Files (CallOpen path flags)) (run_file (CallOpen path flags)) s"
  unfolding run_file.simps wp_reply
  by (rule wp_fs_open[OF assms]) (auto simp: contents_trunc becomes_def fs_quiet_def split: if_splits)

lemma steps_files:
  assumes "fs_inv s" and "file_call_ok s c"
  shows "steps_data (Files c) (run_file c) s"
proof (cases c)
  case (CallCreate path flags mode)
  show ?thesis unfolding CallCreate by (rule keeps_data_steps[OF data_create[OF assms(1)]]) simp
next
  case (CallRead fd offset len)
  then have "unat offset + unat len < 2 ^ 64" using assms(2) by simp
  then show ?thesis unfolding CallRead by (intro keeps_data_steps data_read assms(1)) simp_all
next
  case (CallClose fd)
  show ?thesis unfolding CallClose by (rule keeps_data_steps[OF data_close[OF assms(1)]]) simp
next
  case (CallWrite fd offset data)
  then have "unat offset + length data < 2 ^ 63" using assms(2) by simp
  then show ?thesis unfolding CallWrite by (rule steps_write[OF assms(1)])
next
  case (CallOpen path flags)
  show ?thesis unfolding CallOpen by (rule steps_open[OF assms(1)])
qed

lemma steps_call: "fs_inv s \<Longrightarrow> call_ok s c \<Longrightarrow> steps_data c (run c) s"
proof (induction c arbitrary: s)
  case (Names c)
  show ?case unfolding run.simps by (rule keeps_data_steps[OF data_names[OF Names(1)]]) simp
next
  case (Files c)
  then show ?case unfolding run.simps by (intro steps_files) simp_all
next
  case (Attrs c)
  show ?case unfolding run.simps by (rule keeps_data_steps[OF data_attr]) simp
next
  case (Queries c)
  show ?case unfolding run.simps by (rule keeps_data_steps[OF data_query[OF Queries(1)]]) simp
next
  case (Locks c)
  show ?case unfolding run.simps by (rule keeps_data_steps[OF data_lock]) simp
next
  case (Others c)
  show ?case unfolding run.simps by (rule keeps_data_steps[OF data_other]) simp
next
  case (CallAsUser u g c)
  let ?s = "s\<lparr>fs_caller_uid := u, fs_caller_gid := g\<rparr>"
  have "fs_inv ?s" and "call_ok ?s c"
    using CallAsUser.prems call_ok_cong[of ?s s c] by (simp_all add: fs_inv_def)
  from CallAsUser.IH[OF this] show ?case unfolding run.simps wp_as_user by (rule wp_mono) simp_all
qed

text \<open>
  C3 (Filesystem): every call in a reachable state refines an operation on the bytes of the nodes: a write that
  succeeds overwrites those of the file its descriptor was opened on for writing, with zeroes up to an offset past the end; an open
  with \<open>O_TRUNC\<close> that succeeds empties the file; no other call, and no call that fails, changes the bytes of a
  node that is still there, and new nodes have none.
\<close>

theorem calls_refine_contents:
  assumes "fs_ok s0" and "reachable s0 s" and "call_ok s c" and "run c s = (r, s')" and "node_of (fs_db s') i \<noteq> None"
  shows "contents (fs_chunk_size s) (fs_db s') i
    = (case r of Inr _ \<Rightarrow> abs_data c s i (contents (fs_chunk_size s) (fs_db s) i) | Inl _ \<Rightarrow> contents (fs_chunk_size s) (fs_db s) i)"
proof -
  have "fs_inv s" using reachable_ok[OF assms(2,1)] by (simp add: fs_ok_def)
  from wp_run[OF steps_call[OF this assms(3)] assms(4)] assms(5) show ?thesis by (auto split: sum.splits)
qed

theorem calls_refine_contents_witness:
  "\<exists>r s'. run (Files (CallWrite 1 2 [5, 6])) file_fs = (r, s') \<and> (case r of Inr _ \<Rightarrow> contents 4 (fs_db s') 2 = [0, 0, 5, 6] | Inl _ \<Rightarrow> False)"
proof -
  obtain s1 cols where w: "fs_write_fd 1 2 [5, 6] file_fs = (Inr (new_size cols 2 [5, 6]), s1)"
    and db: "write_db 2 (fs_chunk_size file_fs) (unat (2 :: u64)) [5, 6] (new_size cols 2 [5, 6]) (now1 file_fs) (fs_db file_fs) (fs_db s1)"
    using write_runs[OF file_fs_ok file_fs_fd(2), of 2 "[5, 6]"] by auto
  have run: "run (Files (CallWrite 1 2 [5, 6])) file_fs = (Inr (ReSize (new_size cols 2 [5, 6])), s1)"
    by (simp add: w reply_def bindE_def ret_def)
  have cs: "fs_chunk_size file_fs = 4" by (simp add: file_fs_def demo_fs_def)
  have empty: "contents 4 (fs_db file_fs) 2 = []" using file_fs_simps(2) by (simp add: contents_def file_range_def fresh_node_def)
  have gap: "replicate 2 (0 :: byte) = [0, 0]" by (simp add: numeral_2_eq_2)
  have "node_of (fs_db s1) 2 \<noteq> None"
    using db file_fs_simps(2) blobs_only_same(1) by (auto simp: write_db_def range_written_def)
  with calls_refine_contents[OF file_fs_ok(1) reachable.start _ run] show ?thesis
    using run gap by (simp add: cs file_fs_fd empty overwrite_def)
qed

section \<open>Blocks within the size\<close>

lemma sum_list_disjoint:
  assumes "distinct xs" and "\<And>x. x \<in> set xs \<Longrightarrow> S x \<subseteq> {..<n}"
    and "\<And>x y. x \<in> set xs \<Longrightarrow> y \<in> set xs \<Longrightarrow> x \<noteq> y \<Longrightarrow> S x \<inter> S y = {}"
  shows "sum_list (map (\<lambda>x. card (S x)) xs) \<le> (n :: nat)"
proof -
  have fin: "finite (S x)" if "x \<in> set xs" for x using assms(2)[OF that] finite_subset by blast
  have "sum_list (map (\<lambda>x. card (S x)) xs) = (\<Sum>x\<in>set xs. card (S x))"
    by (rule sum_list_distinct_conv_sum_set[OF assms(1)])
  also have "\<dots> = card (\<Union>x\<in>set xs. S x)" using fin assms(3) by (intro card_UN_disjoint[symmetric]) auto
  also have "\<dots> \<le> card {..<n}" using assms(2) by (intro card_mono) auto
  finally show ?thesis by simp
qed

lemma chunks_disjoint:
  assumes "length a \<le> C" and "length b \<le> C" and "j \<noteq> (k :: nat)"
  shows "{j * C ..< j * C + length a} \<inter> {k * C ..< k * C + length b} = {}"
proof (cases "j < k")
  case True
  then have "(j + 1) * C \<le> k * C" by (intro mult_le_mono1) simp
  then show ?thesis using assms(1) by auto
next
  case False
  then have "(k + 1) * C \<le> j * C" using assms(3) by (intro mult_le_mono1) simp
  then show ?thesis using assms(2) by auto
qed

lemma chunk_rows_bounded:
  assumes "keyed (t_blobs d)" and fit: "chunks_fit d i C sz"
  shows "sum_list (map length (chunk_rows d i)) \<le> sz"
proof -
  let ?R = "filter (\<lambda>((j, k), b). j = i) (t_blobs d)"
  let ?S = "\<lambda>((j :: inode, k :: u64), b :: byte list). {unat k * C ..< unat k * C + length b}"
  have row: "blob_of d i (snd (fst r)) = Some (snd r)" and fst: "fst (fst r) = i" if "r \<in> set ?R" for r
    using that assms(1) by (auto simp: blob_of_def)
  have "sum_list (map length (chunk_rows d i)) = sum_list (map (\<lambda>r. card (?S r)) ?R)"
    by (simp add: chunk_rows_def case_prod_beta o_def)
  also have "\<dots> \<le> sz"
  proof (rule sum_list_disjoint)
    show "distinct ?R" using assms(1) by (simp add: distinct_map)
    show "?S r \<subseteq> {..<sz}" if "r \<in> set ?R" for r
    proof -
      have "snd r \<noteq> [] \<longrightarrow> unat (snd (fst r)) * C + length (snd r) \<le> sz"
        using row[OF that] fit unfolding chunks_fit_def by blast
      then show ?thesis by (cases "snd r = []") (auto simp: case_prod_beta)
    qed
    fix r r' assume r: "r \<in> set ?R" "r' \<in> set ?R" "r \<noteq> r'"
    have "snd (fst r) \<noteq> snd (fst r')"
    proof
      assume "snd (fst r) = snd (fst r')"
      then have "snd r = snd r'" "fst r = fst r'" using row[OF r(1)] row[OF r(2)] fst[OF r(1)] fst[OF r(2)] by (auto simp: prod_eq_iff)
      then show False using r(3) by (simp add: prod_eq_iff)
    qed
    then have "unat (snd (fst r)) \<noteq> unat (snd (fst r'))" by (simp add: word_unat_eq_iff)
    from chunks_disjoint[OF _ _ this, of "snd r" C "snd r'"] show "?S r \<inter> ?S r' = {}"
      using row[OF r(1)] row[OF r(2)] fit by (simp add: chunks_fit_def case_prod_beta)
  qed
  finally show ?thesis .
qed

text \<open>
  C32 (total_bytes): in every reachable state the blocks of a file hold no more bytes than its size says, which is below
  the largest signed 64-bit number, so that \<open>total_bytes\<close> neither wraps nor exceeds the size.
\<close>

theorem blocks_within_size:
  assumes "fs_ok s0" and "reachable s0 s" and "node_of (fs_db s) i = Some cols" and "total_bytes i (fs_conn s) = (Inr n, c')"
  shows "unat n = sum_list (map length (chunk_rows (fs_db s) i)) \<and> unat n \<le> unat (n_size cols) \<and> unat (n_size cols) < 2 ^ 63"
proof -
  note ok = ok_simps[OF reachable_ok[OF assms(2,1)]]
  note fit = inv_extents[OF ok(1) assms(3)]
  have le: "sum_list (map length (chunk_rows (fs_db s) i)) \<le> unat (n_size cols)"
    using chunk_rows_bounded[OF _ fit(1)] tree_keys[OF ok(3)] by (simp add: wf_keys_def)
  have "n = of_nat (sum_list (map length (chunk_rows (fs_db s) i)))"
    using assms(4) by (auto simp: total_bytes_def query_def stmt_def Let_def split: if_splits)
  then have "unat n = sum_list (map length (chunk_rows (fs_db s) i))" using le fit(2) by (simp add: unat_of_nat64)
  then show ?thesis using le fit(2) by simp
qed

theorem blocks_within_size_witness:
  "\<exists>n c'. total_bytes 2 (fs_conn file_fs) = (Inr n, c') \<and> n = 0"
proof -
  have "\<exists>n c'. total_bytes 2 (fs_conn file_fs) = (Inr n, c')"
    by (simp add: total_bytes_def query_def stmt_def Let_def file_fs_def connect_def)
  then obtain n c' where r: "total_bytes 2 (fs_conn file_fs) = (Inr n, c')" by blast
  have "unat n \<le> unat (n_size (fresh_node File 0x1A4 0 0 8))"
    using blocks_within_size[OF file_fs_ok(1) reachable.start file_fs_simps(2) r] by blast
  then have "n = 0" by (simp add: fresh_node_def unat_eq_0)
  then show ?thesis using r by blast
qed

end
