(* ===== verification/Fs_Attributes.thy ===== *)
theory Fs_Attributes
  imports Fs_Contents
begin

text \<open>
  The third part of the abstract filesystem: what each node is besides its names and its bytes.  \<open>meta_of\<close>
  gives its kind, mode, owner, extended attributes and link target, and every call refines an operation on
  them: four calls change one field of one node, three make a node of the caller, and the
  rest, calls that fail among them, leave all as they are.
\<close>

section \<open>Attributes of nodes\<close>

record meta =
  m_kind :: node_kind
  m_mode :: u32
  m_uid :: u32
  m_gid :: u32
  m_xattrs :: "string \<Rightarrow> byte list option"
  m_target :: "byte list option"

definition node_meta :: "db \<Rightarrow> inode \<Rightarrow> node_cols \<Rightarrow> meta" where
  "node_meta d i c = \<lparr>m_kind = n_kind c, m_mode = n_mode c, m_uid = n_uid c, m_gid = n_gid c,
     m_xattrs = xattr_of d i, m_target = symlink_of d i\<rparr>"

definition meta_of :: "db \<Rightarrow> inode \<Rightarrow> meta option" where
  "meta_of d i = map_option (node_meta d i) (node_of d i)"

lemma meta_of_None: "meta_of d i = None \<longleftrightarrow> node_of d i = None"
  by (simp add: meta_of_def)

text \<open>The same, with the fields written out, for the statements below.\<close>

lemma meta_of_case: "meta_of d i = (case node_of d i of None \<Rightarrow> None | Some c \<Rightarrow> Some
    \<lparr>m_kind = n_kind c, m_mode = n_mode c, m_uid = n_uid c, m_gid = n_gid c, m_xattrs = xattr_of d i, m_target = symlink_of d i\<rparr>)"
  by (simp add: meta_of_def node_meta_def split: option.split)

lemma meta_of_map_node: "meta_of (map_node i f d) j
    = (if j = i then map_option (\<lambda>c. node_meta d i (f c)) (node_of d i) else meta_of d j)"
  by (auto simp: meta_of_case node_meta_def split: option.split)

lemma meta_of_same_cols:
  "(\<And>n. n_kind (f n) = n_kind n \<and> n_mode (f n) = n_mode n \<and> n_uid (f n) = n_uid n \<and> n_gid (f n) = n_gid n)
    \<Longrightarrow> meta_of (map_node i f d) j = meta_of d j"
  by (auto simp: meta_of_case split: option.split)

text \<open>The statements on names, times and link counts change none of it.\<close>

lemma meta_of_simps [simp]:
  "meta_of (touch i now d) = meta_of d" "meta_of (add_nlink i k now d) = meta_of d"
  "meta_of (map_node i (set_time_cols a t c) d) = meta_of d" "meta_of (map_node i (set_size_cols x y z) d) = meta_of d"
  "meta_of (add_entry p n i d) = meta_of d" "meta_of (del_entry p n d) = meta_of d" "meta_of (move_entry sp sn p n i d) = meta_of d"
  by (auto simp: fun_eq_iff touch_def add_nlink_def set_time_cols_def set_size_cols_def set_if_def add_nlink_cols_def
      intro!: meta_of_same_cols split: option.split)
    (simp_all add: meta_of_case move_entry_def split: option.split)

lemma meta_of_del_node [simp]: "meta_of (del_node i d) j = (if j = i then None else meta_of d j)"
  by (auto simp: meta_of_case fun_eq_iff split: option.split)

lemma meta_of_new_entry [simp]:
  "meta_of (new_entry p n cols d) j = (if j = next_inode d then Some (node_meta d j cols) else meta_of d j)"
  by (auto simp: meta_of_case node_meta_def new_entry_def split: option.split)

lemma meta_of_symlink [simp]:
  "meta_of (add_symlink i t d) j = (if j = i then map_option (\<lambda>a. a\<lparr>m_target := Some t\<rparr>) (meta_of d j) else meta_of d j)"
  by (auto simp: meta_of_case split: option.split)

lemma meta_of_blobs: "blobs_only d d' \<Longrightarrow> meta_of d' = meta_of d"
  by (rule ext) (auto simp: meta_of_case xattr_of_def symlink_of_def dest!: blobs_only_same split: option.split)

lemma meta_of_xattrs:
  "meta_of (del_xattr i n d) j = (if j = i then map_option (\<lambda>a. a\<lparr>m_xattrs := (m_xattrs a)(n := None)\<rparr>) (meta_of d j) else meta_of d j)"
  "xattr_stored i n v d d' \<Longrightarrow> meta_of d' j
     = (if j = i then map_option (\<lambda>a. a\<lparr>m_xattrs := (m_xattrs a)(n \<mapsto> v)\<rparr>) (meta_of d j) else meta_of d j)"
  by (auto simp: meta_of_case xattr_stored_def fun_eq_iff split: option.split)

section \<open>Changes of attributes\<close>

text \<open>Nodes go, or change by a function; a node that was not there is the new one.\<close>

definition meta_step :: "(inode \<Rightarrow> meta \<Rightarrow> meta) \<Rightarrow> meta option \<Rightarrow> db \<Rightarrow> db \<Rightarrow> bool" where
  "meta_step f new d d' \<longleftrightarrow> (\<forall>i a. meta_of d' i = Some a
     \<longrightarrow> (case meta_of d i of Some b \<Rightarrow> a = f i b | None \<Rightarrow> new = Some a))"

lemma meta_stepD:
  "meta_step f new d d' \<Longrightarrow> meta_of d' i = Some a \<Longrightarrow> (case meta_of d i of Some b \<Rightarrow> a = f i b | None \<Rightarrow> new = Some a)"
  by (simp add: meta_step_def)

abbreviation meta_kept :: "db \<Rightarrow> db \<Rightarrow> bool" where
  "meta_kept \<equiv> meta_step (\<lambda>_ a. a) None"

lemma meta_keptI: "(\<And>i. meta_of d' i = None \<or> meta_of d' i = meta_of d i) \<Longrightarrow> meta_kept d d'"
  unfolding meta_step_def by (metis option.simps(3,5))

lemma meta_kept_self [simp]: "meta_of d' = meta_of d \<Longrightarrow> meta_kept d d'"
  by (rule meta_keptI) simp

lemma meta_made:
  "(\<And>i. meta_of d' i = (if i = j then Some a else meta_of d i)) \<Longrightarrow> node_of d j = None \<Longrightarrow> meta_step (\<lambda>_ a. a) (Some a) d d'"
  by (auto simp: meta_step_def meta_of_None[symmetric] split: option.split if_splits)

lemma meta_set:
  "(\<And>i. meta_of d' i = (if i = j then map_option g (meta_of d i) else meta_of d i))
    \<Longrightarrow> (\<And>i b. f i b = (if i = j then g b else b)) \<Longrightarrow> meta_step f None d d'"
  by (auto simp: meta_step_def split: option.split if_splits)

text \<open>The node that a call makes, and what a call that succeeds does to the others.\<close>

abbreviation made_by :: "filesystem \<Rightarrow> node_kind \<Rightarrow> u32 \<Rightarrow> byte list option \<Rightarrow> meta option" where
  "made_by s k mode target \<equiv> Some \<lparr>m_kind = k, m_mode = mode, m_uid = fs_caller_uid s, m_gid = fs_caller_gid s,
     m_xattrs = Map.empty, m_target = target\<rparr>"

fun new_meta :: "fs_call \<Rightarrow> filesystem \<Rightarrow> meta option" where
  "new_meta (Names (CallMkdir path mode)) s = made_by s Dir mode None"
| "new_meta (Names (CallSymlink target path)) s = made_by s Symlink 0x1FF (Some target)"
| "new_meta (Files (CallCreate path flags mode)) s = made_by s File (mode AND 0xFFF) None"
| "new_meta (CallAsUser u g c) s = new_meta c (s\<lparr>fs_caller_uid := u, fs_caller_gid := g\<rparr>)"
| "new_meta c s = None"

fun attr_path :: "attr_call \<Rightarrow> string" where
  "attr_path (CallChmod path mode) = path"
| "attr_path (CallChown path u g) = path"
| "attr_path (CallUtimes path a m) = path"
| "attr_path (CallSetxattr path name v flags) = path"
| "attr_path (CallRemovexattr path name) = path"

fun set_meta :: "attr_call \<Rightarrow> meta \<Rightarrow> meta" where
  "set_meta (CallChmod path mode) a = a\<lparr>m_mode := mode AND 0xFFF\<rparr>"
| "set_meta (CallChown path u g) a = a\<lparr>m_uid := case_option (m_uid a) id u, m_gid := case_option (m_gid a) id g\<rparr>"
| "set_meta (CallUtimes path t m) a = a"
| "set_meta (CallSetxattr path name v flags) a = a\<lparr>m_xattrs := (m_xattrs a)(name \<mapsto> v)\<rparr>"
| "set_meta (CallRemovexattr path name) a = a\<lparr>m_xattrs := (m_xattrs a)(name := None)\<rparr>"

fun abs_meta :: "fs_call \<Rightarrow> filesystem \<Rightarrow> inode \<Rightarrow> meta \<Rightarrow> meta" where
  "abs_meta (Attrs c) s i a = (if lookup (fs_db s) (attr_path c) = Inr i then set_meta c a else a)"
| "abs_meta (CallAsUser u g c) s i a = abs_meta c (s\<lparr>fs_caller_uid := u, fs_caller_gid := g\<rparr>) i a"
| "abs_meta c s i a = a"

lemma abs_meta_same [simp]:
  "abs_meta (Names nc) s = (\<lambda>_ a. a)" "abs_meta (Files fc) s = (\<lambda>_ a. a)" "abs_meta (Queries qc) s = (\<lambda>_ a. a)"
  "abs_meta (Locks lc) s = (\<lambda>_ a. a)" "abs_meta (Others oc) s = (\<lambda>_ a. a)"
  "abs_meta (CallAsUser u g c) s = abs_meta c (s\<lparr>fs_caller_uid := u, fs_caller_gid := g\<rparr>)"
  by (simp_all add: fun_eq_iff)

abbreviation steps_meta :: "fs_call \<Rightarrow> reply fs \<Rightarrow> filesystem \<Rightarrow> bool" where
  "steps_meta c m s \<equiv> wp m (\<lambda>_ s'. meta_step (abs_meta c s) (new_meta c s) (fs_db s) (fs_db s'))
     (\<lambda>_ s'. reliable (fs_conn s) \<longrightarrow> meta_kept (fs_db s) (fs_db s')) s"

section \<open>Each call\<close>

lemma meta_quiet: "fs_quiet s s' \<Longrightarrow> meta_kept (fs_db s) (fs_db s')"
  by (simp add: fs_quiet_def)

text \<open>A step that leaves nodes as they are is one of any call that makes nodes or names.\<close>

lemma meta_kept_step: "meta_kept d d' \<Longrightarrow> (\<And>i a. f i a = a) \<Longrightarrow> meta_step f new d d'"
  unfolding meta_step_def by (force split: option.splits)

lemma fresh_meta:
  assumes "fs_inv s"
  shows "node_meta (fs_db s) (next_inode (fs_db s)) (fresh_node k m u g now)
    = \<lparr>m_kind = k, m_mode = m, m_uid = u, m_gid = g, m_xattrs = Map.empty, m_target = None\<rparr>"
  using fresh_has_nothing[of _ "fs_db s" "next_inode (fs_db s)"] next_inode_free[OF inv_tree[OF assms]] assms
  by (auto simp: node_meta_def fresh_node_def fs_inv_def fun_eq_iff)

lemma meta_new:
  assumes inv: "fs_inv s"
  shows "meta_step (\<lambda>_ a. a) (made_by s Dir mode None) (fs_db s) (mkdir_db p n mode (fs_caller_uid s) (fs_caller_gid s) now (fs_db s))"
    "meta_step (\<lambda>_ a. a) (made_by s Symlink 0x1FF (Some x)) (fs_db s) (symlink_db x p n (fs_caller_uid s) (fs_caller_gid s) now (fs_db s))"
    "meta_step (\<lambda>_ a. a) (made_by s File (mode AND 0xFFF) None) (fs_db s) (create_db p n mode (fs_caller_uid s) (fs_caller_gid s) now (fs_db s))"
  by (rule meta_made[OF _ next_inode_free[OF inv_tree[OF inv]]];
      simp add: mkdir_db_def symlink_db_def create_db_def fresh_meta[OF inv])+

lemma meta_lost:
  "meta_kept d (link_db p n i now d)" "meta_kept d (unlink_db p n i now d)" "meta_kept d (rmdir_db p n i now d)"
  "meta_kept d (del_node i (unlink_db p n i now d))" "meta_kept d (del_node i d)"
  by (auto intro!: meta_keptI simp: link_db_def unlink_db_def rmdir_db_def split: if_splits)

lemma meta_unlinked: "meta_kept (fs_db s) (unlink_final s p n i)"
  by (simp add: unlink_final_def Let_def meta_lost)

lemma meta_replace: "meta_of (replace_db sp p n j cols now d) q = None \<or> meta_of (replace_db sp p n j cols now d) q = meta_of d q"
  by (cases "word_of_int (n_nlink cols - 1) = (0 :: u32)"; cases "n_kind cols = Dir \<and> sp \<noteq> p") (simp_all add: replace_db_def Let_def)

lemma meta_renamed: "renamed k i sp sn p n now d d' \<Longrightarrow> meta_kept d d'"
proof -
  have "meta_of (move_db k i sp sn p n now d1) = meta_of d1" for d1 by (simp add: move_db_def Let_def)
  moreover have "replaced sp p n j k now d d1 \<Longrightarrow> meta_of d1 q = None \<or> meta_of d1 q = meta_of d q" for j d1 q
    unfolding replaced_def by (elim exE conjE) (simp only: meta_replace)
  ultimately show "renamed k i sp sn p n now d d' \<Longrightarrow> meta_kept d d'"
    by (fastforce simp: renamed_def intro!: meta_keptI split: if_splits)
qed

lemma meta_written: "write_db i cs off data sz now d d' \<Longrightarrow> meta_of d' = meta_of d"
  by (auto simp: write_db_def range_written_def dest: meta_of_blobs)

lemma meta_truncated: "trunc_db i cs now d d' \<Longrightarrow> meta_of d' = meta_of d"
  by (auto simp: trunc_db_def range_truncated_def dest: meta_of_blobs)

lemma meta_names:
  assumes inv: "fs_inv s"
  shows "steps_meta (Names c) (run_name c) s"
  by (cases c; simp only: run_name.simps wp_reply)
    (auto simp: meta_quiet becomes_def meta_new[OF inv] meta_lost meta_unlinked rename_moved_def meta_renamed fs_quiet_def
      intro!: wp_fs_mkdir[OF inv] wp_fs_symlink[OF inv] wp_fs_link[OF inv] wp_fs_rmdir[OF inv] wp_fs_unlink[OF inv] wp_fs_rename[OF inv])

lemma meta_files:
  assumes inv: "fs_inv s" and ok: "file_call_ok s c"
  shows "steps_meta (Files c) (run_file c) s"
proof -
  note rules = wp_fs_create[OF inv] wp_fs_open[OF inv] wp_fs_close_fd
  show ?thesis using ok
    by (cases c; simp only: run_file.simps wp_reply)
      (auto simp: meta_quiet becomes_def meta_new[OF inv] meta_lost meta_kept_step meta_written meta_truncated fs_quiet_def
        intro!: rules wp_fs_write_fd[OF inv] wp_fs_read_fd[OF inv] split: if_splits)
qed

lemma meta_query: "fs_inv s \<Longrightarrow> steps_meta (Queries c) (run_query c) s"
  by (cases c; simp only: run_query.simps wp_reply)
    (auto simp: wp_eqs meta_quiet fs_posix_getlk_def fs_ofd_getlk_def split: sum.split
      intro!: wp_fs_stat wp_fs_getxattr wp_fs_listxattr wp_fs_readlink wp_path_of_inode wp_fs_readdir inv_tree)

lemma meta_lock: "steps_meta (Locks c) (run_lock c) s"
  by (cases c) (auto simp: wp_reply wp_with_locks fs_posix_lock_def fs_ofd_lock_def fs_flock_def split: sum.split prod.split)

lemma meta_other: "steps_meta (Others c) (run_other c) s"
  by (cases c) (auto simp: wp_eqs meta_quiet becomes_def intro!: wp_fs_fsync wp_fs_watch, auto simp: wp_def split: prod.split)

text \<open>The calls on one node: the check has looked the path up, and the update is that of \<open>set_meta\<close>.\<close>

lemma checks_lookup:
  "owner_check s path = Inr i \<Longrightarrow> lookup (fs_db s) path = Inr i"
  "chown_check s path u g = Inr i \<Longrightarrow> lookup (fs_db s) path = Inr i"
  "setxattr_check s path name v flags = Inr i \<Longrightarrow> lookup (fs_db s) path = Inr i"
  "removexattr_check s path name = Inr i \<Longrightarrow> lookup (fs_db s) path = Inr i"
  by (auto simp: owner_check_def chown_check_def setxattr_check_def removexattr_check_def xattr_check_def node_check_Inr
      split: split_outcome)

lemma meta_set_at:
  assumes "lookup (fs_db s) (attr_path c) = Inr i"
    and "\<And>j. meta_of d' j = (if j = i then map_option (set_meta c) (meta_of (fs_db s) j) else meta_of (fs_db s) j)"
  shows "meta_step (abs_meta (Attrs c) s) None (fs_db s) d'"
  by (rule meta_set[OF assms(2)]) (use assms(1) in auto)

lemma meta_owner_cols: "meta_of (map_node i (set_owner_cols m u g now) d) j = (if j = i then map_option (\<lambda>a.
    a\<lparr>m_mode := case_option (m_mode a) id m, m_uid := case_option (m_uid a) id u, m_gid := case_option (m_gid a) id g\<rparr>) (meta_of d j)
    else meta_of d j)"
  by (auto simp: meta_of_case set_owner_cols_def set_if_def split: option.split)

lemma map_option_same: "(\<And>a. f a = g a) \<Longrightarrow> map_option f x = map_option g x" "(\<And>a. f a = a) \<Longrightarrow> x = map_option f x"
  by (cases x; simp)+

lemma meta_attrs: "steps_meta (Attrs c) (run_attr c) s"
proof -
  have upd: "meta_step (abs_meta (Attrs c) s) None (fs_db s) (fs_db s')"
    if "node_updated s (attr_path c) i f s'" and "lookup (fs_db s) (attr_path c) = Inr i"
      and "\<And>d j. meta_of (map_node i f d) j = (if j = i then map_option (set_meta c) (meta_of d j) else meta_of d j)" for c i f s'
    by (rule meta_set_at[OF that(2)]) (use that(1,3) in \<open>auto simp: node_updated_def becomes_def\<close>)
  have stored: "meta_step (abs_meta (Attrs (CallSetxattr path name v flags)) s) None (fs_db s) (map_node i (set_time_cols None None (Some t)) d')"
    if "setxattr_check s path name v flags = Inr i" and "xattr_stored i name v (fs_db s) d'" for path name v flags i d' t
    by (rule meta_set_at) (use that in \<open>auto simp: checks_lookup meta_of_xattrs intro: map_option_same\<close>)
  have gone: "meta_step (abs_meta (Attrs (CallRemovexattr path name)) s) None (fs_db s)
      (map_node i (set_time_cols None None (Some t)) (del_xattr i name (fs_db s)))"
    if "removexattr_check s path name = Inr i" for path name i t
    by (rule meta_set_at) (use that in \<open>auto simp: checks_lookup meta_of_xattrs intro: map_option_same\<close>)
  show ?thesis
  proof (cases c)
    case (CallChmod path mode)
    then show ?thesis by (simp only: run_attr.simps wp_reply new_meta.simps)
        (rule wp_fs_chmod; auto simp: meta_quiet meta_owner_cols checks_lookup intro!: upd map_option_same)
  next
    case (CallChown path u g)
    then show ?thesis by (simp only: run_attr.simps wp_reply new_meta.simps)
        (rule wp_fs_chown; auto simp: meta_quiet meta_owner_cols checks_lookup intro!: upd map_option_same)
  next
    case (CallUtimes path a m)
    then show ?thesis by (simp only: run_attr.simps wp_reply new_meta.simps)
        (rule wp_fs_utimes; auto simp: meta_quiet checks_lookup intro!: upd map_option_same)
  next
    case (CallSetxattr path name v flags)
    then show ?thesis by (simp only: run_attr.simps wp_reply new_meta.simps)
        (rule wp_fs_setxattr; auto simp: meta_quiet becomes_def intro!: stored)
  next
    case (CallRemovexattr path name)
    then show ?thesis by (simp only: run_attr.simps wp_reply new_meta.simps)
        (rule wp_fs_removexattr; auto simp: meta_quiet becomes_def intro!: gone)
  qed
qed

lemma meta_call: "fs_inv s \<Longrightarrow> call_ok s c \<Longrightarrow> steps_meta c (run c) s"
proof (induction c arbitrary: s)
  case (CallAsUser u g c)
  let ?s = "s\<lparr>fs_caller_uid := u, fs_caller_gid := g\<rparr>"
  have "fs_inv ?s" and "call_ok ?s c"
    using CallAsUser.prems call_ok_cong[of ?s s c] by (simp_all add: fs_inv_def)
  from CallAsUser.IH[OF this] show ?case unfolding run.simps wp_as_user by (rule wp_mono) simp_all
qed (simp_all only: run.simps call_ok.simps meta_names meta_files meta_attrs meta_query meta_lock meta_other)

section \<open>The refinement\<close>

text \<open>
  C4 (Filesystem): every call in a reachable state refines an operation on the attributes of the nodes.  A successful chmod,
  chown, setxattr or removexattr sets the mode (its 12 bits), the owner, or one extended attribute of the node the path leads to;
  mkdir, symlink and create make a node of the caller with the mode given, no extended attributes and its target; every other
  attribute of every node, and under a call that fails without an engine fault all of them, are as before.
\<close>

theorem calls_refine_attributes:
  assumes "fs_ok s0" and "reachable s0 s" and "call_ok s c" and "run c s = (r, s')" and "meta_of (fs_db s') i = Some a"
    and "\<forall>e. r = Inl e \<longrightarrow> reliable (fs_conn s)"
  shows "case meta_of (fs_db s) i of
      Some b \<Rightarrow> a = (case r of Inr _ \<Rightarrow> abs_meta c s i b | Inl _ \<Rightarrow> b)
    | None \<Rightarrow> (\<exists>x. r = Inr x) \<and> new_meta c s = Some a"
proof -
  have "fs_inv s" using reachable_ok[OF assms(2,1)] by (simp add: fs_ok_def)
  from wp_run[OF meta_call[OF this assms(3)] assms(4)] assms(6)
  have "meta_step (case r of Inr _ \<Rightarrow> abs_meta c s | Inl _ \<Rightarrow> \<lambda>_ a. a) (case r of Inr _ \<Rightarrow> new_meta c s | Inl _ \<Rightarrow> None) (fs_db s) (fs_db s')"
    by (auto split: sum.splits)
  from meta_stepD[OF this assms(5)] show ?thesis by (auto split: sum.splits option.splits)
qed

theorem calls_refine_attributes_witness:
  "\<exists>x s'. run (CallAsUser 0 5 (Names (CallMkdir ''/g'' 0x1ED))) file_fs = (Inr x, s')
     \<and> meta_of (fs_db s') 3 = Some \<lparr>m_kind = Dir, m_mode = 0x1ED, m_uid = 0, m_gid = 5, m_xattrs = Map.empty, m_target = None\<rparr>"
proof -
  obtain s' where r: "run (CallAsUser 0 5 (Names (CallMkdir ''/g'' 0x1ED))) file_fs = (Inr ReUnit, s')" and n: "node_of (fs_db s') 3 \<noteq> None"
    by (simp add: reply_def as_user_def fs_mkdir_def eval_io eval_tables eval_fs eval_demo path_g file_fs_def file_db_def mkdir_tx_def next_inode_def)
  have new: "meta_of (fs_db file_fs) 3 = None" by (simp add: meta_of_None file_fs_def file_db_def node_of_def)
  obtain a where a: "meta_of (fs_db s') 3 = Some a" using n by (auto simp: meta_of_def)
  from calls_refine_attributes[OF file_fs_ok(1) reachable.start _ r a] show ?thesis using r a new file_fs_ok(2) by simp
qed

end
