(* ===== verification/Fs_Deviations.thy ===== *)
theory Fs_Deviations
  imports Fs_Attributes Fs_Fsck
begin

text \<open>
  Where the code does not do what POSIX or its own comments promise, each shown by a run of the model.
\<close>

section \<open>Opening\<close>

text \<open>\<open>create\<close> without \<open>O_EXCL\<close> on a directory opens it, for writing as well (\<open>open\<close> refuses directories).\<close>

lemma create_opens_directory:
  "\<exists>s'. fs_create ''/f'' 2 0 (demo_at dirs1 8 10) = (Inr 1, s') \<and> has_kind (fs_db s') 2 Dir \<and> write_check s' 1 = Inr 2"
  by (simp add: fs_create_def eval_dirs dirs1_def check_open_access_def open_access_def open_fd_def fdtable_open_def fdtable_new_def
      O_ACCMODE_def O_RDONLY_def O_WRONLY_def O_RDWR_def O_EXCL_def write_check_def fd_check_def fdtable_get_def)

text \<open>\<open>open\<close> with \<open>O_RDONLY\<close> and \<open>O_TRUNC\<close> empties a file that the caller may only read.\<close>

definition reader_fs :: filesystem where
  "reader_fs = file_fs\<lparr>fs_caller_uid := 1000, fs_caller_gid := 1000\<rparr>"

lemma reader_may_truncate:
  "fs_open_check reader_fs ''/f'' (O_RDONLY OR O_TRUNC) = Inr 2" "\<not> grants reader_fs (fresh_node File 0x1A4 0 0 8) ACCESS_W"
  by (simp_all add: fs_open_check_Inr lookup_def demo_path reader_fs_def file_fs_simps ROOT_INODE_def grants_def check_access_def
      open_access_def O_ACCMODE_def O_RDONLY_def O_TRUNC_def ACCESS_R_def ACCESS_W_def fresh_node_def)

lemma open_readonly_truncates:
  assumes "fs_ok s" and "\<not> fdtable_full (fs_fdtable s)" and "fs_open path (O_RDONLY OR O_TRUNC) s = (Inr fd, s')"
    and "fs_open_check s path (O_RDONLY OR O_TRUNC) = Inr i"
  shows "node_of (fs_db s') i = None \<or> contents (fs_chunk_size s) (fs_db s') i = []"
proof -
  have run: "run (Files (CallOpen path (O_RDONLY OR O_TRUNC))) s = (Inr (ReFd fd), s')"
    using assms(3) by (simp add: reply_def bindE_def ret_def)
  have "(O_RDONLY OR O_TRUNC) AND O_TRUNC \<noteq> 0" by (simp add: O_RDONLY_def O_TRUNC_def)
  moreover have "fs_inv s" using assms(1) by (simp add: fs_ok_def)
  note wp_run[OF steps_call[OF this, of "Files (CallOpen path (O_RDONLY OR O_TRUNC))"], unfolded run.simps, OF _ run[unfolded run.simps]]
  ultimately show ?thesis using assms(2,4) by fastforce
qed

text \<open>
  \<open>create\<close> of a name that is taken opens the file as it is, whatever the flags say: with \<open>O_TRUNC\<close> it keeps its bytes,
  where the plan of the repository has \<open>create\<close> delegate to an opening that empties it.
\<close>

lemma create_ignores_trunc:
  assumes "fs_inv s" and "create_check s path flags = Inr (Some i)" and "fs_create path flags mode s = (Inr fd, s')"
  shows "fs_db s' = fs_db s"
proof -
  have "wp (fs_create path flags mode) (\<lambda>_ s'. fs_db s' = fs_db s) (\<lambda>_ _. True) s"
    by (rule wp_fs_create[OF assms(1)]) (use assms(2) in \<open>auto simp: becomes_def create_check_def add_check_Inr parent_check_Inr split: split_outcome option.splits if_splits\<close>)
  then show ?thesis using assms(3) by (simp add: wp_def)
qed

text \<open>
  Resolving a path asks for no permission: what \<open>stat\<close> returns does not depend on the caller, so directories without the
  search permission hide nothing.
\<close>

lemma stat_ignores_caller:
  "fst (db_op (fs_stat path) (s\<lparr>fs_caller_uid := u, fs_caller_gid := g\<rparr>)) = fst (db_op (fs_stat path) s)"
  by (simp add: db_op_def split: prod.splits)

section \<open>Extended attributes\<close>

text \<open>
  \<open>setxattr\<close> uses no transaction: on an engine whose fifth statement fails, the one that sets the time of the node, it reports
  the failure and has stored the attribute.
\<close>

lemma setxattr_half_done:
  "\<exists>s'. fs_setxattr ''/f'' ''user.a'' [1] 0 (file_fs\<lparr>fs_conn := (connect file_db)\<lparr>c_fault := (\<lambda>n. n = 4)\<rparr>\<rparr>) = (Inl (Fail (Sqlite IoFault)), s')
    \<and> xattr_of (fs_db s') 2 ''user.a'' = Some [1]"
  by (simp add: fs_setxattr_def eval_io eval_tables eval_fs eval_demo file_fs_def file_db_def xattrs_set_def xattr_of_def put_xattr_def
      validate_name_def validate_value_def XATTR_NAME_MAX_def XATTR_VALUE_MAX_def xattr_flag_def XATTR_CREATE_def XATTR_REPLACE_def)

section \<open>Modes\<close>

text \<open>\<open>mkdir\<close> stores the mode it is given, bits of file types and all, where \<open>create\<close> and \<open>chmod\<close> keep twelve bits.\<close>

lemma mkdir_keeps_type_bits:
  "\<exists>s'. fs_mkdir ''/f'' 0x41ED demo_fs = (Inr (), s') \<and> map_option n_mode (node_of (fs_db s') 2) = Some 0x41ED"
  by (simp add: fs_mkdir_def eval_dirs fresh_db_def empty_tables_def SCHEMA_VERSION_def)

section \<open>Renaming\<close>

text \<open>A path that leads nowhere can be renamed to itself.\<close>

lemma rename_missing_to_itself: "\<not> fs_readonly s \<Longrightarrow> fs_rename path path s = (Inr (), s)"
  by (simp add: fs_rename_def eval_io require_writable_def)

text \<open>
  \<open>/f\<close> is node 2 and open as descriptor 1.  Renaming another file over it deletes the node, which \<open>unlink\<close> would keep:
  the descriptor can neither be read nor closed without an error.
\<close>

definition two_files :: filesystem where
  "two_files = file_fs\<lparr>fs_conn := connect (file_db\<lparr>
     t_nodes := [(1, root_cols 0 0 7), (2, fresh_node File 0x1A4 0 0 8), (3, fresh_node File 0x1A4 0 0 8)],
     t_entries := [((1, ''f''), 2), ((1, ''g''), 3)], t_seq := 3\<rparr>)\<rparr>"

lemma rename_over_open_file:
  "\<exists>s' s1 s2. fs_rename ''/g'' ''/f'' two_files = (Inr (), s') \<and> fd_check two_files 1 O_RDONLY = Inr 2
    \<and> fs_read_fd 1 0 8 s' = (Inl (Fail NotFound), s1) \<and> fs_close_fd 1 s' = (Inl (Fail NotFound), s2)"
proof -
  have "\<exists>s'. fs_rename ''/g'' ''/f'' two_files = (Inr (), s') \<and> node_of (fs_db s') 2 = None
      \<and> fs_fdtable s' = fs_fdtable file_fs \<and> (\<forall>n. \<not> c_fault (fs_conn s') n)"
    by (simp add: fs_rename_def eval_io eval_tables eval_fs eval_demo path_g file_fs_def file_db_def two_files_def referenced_def move_entry_def)
  then obtain s' where s': "fs_rename ''/g'' ''/f'' two_files = (Inr (), s')" "node_of (fs_db s') 2 = None"
    "fs_fdtable s' = fs_fdtable file_fs" "\<And>n. \<not> c_fault (fs_conn s') n" by blast
  have "\<exists>x. fdtable_get 1 (fs_fdtable s') = Inr x \<and> fe_inode x = 2 \<and> fe_flags x = 2"
    by (simp add: s'(3) file_fs_def fdtable_open_def fdtable_new_def fdtable_get_def Let_def)
  then obtain x where fd: "fdtable_get 1 (fs_fdtable s') = Inr x" "fe_inode x = 2" "fe_flags x = 2" by blast
  have "\<exists>s1. fs_read_fd 1 0 8 s' = (Inl (Fail NotFound), s1)"
    using s'(2,4) by (simp add: fs_read_fd_def get_fd_def eval_io fd nodes_get_def O_ACCMODE_def O_RDWR_def O_RDONLY_def)
  moreover have "\<exists>s2. fs_close_fd 1 s' = (Inl (Fail NotFound), s2)"
    using s'(2,4) by (simp add: fs_close_fd_def eval_io s'(3) file_fs_def fdtable_open_def fdtable_new_def fdtable_close_def nodes_get_def)
  moreover have "fd_check two_files 1 O_RDONLY = Inr 2"
    by (simp add: fd_check_def two_files_def file_fs_def fdtable_open_def fdtable_new_def fdtable_get_def Let_def O_ACCMODE_def
        O_RDWR_def O_RDONLY_def node_of_def)
  ultimately show ?thesis using s'(1) by blast
qed

section \<open>Locks\<close>

text \<open>\<open>close_fd\<close> releases the locks of process 0, so those of the process that closes stay.\<close>

lemma posix_lock_outlives_close:
  "\<exists>m. posix_lock 2 1 7 LkExclusive 0 0 False lock_manager_new = (Inr (), m)
    \<and> fst (posix_lock 2 9 8 LkExclusive 0 0 False (on_fd_close 2 1 0 m)) = Inl LockConflict"
  by (simp add: posix_lock_def namespace_lock_def lock_manager_new_def on_fd_close_def conflicts_def
      rec_overlaps_def overlaps_def rec_end_def Let_def)

end
