(* ===== verification/Spec2Isabelle.thy ===== *)
theory Spec2Isabelle
  imports Fs_Kernel Fs_Events Fs_Deviations
begin

text \<open>
  A verification of the Rust crate \<open>sqlite-fs\<close> (\<open>src/rust\<close>), a POSIX filesystem in one SQLite database
  file that is used as a library or mounted through FUSE.

  \<^bold>\<open>The program.\<close>  \<open>schema.rs\<close> declares the tables \<open>nodes\<close>, \<open>entries\<close>, \<open>blobs\<close>, \<open>xattrs\<close> and \<open>symlinks\<close>;
  \<open>nodes.rs\<close>, \<open>entries.rs\<close>, \<open>blobs.rs\<close>, \<open>symlinks.rs\<close> and \<open>xattrs.rs\<close> hold the statements on them.
  \<open>fs.rs\<close> is the object \<open>Filesystem\<close>: it parses paths (\<open>paths.rs\<close>), checks permissions (\<open>perms.rs\<close>), runs
  those statements in transactions, and keeps what lives only in memory, the descriptors (\<open>fdtable.rs\<close>), the advisory locks
  (\<open>locks.rs\<close>) and the subscriptions to changes (\<open>watch.rs\<close>).  \<open>mkfs.rs\<close> makes and opens a database file,
  \<open>fsck.rs\<close> looks for faults in its tables, and \<open>fuse/adapter.rs\<close> turns the kernel's requests into calls of \<open>fs.rs\<close>.

  \<^bold>\<open>The layers of the development.\<close>

  \<^item> \<open>Fs_Prelude\<close>: computations \<open>io\<close> that thread a state and may stop with an exception, the reading of Rust's
    \<open>Result\<close> and its question mark; their weakest preconditions \<open>wp\<close>, with the collections \<open>wp_eqs\<close>
    and \<open>wp_rules\<close>; shared lemmas on lists, maps and words.
  \<^item> \<open>Fs_Types\<close>: \<open>errors.rs\<close>, \<open>types.rs\<close>, \<open>perms.rs\<close>.  \<open>Fs_Paths\<close>: \<open>paths.rs\<close> and the path helpers of
    \<open>watch.rs\<close> and of the adapter.  \<open>Fs_Fdtable\<close>, \<open>Fs_Locks\<close>, \<open>Fs_Watch\<close>: the file of the same name; the locales
    \<open>handle_table\<close>, \<open>lock_service\<close> and \<open>event_channel\<close> are their interfaces, each interpreted on the model of the code.
  \<^item> \<open>Fs_Sql\<close>: tables, connections and statements.  \<open>Fs_Nodes\<close>, \<open>Fs_Entries\<close>, \<open>Fs_Blobs\<close>, \<open>Fs_Meta\<close>: the
    functions on the tables.  The contract of \<open>blobs.rs\<close> is the locale \<open>byte_file\<close>: chunks implement a file that is a function from
    positions to bytes.
  \<^item> \<open>Fs_Core\<close>: every public method of \<open>fs.rs\<close> as \<open>fs_...\<close>, the body of its transaction as \<open>..._tx\<close>.
  \<^item> \<open>Fs_Tree\<close>, \<open>Fs_Lookup\<close>, \<open>Fs_Tx\<close>, \<open>Fs_Wf\<close>: the invariant of the tables, what the path functions compute, the
    tables that each transaction commits (\<open>..._db\<close>), and that they satisfy the invariant.
  \<^item> \<open>Fs_Ops\<close>, \<open>Fs_Files\<close>, \<open>Fs_Attr\<close>: for each operation a pure check and a rule: it fails with the error of
    the check and without effect, or commits those tables and sends exactly one event.
  \<^item> \<open>Fs_History\<close>: calls as data, \<open>run\<close>, and the abstract transition system \<open>fs_effect\<close> that every run refines.
    \<open>Fs_Reach\<close>: reachable states and the invariants proved by rule induction.
  \<^item> \<open>Fs_Mkfs\<close>: \<open>mkfs.rs\<close>, the pragmas and the checkpoint thread.  \<open>Fs_Safety\<close>, \<open>Fs_Access\<close>, \<open>Fs_Behaviour\<close>:
    the properties of histories, of permissions and of single operations seen through paths and descriptors.
  \<^item> \<open>Fs_View\<close>, \<open>Fs_Contents\<close>, \<open>Fs_Attributes\<close>, \<open>Fs_Events\<close>: the abstract filesystem, a map from paths to nodes and from
    nodes to byte lists and attributes, that
    every call refines, and the events that changes of it send to watchers.  \<open>Fs_Deviations\<close>: runs on which
    the code does not do what POSIX or its comments say.
  \<^item> \<open>Fs_Fsck\<close>: \<open>fsck.rs\<close>.  \<open>Fs_Adapter\<close>: \<open>fuse/adapter.rs\<close>, each handler a function that returns its reply.
    \<open>Fs_Requests\<close>: what a request does is a sequence of transitions of \<open>call_effect\<close> by the user who sent it; the locale
    \<open>sender_contract\<close> adds any relation that single transitions satisfy and is interpreted three times, twice
    with the permissions of \<open>Fs_Access\<close>.  \<open>Fs_Kernel\<close>: the operations as the kernel sees them, through inode numbers and handles.

  \<^bold>\<open>What is shown.\<close>  From a filesystem made by \<open>mkfs\<close> every call, whichever statements of the engine fail,
  keeps the invariant and returns, and one that fails has no effect, but for what \<open>left_behind\<close> says of \<open>unlink\<close>, \<open>close_fd\<close>,
  \<open>setxattr\<close> and \<open>removexattr\<close>, which run several statements outside one transaction; without engine faults
  no file without a name outlives its descriptors.  Every call refines an operation on
  the abstract filesystem (\<open>calls_refine_paths\<close>, \<open>calls_refine_contents\<close>, \<open>calls_refine_attributes\<close>), and one that changes a path announces it in one event.  Names change only with permission on
  the directory, owners and modes only by root and the owner, nothing on a read-only mount.  Reads return what was
  written, for every chunk size; unlinked files stay readable; listings, paths found for nodes and paged
  listings are complete.  Locks exclude each other in every history.  \<open>fsck\<close> reports exactly the faults its
  kinds stand for, and after any history at most wrong link counts of directories, which \<open>rename_over_directory_leaks\<close>
  shows to occur.  Every request of the kernel is answered, acts only as the user who sent it and with that user's permissions; a name
  looked up by the number of its directory is the entry of that directory, a directory read request by request lists its
  entries and its real parent, each once, and what is written through a handle is what is read through it.

  \<^bold>\<open>Parameters and bounds.\<close>  The engine is a parameter carried by the connection (\<open>c_fault\<close>: which statement
  fails; \<open>c_pick\<close>: the row of an unordered \<open>LIMIT 1\<close>; \<open>c_integrity\<close>); so are the clock, the files of the host and the
  loop of the crate \<open>fuser\<close>.  Nothing is assumed of them unless a theorem says \<open>reliable\<close>.  Machine integers have their width.  A write
  must end below \<open>2 ^ 63\<close> and a lock below \<open>2 ^ 64\<close>, where the source's sums would wrap (\<open>call_ok\<close>, \<open>request_ok\<close>, \<open>ok_range\<close>);
  the counters of descriptors and subscriptions are assumed not to have come round.  The loops over parents are partial functions, shown to end on a
  tree.  The recursive query of \<open>check_cycles\<close> is cut at depth 4096 as in the source, and a property says so; the reader of a
  directory (\<open>list_dir\<close>) has a list of buffers, one for each request, and as many as items are enough, since each page has at
  least one.

  \<^bold>\<open>Not modelled.\<close>  The texts of messages; memory exhaustion; mutexes, the time a \<open>recv\<close> waits and the scheduling of the
  checkpoint thread (its loop is a function of what its channel receives, its statement does not change rows); the
  re-exports of \<open>lib.rs\<close> and \<open>fuse/mod.rs\<close>; the FUSE session loop; other processes writing to the same
  database file; the Python implementation, which is a separate program.
\<close>

end
